(* ===== verification/Prelude.thy ===== *)
theory Prelude
  imports Main "HOL-Library.Word" "HOL-Library.Monad_Syntax"
begin

unbundle bit_operations_syntax

text \<open>
  Shared vocabulary of the development.

  \<^item> machine integers: \<open>u8\<close>, \<open>u16\<close>, \<open>u32\<close> and \<open>u64\<close> are words, so C's unsigned arithmetic
    wraps here exactly as it does there; C's \<open>int\<close> return codes and errno values are \<^typ>\<open>int\<close>;
  \<^item> a C function that can hit a failing \<^verbatim>\<open>assert\<close> or call \<^verbatim>\<open>abort\<close> returns an \<^typ>\<open>'a option\<close>,
    with \<^term>\<open>None\<close> for the abort; sequencing is the do-notation of the option monad and
    \<open>c_assert\<close> is C's \<^verbatim>\<open>assert\<close>;
  \<^item> \<open>has f m\<close> is the C test \<^verbatim>\<open>f & m\<close> on flag words;
  \<^item> big-endian encoding of words as byte lists (the wire format of the NBD protocol);
  \<^item> disks as functions from byte offsets to bytes, with the reference read and write.
\<close>

type_synonym u8 = "8 word"
type_synonym u16 = "16 word"
type_synonym u32 = "32 word"
type_synonym u64 = "64 word"

text \<open>A C string: its bytes without the terminating NUL.\<close>

type_synonym cstring = "u8 list"

named_theorems flag_simps "distribution of the flag test over the bit operations"
named_theorems disk_simps "reads and writes of the reference disk"

subsection \<open>Aborting code\<close>

definition c_assert :: "bool \<Rightarrow> unit option" where
  "c_assert b = (if b then Some () else None)"

lemma c_assert_True [simp]: "c_assert True = Some ()"
  by (simp add: c_assert_def)

lemma c_assert_False [simp]: "c_assert False = None"
  by (simp add: c_assert_def)

lemma c_assert_eq_Some [simp]: "c_assert b = Some u \<longleftrightarrow> b"
  by (simp add: c_assert_def)

lemma c_assert_bind_eq_Some [simp]:
  "Option.bind (c_assert b) f = Some x \<longleftrightarrow> b \<and> f () = Some x"
  by (simp add: c_assert_def)

lemma c_assert_bind_eq_None [simp]:
  "Option.bind (c_assert b) f = None \<longleftrightarrow> \<not> b \<or> f () = None"
  by (simp add: c_assert_def)

lemma c_assert_bind [simp]: "b \<Longrightarrow> Option.bind (c_assert b) f = f ()"
  by (simp add: c_assert_def)

subsection \<open>Error numbers\<close>

text \<open>
  Linux values.  On Linux \<^verbatim>\<open>ENOTSUP\<close> and \<^verbatim>\<open>EOPNOTSUPP\<close> are the same number.
\<close>

abbreviation (input) EPERM :: int where "EPERM \<equiv> 1"
abbreviation (input) EIO :: int where "EIO \<equiv> 5"
abbreviation (input) ENOMEM :: int where "ENOMEM \<equiv> 12"
abbreviation (input) EINVAL :: int where "EINVAL \<equiv> 22"
abbreviation (input) EFBIG :: int where "EFBIG \<equiv> 27"
abbreviation (input) ENOSPC :: int where "ENOSPC \<equiv> 28"
abbreviation (input) EROFS :: int where "EROFS \<equiv> 30"
abbreviation (input) ERANGE :: int where "ERANGE \<equiv> 34"
abbreviation (input) EBADMSG :: int where "EBADMSG \<equiv> 74"
abbreviation (input) EOVERFLOW :: int where "EOVERFLOW \<equiv> 75"
abbreviation (input) ENOTSUP :: int where "ENOTSUP \<equiv> 95"
abbreviation (input) EOPNOTSUPP :: int where "EOPNOTSUPP \<equiv> 95"
abbreviation (input) ESHUTDOWN :: int where "ESHUTDOWN \<equiv> 108"
abbreviation (input) EDQUOT :: int where "EDQUOT \<equiv> 122"

subsection \<open>Flag words\<close>

definition has :: "'a::len word \<Rightarrow> 'a word \<Rightarrow> bool" where
  "has f m \<longleftrightarrow> f AND m \<noteq> 0"

lemma has_or [flag_simps]: "has (f OR g) m \<longleftrightarrow> has f m \<or> has g m"
  by (simp add: has_def bit.conj_disj_distrib2 or_eq_0_iff)

lemma has_zero [simp, flag_simps]: "\<not> has 0 m"
  by (simp add: has_def)

lemma has_if [flag_simps]: "has (if b then f else g) m \<longleftrightarrow> (if b then has f m else has g m)"
  by simp

lemma has_subset: "f AND NOT m = 0 \<Longrightarrow> m AND x = 0 \<Longrightarrow> \<not> has f x"
  for f :: "'a::len word"
  by (auto simp: has_def bit_eq_iff bit_simps)

subsection \<open>Masks and powers of two\<close>

lemma nat_and_pred_zero: "0 < n \<Longrightarrow> n AND (n - 1) = 0 \<longleftrightarrow> (\<exists>k. n = 2 ^ k)" for n :: nat
proof (induction n rule: less_induct)
  case (less n)
  show ?case
  proof (cases "even n")
    case True
    then obtain m where m: "n = 2 * m" by blast
    with less.prems have m0: "0 < m" "m < n" by auto
    have d: "(n - 1) div 2 = m - 1" using m m0 by presburger
    have "n AND (n - 1) = 2 * (m AND (m - 1))"
      using d m m0 by (subst and_nat_rec) simp
    moreover have "(\<exists>k. n = 2 ^ k) \<longleftrightarrow> (\<exists>k. m = 2 ^ k)" (is "?L \<longleftrightarrow> ?R")
    proof
      assume ?L
      then obtain k where k: "n = 2 ^ k" by blast
      with True have "k \<noteq> 0" by (cases k) auto
      with k m have "m = 2 ^ (k - 1)" by (cases k) auto
      then show ?R by blast
    next
      assume ?R then show ?L using m by (metis power_Suc)
    qed
    ultimately show ?thesis using less.IH [OF m0(2) m0(1)] by simp
  next
    case False
    then obtain m where m: "n = Suc (2 * m)" by (metis oddE Suc_eq_plus1)
    have "n AND (n - 1) = 2 * m"
      using m by (subst and_nat_rec) simp
    moreover have "(\<exists>k. n = 2 ^ k) \<longleftrightarrow> m = 0"
    proof
      assume "\<exists>k. n = 2 ^ k"
      then obtain k where "n = 2 ^ k" by blast
      with False show "m = 0" using m by (cases k) auto
    next
      assume "m = 0" then show "\<exists>k. n = 2 ^ k" using m by (auto intro: exI [of _ 0])
    qed
    ultimately show ?thesis by simp
  qed
qed

lemma and_minus_exp_eq: "x AND - (2 ^ k) = x - take_bit k x" for x :: "'a::len word"
proof -
  have "x = (x AND NOT (mask k)) OR (x AND mask k)"
    by (rule bit_word_eqI) (auto simp: bit_simps)
  also have "\<dots> = (x AND NOT (mask k)) + (x AND mask k)"
    by (rule disjunctive_add [symmetric]) (auto simp: bit_simps)
  finally have "x - (x AND mask k) = x AND NOT (mask k)"
    by (metis add_diff_cancel_right')
  then have "x - take_bit k x = x AND NOT (mask k)"
    by (simp add: take_bit_eq_mask)
  then show ?thesis by (simp add: minus_exp_eq_not_mask)
qed

lemma unat_take_bit: "unat (take_bit k x) = unat x mod 2 ^ k" for x :: "'a::len word"
  by (simp add: unsigned_take_bit_eq flip: take_bit_eq_mod)

lemma unat_and_minus_exp: "unat (x AND - (2 ^ k)) = unat x - unat x mod 2 ^ k"
  for x :: "'a::len word"
proof -
  have "take_bit k x \<le> x"
    by (simp add: word_le_nat_alt unat_take_bit)
  then have "unat (x - take_bit k x) = unat x - unat (take_bit k x)"
    by (rule unat_sub)
  then show ?thesis
    by (simp add: and_minus_exp_eq unat_take_bit)
qed

lemma unat_and_exp_minus_1: "unat (x AND (2 ^ k - 1)) = unat x mod 2 ^ k"
  for x :: "'a::len word"
  by (simp add: unat_take_bit flip: mask_eq_exp_minus_1 take_bit_eq_mask)

lemma unat_exp: "k < LENGTH('a) \<Longrightarrow> unat (2 ^ k :: 'a::len word) = 2 ^ k"
proof -
  assume "k < LENGTH('a)"
  then have "unat (of_nat (2 ^ k) :: 'a word) = 2 ^ k" by (simp only: unat_of_nat) simp
  then show ?thesis by simp
qed

lemma unat_ucast_up:
  "LENGTH('a) \<le> LENGTH('b) \<Longrightarrow> unat (ucast w :: 'b::len word) = unat (w :: 'a::len word)"
proof -
  assume "LENGTH('a) \<le> LENGTH('b)"
  then have "unat w < 2 ^ LENGTH('b)"
    by (intro less_le_trans [OF unsigned_less power_increasing]) simp_all
  then show ?thesis
    by (simp add: unsigned_ucast_eq take_bit_nat_eq_self)
qed

lemma unat_ucast_down: "unat w < 2 ^ LENGTH('b) \<Longrightarrow> unat (ucast w :: 'b::len word) = unat (w :: 'a::len word)"
  by (simp add: unsigned_ucast_eq take_bit_nat_eq_self)

lemma unat_u32_less: "unat (x :: u32) < 2 ^ 32"
  using unsigned_less [of x, where 'a = nat] by simp

lemma ucast_up_add:
  fixes a b c :: u32
  assumes "unat a = unat b + unat c"
  shows "(ucast a :: u64) = ucast b + ucast c"
proof -
  have "unat b + unat c < 2 ^ 32" using assms unsigned_less [of a, where 'a = nat] by simp
  then have "unat (ucast b + ucast c :: u64) = unat b + unat c"
    by (simp add: unat_word_ariths unat_ucast_up)
  with assms show ?thesis by (simp add: word_unat_eq_iff unat_ucast_up)
qed

subsection \<open>Signed readings of 64-bit words\<close>

lemma unat_u64_less: "unat (x :: u64) < 2 ^ 64"
  using unsigned_less [of x, where 'a = nat] by simp

lemma unat_u64_minus_1: "unat (- 1 :: u64) = 2 ^ 64 - 1"
  by (simp add: unsigned_minus_1_eq_mask mask_eq_exp_minus_1)

lemma sint_u64: "sint (x::u64) = signed_take_bit 63 (uint x)" 
  by (subst sint_uint) (simp only: len_bit0 len_num1, simp)

lemma sint_u64_nonneg: "0 \<le> sint x \<longleftrightarrow> unat (x :: u64) < 2 ^ 63"
proof -
  have "0 \<le> sint x \<longleftrightarrow> \<not> bit (uint x) 63"
    by (simp only: sint_u64 signed_take_bit_nonnegative_iff)
  also have "\<dots> \<longleftrightarrow> even (uint x div 2 ^ 63)"
    by (simp only: bit_iff_odd not_not)
  also have "\<dots> \<longleftrightarrow> uint x < 2 ^ 63"
  proof
    assume "even (uint x div 2 ^ 63)"
    moreover have "uint x div 2 ^ 63 < 2" using uint_lt2p [of x] by simp
    moreover have "0 \<le> uint x div 2 ^ 63" by (simp add: pos_imp_zdiv_nonneg_iff)
    moreover have "q = 0" if "even q" "q < 2" "0 \<le> q" for q :: int using that by presburger
    ultimately have z: "uint x div 2 ^ 63 = 0" by blast
    show "uint x < 2 ^ 63"
    proof (rule ccontr)
      assume "\<not> uint x < 2 ^ 63"
      then have "2 ^ 63 div 2 ^ 63 \<le> uint x div 2 ^ 63" by (intro zdiv_mono1) simp_all
      with z show False by simp
    qed
  next
    assume "uint x < 2 ^ 63"
    then have "uint x div 2 ^ 63 = 0" by (intro div_pos_pos_trivial) simp_all
    then show "even (uint x div 2 ^ 63)" by (simp only: dvd_0_right)
  qed
  also have "\<dots> \<longleftrightarrow> unat x < 2 ^ 63"
    using of_nat_less_iff[of "unat x" "2^63", where 'a=int] by simp
  finally show ?thesis .
qed

lemma sint_u64_eq: "unat x < 2 ^ 63 \<Longrightarrow> sint (x :: u64) = int (unat x)"
proof -
  assume "unat x < 2 ^ 63"
  then have u: "uint x < 2 ^ 63" 
    using of_nat_less_iff[of "unat x" "2^63", where 'a=int] by simp
  have "signed_take_bit 63 (uint x) = uint x"
    by (rule signed_take_bit_int_eq_self) (use u in \<open>auto intro: order_trans [of _ 0]\<close>)
  then show ?thesis by (simp only: sint_u64) simp
qed

subsection \<open>Big-endian bytes\<close>

text \<open>
  \<open>be_enc n w\<close> is the value of \<open>w\<close> in \<open>n\<close> bytes, most significant first: what is in memory
  after \<^verbatim>\<open>x = htobe..(w)\<close>.  \<open>be_dec\<close> reads such bytes back, as \<^verbatim>\<open>be..toh\<close> does.
\<close>

fun be_enc :: "nat \<Rightarrow> 'a::len word \<Rightarrow> u8 list" where
  "be_enc 0 w = []"
| "be_enc (Suc n) w = ucast (drop_bit (8 * n) w) # be_enc n w"

definition be_dec :: "u8 list \<Rightarrow> 'a::len word" where
  "be_dec bs = foldl (\<lambda>acc b. push_bit 8 acc OR ucast b) 0 bs"

abbreviation be16 :: "u16 \<Rightarrow> u8 list" where "be16 \<equiv> be_enc 2"
abbreviation be32 :: "u32 \<Rightarrow> u8 list" where "be32 \<equiv> be_enc 4"
abbreviation be64 :: "u64 \<Rightarrow> u8 list" where "be64 \<equiv> be_enc 8"

lemma length_be_enc [simp]: "length (be_enc n w) = n"
  by (induction n) auto

lemma be_step: "push_bit (8 * n) (push_bit 8 a OR ucast (ucast (drop_bit (8 * n) w) :: u8))
          OR take_bit (8 * n) w =
        push_bit (8 * Suc n) a OR take_bit (8 * Suc n) (w :: 'a::len word)" (is "?L = ?R")
proof (rule bit_word_eqI)
  fix i assume i: "i < LENGTH('a)"
  consider "i < 8 * n" | "8 * n \<le> i" "i < 8 * Suc n" | "8 * Suc n \<le> i" by linarith
  then show "bit ?L i = bit ?R i"
  proof cases
    case 3
    then obtain j where "i = 8 * Suc n + j" using le_Suc_ex by blast
    with i show ?thesis by (simp add: bit_simps)
  qed (use i in \<open>auto simp: bit_simps\<close>)
qed
lemma foldl_be_enc:
  "foldl (\<lambda>acc b. push_bit 8 acc OR ucast b) a (be_enc n w) =
     push_bit (8 * n) a OR take_bit (8 * n) (w :: 'a::len word)"
proof (induction n arbitrary: a)
  case 0
  then show ?case by simp
next
  case (Suc n)
  show ?case unfolding be_enc.simps foldl.simps Suc.IH by (rule be_step)
qed

lemma be_dec_enc: "LENGTH('a) \<le> 8 * n \<Longrightarrow> be_dec (be_enc n w) = (w :: 'a::len word)"
  by (simp add: be_dec_def foldl_be_enc take_bit_word_eq_self)

lemma be_dec_be16 [simp]: "be_dec (be16 w) = w"
  by (simp add: be_dec_enc)

lemma be_dec_be32 [simp]: "be_dec (be32 w) = w"
  by (simp add: be_dec_enc)

lemma be_dec_be64 [simp]: "be_dec (be64 w) = w"
  by (simp add: be_dec_enc)

subsection \<open>The reference disk\<close>

type_synonym disk = "nat \<Rightarrow> u8"

definition disk_read :: "disk \<Rightarrow> nat \<Rightarrow> nat \<Rightarrow> u8 list" where
  "disk_read d off n = map d [off..<off + n]"

definition disk_write :: "disk \<Rightarrow> nat \<Rightarrow> u8 list \<Rightarrow> disk" where
  "disk_write d off bs = (\<lambda>i. if off \<le> i \<and> i < off + length bs then bs ! (i - off) else d i)"

lemma length_disk_read [simp]: "length (disk_read d off n) = n"
  by (simp add: disk_read_def)

lemma disk_write_Nil [simp, disk_simps]: "disk_write d off [] = d"
  by (auto simp: disk_write_def fun_eq_iff)

lemma disk_read_write_same [simp, disk_simps]:
  "disk_read (disk_write d off bs) off (length bs) = bs"
  by (rule nth_equalityI) (auto simp: disk_read_def disk_write_def)

lemma disk_read_write_disjoint [disk_simps]:
  "off' + n \<le> off \<or> off + length bs \<le> off' \<Longrightarrow>
     disk_read (disk_write d off bs) off' n = disk_read d off' n"
  by (auto simp: disk_read_def disk_write_def)

lemma disk_write_append [disk_simps]:
  "disk_write (disk_write d off xs) (off + length xs) ys = disk_write d off (xs @ ys)"
  by (auto simp: disk_write_def fun_eq_iff nth_append)

lemma disk_read_append:
  "disk_read d off (m + n) = disk_read d off m @ disk_read d (off + m) n"
  using upt_add_eq_append [of off "off + m" n]
  by (simp add: disk_read_def add.assoc)

text \<open>The bytes outside \<open>[off, off + n)\<close> are the same.\<close>

definition same_outside :: "nat \<Rightarrow> nat \<Rightarrow> disk \<Rightarrow> disk \<Rightarrow> bool" where
  "same_outside off n d d' \<longleftrightarrow> (\<forall>i. i < off \<or> off + n \<le> i \<longrightarrow> d' i = d i)"

lemma same_outside_refl [simp]: "same_outside off n d d"
  by (simp add: same_outside_def)

lemma same_outside_0 [simp]: "same_outside off 0 d d' \<longleftrightarrow> d' = d"
  by (auto simp: same_outside_def fun_eq_iff not_less [symmetric])

lemma same_outside_write: "length xs = n \<Longrightarrow> same_outside off n d (disk_write d off xs)"
  by (auto simp: same_outside_def disk_write_def)

lemma same_outside_trans:
  "same_outside off n d d' \<Longrightarrow> same_outside off' n' d' d'' \<Longrightarrow> off \<le> off' \<Longrightarrow> off' + n' \<le> off + n \<Longrightarrow>
     same_outside off n d d''"
  by (auto simp: same_outside_def)

lemma same_outside_mono:
  "same_outside off' n' d d' \<Longrightarrow> off \<le> off' \<Longrightarrow> off' + n' \<le> off + n \<Longrightarrow> same_outside off n d d'"
  by (auto simp: same_outside_def)

lemma disk_write_same_outside:
  "same_outside off n d d' \<Longrightarrow> length xs = n \<Longrightarrow> disk_write d' off xs = disk_write d off xs"
  by (auto simp: same_outside_def disk_write_def fun_eq_iff)

abbreviation zeroes :: "nat \<Rightarrow> u8 list" where "zeroes n \<equiv> replicate n 0"

end
