(* ===== verification/Common.thy ===== *)
theory Common
  imports Prelude "HOL-Library.Log_Nat"
begin

text \<open>
  The arithmetic and buffer helpers of \<^verbatim>\<open>src/common/include\<close>: power-of-two tests and
  rounding (\<^verbatim>\<open>ispowerof2.h\<close>, \<^verbatim>\<open>rounding.h\<close>, \<^verbatim>\<open>isaligned.h\<close>), the checked arithmetic of
  \<^verbatim>\<open>checked-overflow.h\<close>, and the zero-buffer scans of \<^verbatim>\<open>iszero.h\<close> and \<^verbatim>\<open>nextnonzero.h\<close>.
  Each is characterised by its arithmetic meaning on natural numbers.
\<close>

subsection \<open>Powers of two\<close>

definition is_power_of_2 :: "'a::len word \<Rightarrow> bool" where
  "is_power_of_2 v \<longleftrightarrow> v \<noteq> 0 \<and> v AND (v - 1) = 0"

text \<open>GCC's \<^verbatim>\<open>__builtin_clzll\<close>: the number of leading zero bits (of a non-zero value).\<close>

definition clzll :: "u64 \<Rightarrow> nat" where
  "clzll v = 64 - floorlog 2 (unat v)"

definition log_2_bits :: "u64 \<Rightarrow> int" where
  "log_2_bits v = 64 - int (clzll v) - 1"

definition next_power_of_2 :: "u64 \<Rightarrow> u64" where
  "next_power_of_2 x =
     (if x = 0x8000000000000000 then 0x8000000000000000
      else if sint x < 0 then - 1
      else if sint x \<le> 1 then 1
      else push_bit (64 - clzll (x - 1)) 1)"

subsection \<open>Rounding and alignment\<close>

definition ROUND_UP :: "'a::len word \<Rightarrow> 'a word \<Rightarrow> 'a word option" where
  "ROUND_UP i n = do {
     c_assert (is_power_of_2 n);
     Some ((i + n - 1) AND - n)
   }"

definition ROUND_DOWN :: "'a::len word \<Rightarrow> 'a word \<Rightarrow> 'a word option" where
  "ROUND_DOWN i n = do {
     c_assert (is_power_of_2 n);
     Some (i AND - n)
   }"

definition DIV_ROUND_UP :: "'a::len word \<Rightarrow> 'a word \<Rightarrow> 'a word" where
  "DIV_ROUND_UP n d = (n + d - 1) div d"

definition IS_ALIGNED :: "'a::len word \<Rightarrow> 'a word \<Rightarrow> bool option" where
  "IS_ALIGNED sz align = do {
     c_assert (is_power_of_2 align);
     Some (sz AND (align - 1) = 0)
   }"

subsection \<open>Checked arithmetic\<close>

text \<open>Each returns the overflow indication and the value stored in \<^verbatim>\<open>*r\<close>.\<close>

definition check_add_overflow :: "u64 \<Rightarrow> u64 \<Rightarrow> u64 \<Rightarrow> bool \<times> u64" where
  "check_add_overflow a b mx =
     (let r = a + b; in_range = (a \<le> - 1 - b \<and> r \<le> mx) in (\<not> in_range, r))"

definition check_mul_overflow :: "u64 \<Rightarrow> u64 \<Rightarrow> u64 \<Rightarrow> bool \<times> u64" where
  "check_mul_overflow a b mx =
     (let r = a * b; in_range = (b = 0 \<or> (a \<le> (- 1) div b \<and> r \<le> mx)) in (\<not> in_range, r))"

subsection \<open>Zero buffers\<close>

text \<open>
  \<^verbatim>\<open>is_zero\<close> tests the first 16 bytes one by one and compares the rest of the buffer with the
  buffer itself shifted by 16.
\<close>

definition is_zero :: "u8 list \<Rightarrow> bool" where
  "is_zero buffer =
     (let size = length buffer;
          limit = (if size < 16 then size else 16)
      in if list_ex (\<lambda>i. buffer ! i \<noteq> 0) [0..<limit] then False
         else if size \<noteq> limit then take (size - 16) buffer = drop 16 buffer
         else True)"

text \<open>The index of the first non-zero byte, \<^term>\<open>None\<close> for C's \<^verbatim>\<open>NULL\<close>.\<close>

definition next_non_zero :: "u8 list \<Rightarrow> nat option" where
  "next_non_zero buffer = List.find (\<lambda>i. buffer ! i \<noteq> 0) [0..<length buffer]"

subsection \<open>Lemmas: powers of two\<close>

lemma is_power_of_2_unat: "is_power_of_2 v \<longleftrightarrow> (\<exists>k. unat v = 2 ^ k)" for v :: "'a::len word"
proof (cases "v = 0")
  case True
  then show ?thesis by (simp add: is_power_of_2_def)
next
  case False
  then have pos: "0 < unat v" by (simp add: unat_gt_0)
  have "unat (v - 1) = unat v - 1"
    using False by (metis unat_minus_one)
  then have "v AND (v - 1) = 0 \<longleftrightarrow> unat v AND (unat v - 1) = 0"
    by (metis unsigned_and_eq unsigned_eq_0_iff)
  with False nat_and_pred_zero [OF pos] show ?thesis
    by (simp add: is_power_of_2_def)
qed

lemma is_power_of_2_exp:
  "is_power_of_2 v \<longleftrightarrow> (\<exists>k < LENGTH('a). v = 2 ^ k)" for v :: "'a::len word"
proof
  assume "is_power_of_2 v"
  then obtain k where k: "unat v = 2 ^ k"
    by (auto simp: is_power_of_2_unat)
  have "(2::nat) ^ k < 2 ^ LENGTH('a)"
    using unsigned_less [of v, where 'a = nat] k by simp
  then have "k < LENGTH('a)" by simp
  moreover from this k have "v = 2 ^ k"
    by (simp add: unat_exp word_unat_eq_iff)
  ultimately show "\<exists>k < LENGTH('a). v = 2 ^ k" by blast
next
  assume "\<exists>k < LENGTH('a). v = 2 ^ k"
  then show "is_power_of_2 v"
    by (auto simp: is_power_of_2_unat unat_exp)
qed

lemma is_power_of_2E:
  assumes "is_power_of_2 (v :: 'a::len word)"
  obtains k where "k < LENGTH('a)" "v = 2 ^ k" "unat v = 2 ^ k"
  using assms by (auto simp: is_power_of_2_exp unat_exp)

lemma is_power_of_2_ucast:
  "LENGTH('a) \<le> LENGTH('b) \<Longrightarrow>
     is_power_of_2 (ucast v :: 'b::len word) \<longleftrightarrow> is_power_of_2 (v :: 'a::len word)"
  by (simp add: is_power_of_2_unat unat_ucast_up)

lemma ROUND_DOWN_unat:
  "is_power_of_2 n \<Longrightarrow> ROUND_DOWN i n = Some r \<Longrightarrow> unat r = unat i - unat i mod unat n"
  for i :: "'a::len word"
  by (elim is_power_of_2E) (auto simp: ROUND_DOWN_def unat_and_minus_exp)

lemma ROUND_DOWN_Some: "is_power_of_2 n \<Longrightarrow> \<exists>r. ROUND_DOWN i n = Some r"
  by (simp add: ROUND_DOWN_def)

lemma ROUND_UP_Some: "is_power_of_2 n \<Longrightarrow> \<exists>r. ROUND_UP i n = Some r"
  by (simp add: ROUND_UP_def)

lemma ROUND_UP_unat:
  fixes i :: "'a::len word"
  assumes "is_power_of_2 n" and "ROUND_UP i n = Some r"
    and "unat i + unat n - 1 < 2 ^ LENGTH('a)"
  shows "unat r = (unat i + unat n - 1) div unat n * unat n"
proof -
  from assms(1) obtain k where k: "k < LENGTH('a)" "n = 2 ^ k" "unat n = 2 ^ k"
    by (rule is_power_of_2E)
  have s: "unat (i + (n - 1)) = unat i + (unat n - 1)"
  proof -
    have "unat (n - 1) = unat n - 1"
      using k by (metis unat_minus_one unat_0 power_not_zero zero_neq_numeral)
    moreover from this assms(3) k have "unat i + unat (n - 1) < 2 ^ LENGTH('a)"
      by simp
    ultimately show ?thesis
      by (metis unat_add_lem)
  qed
  have "unat r = unat (i + (n - 1)) - unat (i + (n - 1)) mod 2 ^ k"
    using assms(1,2) k by (auto simp: ROUND_UP_def unat_and_minus_exp add_diff_eq)
  also have "\<dots> = (unat i + unat n - 1) div unat n * unat n"
    using k s by (simp add: minus_mod_eq_div_mult)
  finally show ?thesis .
qed

lemma IS_ALIGNED_unat:
  "is_power_of_2 n \<Longrightarrow> IS_ALIGNED i n = Some (unat n dvd unat i)"
  for i :: "'a::len word"
proof (elim is_power_of_2E)
  fix k assume k: "k < LENGTH('a)" "n = 2 ^ k" "unat n = 2 ^ k"
  have "i AND (n - 1) = 0 \<longleftrightarrow> unat (i AND (n - 1)) = 0"
    by (simp add: unat_eq_0)
  also have "\<dots> \<longleftrightarrow> unat n dvd unat i"
    using k by (simp add: unat_and_exp_minus_1 dvd_eq_mod_eq_0)
  finally show ?thesis
    using k by (auto simp: IS_ALIGNED_def is_power_of_2_exp)
qed

subsection \<open>Lemmas: logarithms, checked arithmetic and zero buffers\<close>

lemma floorlog_2_1: "floorlog 2 (Suc 0) = 1" by (simp add: floorlog_def)

lemma log_2_bits_exp: "k < 64 \<Longrightarrow> log_2_bits (2 ^ k) = int k"
  using floorlog_power [of 1 2 k] 
  by (simp add: log_2_bits_def clzll_def unat_exp floorlog_2_1)

lemma next_power_of_2_least:
  assumes "0 < sint x" and "next_power_of_2 x = p"
  shows "\<exists>k. unat p = 2 ^ k \<and> unat x \<le> 2 ^ k \<and> (\<forall>j. unat x \<le> 2 ^ j \<longrightarrow> k \<le> j)"
proof -
  have x: "unat x < 2 ^ 63" using assms(1) sint_u64_nonneg [of x] by simp
  have sx: "sint x = int (unat x)" using x by (rule sint_u64_eq)
  with assms(1) have pos: "0 < unat x" by linarith
  have ne: "x \<noteq> 0x8000000000000000" using x by auto
  show ?thesis
  proof (cases "unat x = 1")
    case True
    then have "p = 1" using assms(2) sx ne by (simp add: next_power_of_2_def)
    then show ?thesis using True by (auto intro!: exI [of _ 0])
  next
    case False
    define k where "k = floorlog 2 (unat (x - 1))"
    have xm: "unat (x - 1) = unat x - 1" using pos by (metis unat_minus_one unat_0 less_irrefl)
    have k63: "k \<le> 63" using x xm by (simp add: k_def floorlog_leI)
    have "\<not> sint x \<le> 1" using sx pos False by linarith
    then have "p = push_bit (64 - clzll (x - 1)) 1"
      using assms(2) ne by (simp add: next_power_of_2_def)
    also have "64 - clzll (x - 1) = k"
      using k63 by (simp add: clzll_def flip: k_def)
    finally have "p = 2 ^ k"
      by (simp add: push_bit_eq_mult)
    then have "unat p = 2 ^ k" using k63 by (simp add: unat_exp)
    moreover have "unat x \<le> 2 ^ k"
      using floorlog_leD [of 2 "unat (x - 1)" k] xm by (simp add: k_def)
    moreover have "k \<le> j" if "unat x \<le> 2 ^ j" for j
      using that xm pos by (simp add: k_def floorlog_leI)
    ultimately show ?thesis by blast
  qed
qed

lemma check_add_overflow_iff:
  "check_add_overflow a b mx = (ov, r) \<Longrightarrow>
     (ov \<longleftrightarrow> unat mx < unat a + unat b) \<and> unat r = (unat a + unat b) mod 2 ^ 64"
proof -
  assume "check_add_overflow a b mx = (ov, r)"
  then have r: "r = a + b" and ov: "ov \<longleftrightarrow> \<not> (a \<le> - 1 - b \<and> a + b \<le> mx)"
    by (auto simp: check_add_overflow_def Let_def)
  have rr: "unat (a + b) = (unat a + unat b) mod 2 ^ 64"
    by (simp add: unat_word_ariths)
  have "unat (- 1 - b) = 2 ^ 64 - 1 - unat b"
    by (subst unat_sub) (simp_all add: unat_u64_minus_1)
  then have "a \<le> - 1 - b \<longleftrightarrow> unat a + unat b < 2 ^ 64"
    using unat_u64_less [of b] by (auto simp: word_le_nat_alt)
  then have "(a \<le> - 1 - b \<and> a + b \<le> mx) \<longleftrightarrow> unat a + unat b \<le> unat mx"
    using unat_u64_less [of mx] rr by (auto simp: word_le_nat_alt)
  with r ov rr show ?thesis by auto
qed

lemma check_mul_overflow_iff:
  "check_mul_overflow a b mx = (ov, r) \<Longrightarrow>
     (ov \<longleftrightarrow> unat mx < unat a * unat b) \<and> unat r = (unat a * unat b) mod 2 ^ 64"
proof -
  assume "check_mul_overflow a b mx = (ov, r)"
  then have r: "r = a * b" and ov: "ov \<longleftrightarrow> \<not> (b = 0 \<or> a \<le> (- 1) div b \<and> a * b \<le> mx)"
    by (auto simp: check_mul_overflow_def Let_def)
  have rr: "unat (a * b) = (unat a * unat b) mod 2 ^ 64"
    by (simp add: unat_word_ariths)
  have "a \<le> (- 1) div b \<longleftrightarrow> unat a * unat b < 2 ^ 64" if "b \<noteq> 0"
  proof -
    from that have "0 < unat b" by (simp add: unat_gt_0)
    then have "unat a \<le> (2 ^ 64 - 1) div unat b \<longleftrightarrow> unat a * unat b \<le> 2 ^ 64 - 1"
      by (rule less_eq_div_iff_mult_less_eq)
    moreover have "unat ((- 1) div b) = (2 ^ 64 - 1) div unat b"
      by (simp add: unat_div_distrib unat_u64_minus_1)
    ultimately show ?thesis
      by (simp add: word_le_nat_alt) linarith
  qed
  then have "(b = 0 \<or> a \<le> (- 1) div b \<and> a * b \<le> mx) \<longleftrightarrow> unat a * unat b \<le> unat mx"
    using unat_u64_less [of mx] rr by (cases "b = 0") (auto simp: word_le_nat_alt)
  with r ov rr show ?thesis by auto
qed

lemma shifted_self_zero:
  assumes "take (length b - k) b = drop k b" and "\<And>i. i < k \<Longrightarrow> i < length b \<Longrightarrow> b ! i = (0::u8)"
    and "0 < k" and "i < length b"
  shows "b ! i = 0"
  using \<open>i < length b\<close>
proof (induction i rule: less_induct)
  case (less i)
  show ?case
  proof (cases "i < k")
    case True
    with assms(2) less.prems show ?thesis by blast
  next
    case False
    have "b ! i = drop k b ! (i - k)"
      using False less.prems by simp
    also have "\<dots> = b ! (i - k)"
      using False less.prems by (simp flip: assms(1))
    also have "\<dots> = 0"
      using False less assms(3) by simp
    finally show ?thesis .
  qed
qed

lemma is_zero_iff: "is_zero buffer \<longleftrightarrow> (\<forall>b \<in> set buffer. b = 0)"
proof (cases "length buffer \<le> 16")
  case True
  then have "(if length buffer < 16 then length buffer else 16) = length buffer" by simp
  then show ?thesis
    by (auto simp: is_zero_def Let_def list_ex_iff all_set_conv_all_nth)
next
  case False
  then have z: "is_zero buffer \<longleftrightarrow>
      (\<forall>i < 16. buffer ! i = 0) \<and> take (length buffer - 16) buffer = drop 16 buffer"
    by (auto simp: is_zero_def Let_def list_ex_iff)
  show ?thesis
  proof
    assume "is_zero buffer"
    with z have "buffer ! i = 0" if "i < length buffer" for i
      using that shifted_self_zero [of buffer 16 i] by auto
    then show "\<forall>b \<in> set buffer. b = 0" by (auto simp: in_set_conv_nth)
  next
    assume a: "\<forall>b \<in> set buffer. b = 0"
    then have "buffer = replicate (length buffer) 0"
      by (simp add: replicate_length_same)
    then have "take (length buffer - 16) buffer = drop 16 buffer"
      by (metis take_replicate drop_replicate length_replicate min.absorb1 diff_le_self)
    with a False z show "is_zero buffer" by simp
  qed
qed

lemma next_non_zero_Some:
  "next_non_zero buffer = Some i \<longleftrightarrow>
     i < length buffer \<and> buffer ! i \<noteq> 0 \<and> (\<forall>j < i. buffer ! j = 0)"
  by (auto simp: next_non_zero_def find_Some_iff)

lemma next_non_zero_None: "next_non_zero buffer = None \<longleftrightarrow> (\<forall>b \<in> set buffer. b = 0)"
  by (simp add: next_non_zero_def find_None_iff all_set_conv_all_nth)

subsection \<open>Properties\<close>

text \<open>C33: The checked addition and multiplication report an overflow exactly when the mathematical result
  exceeds the given maximum, and deliver the result modulo \<open>2 ^ 64\<close> in every case.\<close>

theorem checked_overflow_exact:
  "(fst (check_add_overflow a b mx) \<longleftrightarrow> unat mx < unat a + unat b)
   \<and> unat (snd (check_add_overflow a b mx)) = (unat a + unat b) mod 2 ^ 64
   \<and> (fst (check_mul_overflow a b mx) \<longleftrightarrow> unat mx < unat a * unat b)
   \<and> unat (snd (check_mul_overflow a b mx)) = (unat a * unat b) mod 2 ^ 64"
  using check_add_overflow_iff [of a b mx "fst (check_add_overflow a b mx)" "snd (check_add_overflow a b mx)"]
    check_mul_overflow_iff [of a b mx "fst (check_mul_overflow a b mx)" "snd (check_mul_overflow a b mx)"]
  by simp

text \<open>C34: The comparison of a buffer with itself shifted by sixteen bytes decides whether all its bytes are zero.\<close>

theorem is_zero_replicate: "is_zero buffer \<longleftrightarrow> buffer = replicate (length buffer) 0"
proof
  assume "is_zero buffer"
  then show "buffer = replicate (length buffer) 0" by (simp add: is_zero_iff replicate_length_same)
next
  assume z: "buffer = replicate (length buffer) 0"
  show "is_zero buffer" unfolding is_zero_iff by (subst z) simp
qed

text \<open>C35: For a positive number below \<open>2 ^ 62\<close> the next power of two is the least power of two that is not
  smaller.\<close>

theorem next_power_of_2_is_least:
  assumes "0 < sint x"
  shows "\<exists>k. unat (next_power_of_2 x) = 2 ^ k \<and> unat x \<le> 2 ^ k \<and> (\<forall>j. unat x \<le> 2 ^ j \<longrightarrow> k \<le> j)"
  using next_power_of_2_least [OF assms refl] .

theorem next_power_of_2_is_least_witness:
  "\<exists>k. unat (next_power_of_2 5) = 2 ^ k \<and> (5::nat) \<le> 2 ^ k"
  using next_power_of_2_is_least [of 5] by auto

text \<open>C36: Rounding to a power of two: down gives the largest multiple that is not above the number, up the smallest
  that is not below it, as long as the latter exists in the type.\<close>

theorem rounding_correct:
  fixes i n :: u64
  assumes "is_power_of_2 n" and "unat i + unat n - 1 < 2 ^ 64"
  shows "\<exists>d u. ROUND_DOWN i n = Some d \<and> ROUND_UP i n = Some u \<and> unat n dvd unat d \<and> unat n dvd unat u
    \<and> unat d \<le> unat i \<and> unat i < unat d + unat n \<and> unat i \<le> unat u \<and> unat u < unat i + unat n"
proof -
  obtain d u where r: "ROUND_DOWN i n = Some d" "ROUND_UP i n = Some u"
    using ROUND_DOWN_Some [OF assms(1)] ROUND_UP_Some [OF assms(1)] by blast
  have n: "0 < unat n" using assms(1) by (auto simp: is_power_of_2_unat)
  have d: "unat d = unat i div unat n * unat n"
    using ROUND_DOWN_unat [OF assms(1) r(1)] by (simp add: minus_mod_eq_div_mult)
  have u: "unat u = (unat i + (unat n - 1)) div unat n * unat n"
    using ROUND_UP_unat [OF assms(1) r(2)] assms(2) n by simp
  have m: "a div unat n * unat n \<le> a" "a < a div unat n * unat n + unat n" for a
    using div_mult_mod_eq [of a "unat n"] mod_less_divisor [OF n, of a] by linarith+
  show ?thesis
  proof (intro exI conjI)
    show "unat n dvd unat d" "unat n dvd unat u" by (simp_all add: d u)
    show "unat d \<le> unat i" "unat i < unat d + unat n" using m [of "unat i"] by (simp_all add: d)
    show "unat i \<le> unat u" "unat u < unat i + unat n"
      using m [of "unat i + (unat n - 1)"] n unfolding u by linarith+
  qed (fact r)+
qed

theorem rounding_correct_witness:
  "\<exists>d u. ROUND_DOWN (1000::u64) 512 = Some d \<and> ROUND_UP (1000::u64) 512 = Some u \<and> unat d \<le> 1000 \<and> 1000 \<le> unat u"
proof -
  have "is_power_of_2 (512::u64)" by (simp add: is_power_of_2_def)
  from rounding_correct [OF this, of 1000] show ?thesis by auto
qed

end
