(* ===== verification/Extents.thy ===== *)
theory Extents
  imports Common
begin

text \<open>
  The extents list of \<^verbatim>\<open>src/server/extents.c\<close>: the object a plugin fills in to answer a block
  status request, with the range \<open>[start, end)\<close> the client asked about, the vector of extents
  collected so far, and the offset where the next extent is expected.

  The C object is mutated in place; the model returns the new value.  A function that fails returns
  \<^term>\<open>Inl e\<close> with the errno it sets.  Memory allocation is taken to succeed.
\<close>

subsection \<open>Data\<close>

record nbdkit_extent =
  ext_offset :: u64
  ext_length :: u64
  ext_type :: u32

record nbdkit_extents =
  extents :: "nbdkit_extent list"
  x_start :: u64
  x_end :: u64     \<comment> \<open>one byte beyond the end of the range\<close>
  x_next :: u64    \<comment> \<open>a C \<^verbatim>\<open>int64_t\<close>: \<open>- 1\<close> until the first call of \<^verbatim>\<open>nbdkit_add_extent\<close>\<close>

abbreviation (input) MAX_EXTENTS :: nat where "MAX_EXTENTS \<equiv> 1024 * 1024"
abbreviation (input) INT64_MAX :: u64 where "INT64_MAX \<equiv> 0x7fffffffffffffff"
abbreviation (input) NBDKIT_FLAG_REQ_ONE :: u32 where "NBDKIT_FLAG_REQ_ONE \<equiv> 4"

subsection \<open>Operations\<close>

definition nbdkit_extents_new :: "u64 \<Rightarrow> u64 \<Rightarrow> int + nbdkit_extents" where
  "nbdkit_extents_new start fin =
     (if start > INT64_MAX \<or> fin > INT64_MAX then Inl ERANGE
      else if start > fin then Inl ERANGE
      else Inr \<lparr>extents = [], x_start = start, x_end = fin, x_next = - 1\<rparr>)"

definition nbdkit_extents_count :: "nbdkit_extents \<Rightarrow> nat" where
  "nbdkit_extents_count exts = length (extents exts)"

definition nbdkit_get_extent :: "nbdkit_extents \<Rightarrow> nat \<Rightarrow> nbdkit_extent option" where
  "nbdkit_get_extent exts i = do {
     c_assert (i < length (extents exts));
     Some (extents exts ! i)
   }"

definition append_extent :: "nbdkit_extents \<Rightarrow> nbdkit_extent \<Rightarrow> nbdkit_extents" where
  "append_extent exts e = exts\<lparr>extents := extents exts @ [e]\<rparr>"

text \<open>The final step of \<^verbatim>\<open>nbdkit_add_extent\<close>: coalesce with the last extent or append a new one.\<close>

definition add_or_extend :: "nbdkit_extents \<Rightarrow> u64 \<Rightarrow> u64 \<Rightarrow> u32 \<Rightarrow> nbdkit_extents" where
  "add_or_extend exts off len type =
     (let n = length (extents exts) in
      if 0 < n \<and> ext_type (extents exts ! (n - 1)) = type
      then exts\<lparr>extents := (extents exts)
             [n - 1 := (extents exts ! (n - 1))
                \<lparr>ext_length := ext_length (extents exts ! (n - 1)) + len\<rparr>]\<rparr>
      else append_extent exts \<lparr>ext_offset = off, ext_length = len, ext_type = type\<rparr>)"

text \<open>Shorten extents that overlap the end of the range.\<close>

definition clip_length :: "nbdkit_extents \<Rightarrow> u64 \<Rightarrow> u64 \<Rightarrow> u64" where
  "clip_length exts off len =
     (if off + len > x_end exts then len - (off + len - x_end exts) else len)"

definition nbdkit_add_extent ::
  "nbdkit_extents \<Rightarrow> u64 \<Rightarrow> u64 \<Rightarrow> u32 \<Rightarrow> (int + unit) \<times> nbdkit_extents" where
  "nbdkit_add_extent exts off len type =
     (if 0 \<le> sint (x_next exts) \<and> x_next exts \<noteq> off then (Inl ERANGE, exts)
      else
        let exts = exts\<lparr>x_next := off + len\<rparr> in
        if len = 0 then (Inr (), exts)
        else if off \<ge> x_end exts \<or> length (extents exts) \<ge> MAX_EXTENTS then (Inr (), exts)
        else
          let len = clip_length exts off len in
          if extents exts = [] then
            if off + len \<le> x_start exts then (Inr (), exts)
            else if off > x_start exts then (Inl ERANGE, exts)
            else
              let overlap = x_start exts - off in
              (Inr (), add_or_extend exts (off + overlap) (len - overlap) type)
          else (Inr (), add_or_extend exts off len type))"

subsection \<open>Complete lists of extents: \<^verbatim>\<open>nbdkit_extents_full\<close>\<close>

text \<open>
  The layer below is a function from its state, the count, offset, flags and extents object to the
  return code, the error number, the filled-in object and the new state.
\<close>

type_synonym 'c extents_fn =
  "'c \<Rightarrow> u32 \<Rightarrow> u64 \<Rightarrow> u32 \<Rightarrow> nbdkit_extents \<Rightarrow> (int \<times> int \<times> nbdkit_extents \<times> 'c) option"

text \<open>The inner loop: copy the extents of one answer into \<open>ret\<close>, advancing offset and count.\<close>

fun extents_full_copy ::
  "nbdkit_extent list \<Rightarrow> nbdkit_extents \<Rightarrow> u64 \<Rightarrow> u32 \<Rightarrow> (int + nbdkit_extents \<times> u64 \<times> u32) option"
where
  "extents_full_copy [] ret off count = Some (Inr (ret, off, count))"
| "extents_full_copy (e # es) ret off count =
     (case nbdkit_add_extent ret (ext_offset e) (ext_length e) (ext_type e) of
        (Inl err, _) \<Rightarrow> Some (Inl err)
      | (Inr _, ret) \<Rightarrow> do {
          c_assert (ext_length e \<le> ucast count);
          extents_full_copy es ret (off + ext_length e) (count - ucast (ext_length e))
        })"

lemma extents_full_copy_count:
  "extents_full_copy es ret off count = Some (Inr (ret', off', count')) \<Longrightarrow>
     count' \<le> count \<and> off' = off + ucast (count - count')"
proof (induction es arbitrary: ret off count)
  case Nil
  then show ?case by simp
next
  case (Cons e es)
  obtain res ret1 where add: "nbdkit_add_extent ret (ext_offset e) (ext_length e) (ext_type e)
      = (res, ret1)"
    by (cases "nbdkit_add_extent ret (ext_offset e) (ext_length e) (ext_type e)") blast
  with Cons.prems obtain le: "ext_length e \<le> ucast count"
    and rec: "extents_full_copy es ret1 (off + ext_length e) (count - ucast (ext_length e))
                = Some (Inr (ret', off', count'))"
    by (cases res) simp_all
  define l where "l = (ucast (ext_length e) :: u32)"
  have ul: "unat (ext_length e) \<le> unat count"
    using le by (simp add: word_le_nat_alt unat_ucast_up)
  then have lu: "unat l = unat (ext_length e)"
    unfolding l_def by (intro unat_ucast_down) (use unat_u32_less [of count] in simp)
  then have lc: "l \<le> count" and el: "ext_length e = ucast l"
    using ul by (simp_all add: word_le_nat_alt word_unat_eq_iff unat_ucast_up)
  from Cons.IH [OF rec] have ih: "count' \<le> count - l"
      "off' = off + ext_length e + ucast (count - l - count')"
    by (simp_all add: l_def)
  have ih1: "unat count' \<le> unat count - unat l"
    using ih(1) lc by (simp add: word_le_nat_alt unat_sub)
  then have c: "count' \<le> count" by (simp add: word_le_nat_alt)
  have "unat (count - count') = unat l + unat (count - l - count')"
    using c ih(1) lc ih1 by (simp add: unat_sub word_le_nat_alt)
  then have "(ucast (count - count') :: u64) = ucast l + ucast (count - l - count')"
    by (rule ucast_up_add)
  with c ih(2) el show ?case by (simp add: add.assoc)
qed

function nbdkit_extents_full_loop ::
  "'c extents_fn \<Rightarrow> 'c \<Rightarrow> u32 \<Rightarrow> u32 \<Rightarrow> u64 \<Rightarrow> nbdkit_extents \<Rightarrow> ((int + nbdkit_extents) \<times> 'c) option"
where
  "nbdkit_extents_full_loop nx c flags count off ret =
     (if count = 0 then Some (Inr ret, c)
      else case nbdkit_extents_new off (off + ucast count) of
        Inl err \<Rightarrow> Some (Inl err, c)
      | Inr t \<Rightarrow>
          (case nx c count off flags t of
             None \<Rightarrow> None
           | Some (r, err, t, c) \<Rightarrow>
               if r = - 1 then Some (Inl err, c)
               else (case extents_full_copy (extents t) ret off count of
                       None \<Rightarrow> None
                     | Some (Inl err) \<Rightarrow> Some (Inl err, c)
                     | Some (Inr (ret, off', count')) \<Rightarrow>
                         if off' > off then nbdkit_extents_full_loop nx c flags count' off' ret
                         else None)))"
  by pat_completeness auto
termination
proof (relation "measure (\<lambda>(nx, c, flags, count, off, ret). unat count)", goal_cases)
  case 1
  then show ?case by simp
next
  case (2 nx c flags count off ret x2 a aa b ab ba ac bb x2a x2b ad bc ae bd)
  then have "bd \<le> count" "ae = off + ucast (count - bd)" "ae > off"
    using extents_full_copy_count by auto
  then have "bd \<noteq> count" by auto
  with \<open>bd \<le> count\<close> show ?case
    by (simp add: word_le_nat_alt word_unat_eq_iff)
qed

text \<open>
  \<open>err0\<close> is the caller's \<^verbatim>\<open>*err\<close>: when the very first \<^verbatim>\<open>nbdkit_extents_new\<close> fails the code jumps to
  \<^verbatim>\<open>error0\<close>, which leaves it as it was.
\<close>

definition nbdkit_extents_full ::
  "'c extents_fn \<Rightarrow> 'c \<Rightarrow> u32 \<Rightarrow> u64 \<Rightarrow> u32 \<Rightarrow> int \<Rightarrow> ((int + nbdkit_extents) \<times> 'c) option" where
  "nbdkit_extents_full nx c count off flags err0 =
     (case nbdkit_extents_new off (off + ucast count) of
        Inl _ \<Rightarrow> Some (Inl err0, c)
      | Inr ret \<Rightarrow>
          nbdkit_extents_full_loop nx c (flags AND NOT NBDKIT_FLAG_REQ_ONE) count off ret)"

subsection \<open>Aligned extents: \<^verbatim>\<open>nbdkit_extents_aligned\<close>\<close>

text \<open>
  The inner loop: merge the first extent with its successors, querying the layer below for more when
  there is none, until at least \<open>align\<close> bytes are described.  Reading \<^verbatim>\<open>extents.ptr[0]\<close> of an empty
  vector is undefined in C and \<^term>\<open>None\<close> here.
\<close>

partial_function (option) extents_aligned_merge ::
  "'c extents_fn \<Rightarrow> 'c \<Rightarrow> u64 \<Rightarrow> u32 \<Rightarrow> u32 \<Rightarrow> nbdkit_extents \<Rightarrow> ((int + nbdkit_extents) \<times> 'c) option"
where
  "extents_aligned_merge nx c off flags align exts =
     (case extents exts of
        [] \<Rightarrow> None
      | e # rest \<Rightarrow>
          if ext_length e < ucast align then
            (case rest of
               e1 # rest' \<Rightarrow>
                 extents_aligned_merge nx c off flags align
                   (exts\<lparr>extents := e\<lparr>ext_length := ext_length e + ext_length e1,
                                      ext_type := ext_type e AND ext_type e1\<rparr> # rest'\<rparr>)
             | [] \<Rightarrow>
                 (case nbdkit_extents_new (ext_offset e + ext_length e) (off + ucast align) of
                    Inl err \<Rightarrow> Some (Inl err, c)
                  | Inr extents2 \<Rightarrow>
                      (case nx c (align - ucast (ext_length e)) (off + ext_length e)
                              (flags AND NOT NBDKIT_FLAG_REQ_ONE) extents2 of
                         None \<Rightarrow> None
                       | Some (r, err, extents2, c) \<Rightarrow>
                           if r = - 1 then Some (Inl err, c)
                           else (case extents extents2 of
                                   [] \<Rightarrow> None
                                 | e2 # es2 \<Rightarrow>
                                     if ext_offset e2 = ext_offset e + ext_length e then
                                       extents_aligned_merge nx c off flags align
                                         (exts\<lparr>extents :=
                                            e2\<lparr>ext_offset := ext_offset e,
                                               ext_length := ext_length e2 + ext_length e,
                                               ext_type := ext_type e2 AND ext_type e\<rparr> # es2\<rparr>)
                                     else None))))
          else Some (Inr (exts\<lparr>extents := [e\<lparr>ext_length := ucast align\<rparr>],
                               x_next := ext_offset e + ucast align\<rparr>), c))"

definition nbdkit_extents_aligned ::
  "'c extents_fn \<Rightarrow> 'c \<Rightarrow> u32 \<Rightarrow> u64 \<Rightarrow> u32 \<Rightarrow> u32 \<Rightarrow> nbdkit_extents \<Rightarrow>
     ((int + nbdkit_extents) \<times> 'c) option" where
  "nbdkit_extents_aligned nx c count off flags align exts = do {
     aligned \<leftarrow> IS_ALIGNED (ucast count OR off) (ucast align);
     c_assert aligned;
     (r, err, exts, c) \<leftarrow> nx c count off flags exts;
     if r = - 1 then Some (Inl err, c)
     else case List.find (\<lambda>i. ext_length (extents exts ! i) AND (ucast align - 1) \<noteq> 0)
                 [0..<length (extents exts)] of
            None \<Rightarrow> Some (Inr exts, c)
          | Some i \<Rightarrow>
              let e = extents exts ! i in
              if ext_offset e + ext_length e > off + ucast align then do {
                l \<leftarrow> ROUND_DOWN (ext_length e) (ucast align);
                Some (Inr (exts\<lparr>extents := take i (extents exts)
                                   @ (if l \<noteq> 0 then [e\<lparr>ext_length := l\<rparr>] else []),
                                x_next := ext_offset e + l\<rparr>), c)
              }
              else do {
                c_assert (i = 0);
                extents_aligned_merge nx c off flags align exts
              }
   }"

subsection \<open>Meaning and invariant\<close>

text \<open>
  A list of extents starting at byte \<open>p\<close> is \<open>contiguous\<close> when each extent is non-empty and starts where
  the previous one ended; \<open>type_at\<close> is the type it gives to a byte.  \<open>status exts\<close> reads the whole
  object that way: the partial map from bytes to types the client is told.
\<close>

fun contiguous :: "nat \<Rightarrow> nbdkit_extent list \<Rightarrow> bool" where
  "contiguous p [] = True"
| "contiguous p (e # es) =
     (unat (ext_offset e) = p \<and> 0 < unat (ext_length e) \<and> contiguous (p + unat (ext_length e)) es)"

fun span :: "nbdkit_extent list \<Rightarrow> nat" where
  "span [] = 0"
| "span (e # es) = unat (ext_length e) + span es"

fun type_at :: "nat \<Rightarrow> nbdkit_extent list \<Rightarrow> nat \<Rightarrow> u32 option" where
  "type_at p [] i = None"
| "type_at p (e # es) i =
     (if p \<le> i \<and> i < p + unat (ext_length e) then Some (ext_type e)
      else type_at (p + unat (ext_length e)) es i)"

definition status :: "nbdkit_extents \<Rightarrow> nat \<Rightarrow> u32 option" where
  "status exts i = type_at (unat (x_start exts)) (extents exts) i"

definition covered :: "nbdkit_extents \<Rightarrow> nat" where
  "covered exts = unat (x_start exts) + span (extents exts)"

definition alternating :: "nbdkit_extent list \<Rightarrow> bool" where
  "alternating es = successively (\<lambda>e f. ext_type e \<noteq> ext_type f) es"

definition wf_extents :: "nbdkit_extents \<Rightarrow> bool" where
  "wf_extents exts \<longleftrightarrow>
     x_start exts \<le> x_end exts \<and> unat (x_end exts) < 2 ^ 63
     \<and> contiguous (unat (x_start exts)) (extents exts)
     \<and> covered exts \<le> unat (x_end exts)
     \<and> alternating (extents exts)
     \<and> length (extents exts) \<le> MAX_EXTENTS
     \<and> (extents exts \<noteq> [] \<and> length (extents exts) < MAX_EXTENTS \<longrightarrow>
          unat (x_next exts) < 2 ^ 63
          \<and> covered exts = min (unat (x_next exts)) (unat (x_end exts)))"

lemma span_append [simp]: "span (xs @ ys) = span xs + span ys"
  by (induction xs) auto

lemma contiguous_append [simp]:
  "contiguous p (xs @ ys) \<longleftrightarrow> contiguous p xs \<and> contiguous (p + span xs) ys"
  by (induction xs arbitrary: p) (auto simp: add.assoc)

lemma type_at_None: "i < p \<or> p + span es \<le> i \<Longrightarrow> type_at p es i = None"
  by (induction es arbitrary: p) auto

lemma type_at_Some: "p \<le> i \<Longrightarrow> i < p + span es \<Longrightarrow> \<exists>t. type_at p es i = Some t"
  by (induction es arbitrary: p) auto

lemma type_at_append:
  "type_at p (xs @ ys) i = (if i < p + span xs then type_at p xs i else type_at (p + span xs) ys i)"
  by (induction xs arbitrary: p) (auto simp: add.assoc type_at_None)

lemma alternating_append:
  "alternating (xs @ ys) \<longleftrightarrow> alternating xs \<and> alternating ys
     \<and> (xs = [] \<or> ys = [] \<or> ext_type (last xs) \<noteq> ext_type (hd ys))"
  by (auto simp: alternating_def successively_append_iff)

lemma alternating_single [simp]: "alternating [e]"
  by (simp add: alternating_def)


lemma add_or_extend_frame [simp]:
  "x_start (add_or_extend exts off len ty) = x_start exts"
  "x_end (add_or_extend exts off len ty) = x_end exts"
  "x_next (add_or_extend exts off len ty) = x_next exts"
  by (simp_all add: add_or_extend_def append_extent_def Let_def)

lemma add_or_extend_last:
  assumes "extents exts = xs @ [e]" and "ext_type e = ty"
  shows "extents (add_or_extend exts off len ty) = xs @ [e\<lparr>ext_length := ext_length e + len\<rparr>]"
  using assms by (simp add: add_or_extend_def Let_def)

lemma add_or_extend_new:
  assumes "extents exts = [] \<or> ext_type (last (extents exts)) \<noteq> ty"
  shows "extents (add_or_extend exts off len ty)
    = extents exts @ [\<lparr>ext_offset = off, ext_length = len, ext_type = ty\<rparr>]"
  using assms by (auto simp: add_or_extend_def append_extent_def Let_def last_conv_nth)

lemma add_or_extend_props:
  assumes c: "contiguous p (extents exts)" and a: "alternating (extents exts)"
    and off: "unat off = p + span (extents exts)" and len: "0 < unat len"
    and ov: "unat off + unat len < 2 ^ 64"
  shows "contiguous p (extents (add_or_extend exts off len ty))
    \<and> alternating (extents (add_or_extend exts off len ty))
    \<and> span (extents (add_or_extend exts off len ty)) = span (extents exts) + unat len
    \<and> length (extents (add_or_extend exts off len ty)) \<le> Suc (length (extents exts))
    \<and> (\<forall>i. type_at p (extents (add_or_extend exts off len ty)) i =
          (if unat off \<le> i \<and> i < unat off + unat len then Some ty else type_at p (extents exts) i))"
proof (cases "extents exts = [] \<or> ext_type (last (extents exts)) \<noteq> ty")
  case True
  then show ?thesis
    using c a off len
    by (auto simp: add_or_extend_new alternating_append type_at_append type_at_None)
next
  case False
  then obtain xs e where xe: "extents exts = xs @ [e]" and ty: "ext_type e = ty"
    by (cases "extents exts" rule: rev_cases) auto
  have off': "unat off = p + span xs + unat (ext_length e)"
    using off xe by simp
  then have l: "unat (ext_length e + len) = unat (ext_length e) + unat len"
    using ov by (intro unat_add_lem [THEN iffD1]) simp
  show ?thesis
    using c a off' len xe ty l
    by (auto simp: add_or_extend_last alternating_append type_at_append type_at_None)
qed

lemma sint_next_nonneg: "0 \<le> sint (x_next exts) \<longleftrightarrow> unat (x_next exts) < 2 ^ 63"
  by (rule sint_u64_nonneg)

lemma clip_length_unat:
  assumes "unat off + unat len < 2 ^ 63" and "unat off < unat (x_end exts)"
  shows "unat off + unat (clip_length exts off len) = min (unat off + unat len) (unat (x_end exts))"
proof -
  have ol: "unat (off + len) = unat off + unat len"
    using assms(1) by (intro unat_add_lem [THEN iffD1]) simp
  show ?thesis
  proof (cases "off + len > x_end exts")
    case True
    then have f: "unat (x_end exts) < unat off + unat len" by (simp add: word_less_nat_alt ol)
    have s: "unat (off + len - x_end exts) = unat off + unat len - unat (x_end exts)"
      using True by (simp add: unat_sub ol)
    then have "unat (len - (off + len - x_end exts)) = unat len - unat (off + len - x_end exts)"
      using f assms(2) by (intro unat_sub) (simp add: word_le_nat_alt)
    with True f s assms(2) show ?thesis by (simp only: clip_length_def if_True)
  next
    case False
    then show ?thesis by (simp add: clip_length_def word_less_nat_alt ol)
  qed
qed

lemma clip_length_next [simp]: "clip_length (exts\<lparr>x_next := n\<rparr>) off len = clip_length exts off len"
  by (simp add: clip_length_def)

definition add_spec :: "nbdkit_extents \<Rightarrow> nat \<Rightarrow> nat \<Rightarrow> u32 \<Rightarrow> nat \<Rightarrow> u32 option" where
  "add_spec exts off len ty = (\<lambda>i.
     if off \<le> i \<and> i < off + len \<and> unat (x_start exts) \<le> i \<and> i < unat (x_end exts)
     then Some ty else status exts i)"

definition step_ok :: "nbdkit_extents \<Rightarrow> u64 \<Rightarrow> u64 \<Rightarrow> u32 \<Rightarrow> (int + unit) \<times> nbdkit_extents \<Rightarrow> bool" where
  "step_ok exts off len ty res \<longleftrightarrow>
     wf_extents (snd res)
     \<and> (\<forall>e. fst res = Inl e \<longrightarrow> e = ERANGE \<and> status (snd res) = status exts)
     \<and> (fst res = Inr () \<and> length (extents exts) < MAX_EXTENTS \<longrightarrow>
          status (snd res) = add_spec exts (unat off) (unat len) ty)"

lemma step_ok_extend:
  assumes wf: "wf_extents exts" and ov: "unat off + unat len < 2 ^ 63" and len: "0 < unat len"
    and o: "unat off = covered exts" and fin: "unat off + unat len \<le> unat (x_end exts)"
    and full: "length (extents exts) < MAX_EXTENTS"
    and o0: "unat off0 \<le> unat off" "unat off = unat (x_start exts) \<or> off0 = off"
    and nx: "unat off0 + unat len0 < 2 ^ 63"
    and clip: "unat off + unat len = min (unat off0 + unat len0) (unat (x_end exts))"
  shows "step_ok exts off0 len0 ty (Inr (), add_or_extend (exts\<lparr>x_next := off0 + len0\<rparr>) off len ty)"
proof -
  let ?y = "exts\<lparr>x_next := off0 + len0\<rparr>"
  let ?z = "add_or_extend ?y off len ty"
  have n: "unat (off0 + len0) = unat off0 + unat len0"
    using nx by (intro unat_add_lem [THEN iffD1]) simp
  have p: "contiguous (unat (x_start exts)) (extents ?z)" "alternating (extents ?z)"
    "span (extents ?z) = span (extents exts) + unat len"
    "length (extents ?z) \<le> Suc (length (extents exts))"
    "type_at (unat (x_start exts)) (extents ?z) i =
      (if unat off \<le> i \<and> i < unat off + unat len then Some ty
       else type_at (unat (x_start exts)) (extents exts) i)" for i
    using add_or_extend_props [of "unat (x_start exts)" ?y off len ty] wf ov len o
    by (simp_all add: wf_extents_def covered_def)
  have cov: "covered ?z = unat off + unat len"
    using p(3) o by (simp add: covered_def)
  then have "wf_extents ?z"
    using wf p fin full n clip nx by (auto simp: wf_extents_def)
  moreover have "status ?z = add_spec exts (unat off0) (unat len0) ty"
  proof
    fix i
    have "(unat off \<le> i \<and> i < unat off + unat len) \<longleftrightarrow>
       unat off0 \<le> i \<and> i < unat off0 + unat len0 \<and> unat (x_start exts) \<le> i \<and> i < unat (x_end exts)"
      using clip o0 o by (auto simp: covered_def)
    then show "status ?z i = add_spec exts (unat off0) (unat len0) ty i"
      using p(5) [of i] by (simp add: status_def add_spec_def)
  qed
  ultimately show ?thesis by (simp add: step_ok_def)
qed

lemma step_ok_skip:
  assumes "wf_extents exts"
    and "extents exts \<noteq> [] \<Longrightarrow> length (extents exts) < MAX_EXTENTS \<Longrightarrow>
           unat nx < 2 ^ 63 \<and> covered exts = min (unat nx) (unat (x_end exts))"
    and "r = Inl ERANGE \<or> r = Inr ()"
    and "r = Inr () \<Longrightarrow> length (extents exts) < MAX_EXTENTS \<Longrightarrow>
           add_spec exts (unat off) (unat len) ty = status exts"
  shows "step_ok exts off len ty (r, exts\<lparr>x_next := nx\<rparr>)"
  using assms by (auto simp: step_ok_def wf_extents_def covered_def status_def)

lemma add_spec_id:
  "(\<And>i. \<not> (off \<le> i \<and> i < off + len \<and> unat (x_start exts) \<le> i \<and> i < unat (x_end exts))) \<Longrightarrow>
     add_spec exts off len ty = status exts"
  by (auto simp: add_spec_def fun_eq_iff)

text \<open>The cases of \<^const>\<open>nbdkit_add_extent\<close> after its checks: an empty list and a non-empty one.\<close>

definition in_sequence :: "nbdkit_extents \<Rightarrow> u64 \<Rightarrow> bool" where
  "in_sequence exts off \<longleftrightarrow> \<not> (0 \<le> sint (x_next exts) \<and> x_next exts \<noteq> off)"

lemma in_sequence_covered:
  "wf_extents exts \<Longrightarrow> in_sequence exts off \<Longrightarrow> extents exts \<noteq> [] \<Longrightarrow>
     length (extents exts) < MAX_EXTENTS \<Longrightarrow>
     x_next exts = off \<and> covered exts = min (unat off) (unat (x_end exts))"
  by (auto simp: wf_extents_def in_sequence_def sint_u64_nonneg)

lemma add_first_extent_ok:
  assumes wf: "wf_extents exts" and ov: "unat off + unat len < 2 ^ 63"
    and seq: "in_sequence exts off" and len: "len \<noteq> 0" and off: "off < x_end exts"
    and full: "length (extents exts) < MAX_EXTENTS" and nil: "extents exts = []"
  shows "step_ok exts off len ty (nbdkit_add_extent exts off len ty)"
proof -
  define L where "L = clip_length exts off len"
  let ?ov = "x_start exts - off"
  have clip: "unat off + unat L = min (unat off + unat len) (unat (x_end exts))"
    unfolding L_def using ov off by (intro clip_length_unat) (simp_all add: word_less_nat_alt)
  have oL: "unat (off + L) = unat off + unat L"
    using clip ov by (intro unat_add_lem [THEN iffD1]) simp
  note code = nbdkit_add_extent_def [of exts off len ty] in_sequence_def [of exts off] Let_def
  consider (before) "off + L \<le> x_start exts"
    | (after) "\<not> off + L \<le> x_start exts" "off > x_start exts"
    | (over) "\<not> off + L \<le> x_start exts" "off \<le> x_start exts"
    by force
  then show ?thesis
  proof cases
    case before
    then have "unat off + unat L \<le> unat (x_start exts)" by (simp add: word_le_nat_alt oL)
    moreover have "nbdkit_add_extent exts off len ty = (Inr (), exts\<lparr>x_next := off + len\<rparr>)"
      using seq len off full nil before by (simp add: code flip: L_def)
    ultimately show ?thesis
      using nil wf clip by (auto intro!: step_ok_skip add_spec_id)
  next
    case after
    then have "nbdkit_add_extent exts off len ty = (Inl ERANGE, exts\<lparr>x_next := off + len\<rparr>)"
      using seq len off full nil by (auto simp: code simp flip: L_def)
    then show ?thesis using nil wf by (auto intro!: step_ok_skip)
  next
    case over
    have s: "unat off \<le> unat (x_start exts)" "unat (x_start exts) < unat off + unat L"
      using over oL by (simp_all add: word_le_nat_alt)
    have u1: "unat ?ov = unat (x_start exts) - unat off"
      using over by (simp add: unat_sub)
    have u2: "unat (L - ?ov) = unat L - unat ?ov"
      using s u1 by (intro unat_sub) (simp add: word_le_nat_alt)
    have "nbdkit_add_extent exts off len ty
        = (Inr (), add_or_extend (exts\<lparr>x_next := off + len\<rparr>) (x_start exts) (L - ?ov) ty)"
      using seq len off full nil over by (auto simp: code not_less simp flip: L_def)
    moreover have "step_ok exts off len ty \<dots>"
      using wf full s u1 u2 clip ov nil by (intro step_ok_extend) (auto simp: covered_def)
    ultimately show ?thesis by simp
  qed
qed

lemma add_next_extent_ok:
  assumes wf: "wf_extents exts" and ov: "unat off + unat len < 2 ^ 63"
    and seq: "in_sequence exts off" and len: "len \<noteq> 0" and off: "off < x_end exts"
    and full: "length (extents exts) < MAX_EXTENTS" and ne: "extents exts \<noteq> []"
  shows "step_ok exts off len ty (nbdkit_add_extent exts off len ty)"
proof -
  define L where "L = clip_length exts off len"
  have lt: "unat off < unat (x_end exts)" using off by (simp add: word_less_nat_alt)
  have l0: "0 < unat len" using len by (simp add: unat_gt_0)
  have clip: "unat off + unat L = min (unat off + unat len) (unat (x_end exts))"
    unfolding L_def using ov lt by (rule clip_length_unat)
  have "nbdkit_add_extent exts off len ty
      = (Inr (), add_or_extend (exts\<lparr>x_next := off + len\<rparr>) off L ty)"
    using seq len off full ne by (simp add: nbdkit_add_extent_def in_sequence_def Let_def flip: L_def)
  moreover have "step_ok exts off len ty \<dots>"
    using wf full lt clip ov l0 in_sequence_covered [OF wf seq ne full]
    by (intro step_ok_extend) auto
  ultimately show ?thesis by simp
qed

lemma nbdkit_add_extent_ok:
  assumes wf: "wf_extents exts" and ov: "unat off + unat len < 2 ^ 63"
  shows "step_ok exts off len ty (nbdkit_add_extent exts off len ty)"
proof -
  have n: "unat (off + len) = unat off + unat len"
    using ov by (intro unat_add_lem [THEN iffD1]) simp
  consider (order) "\<not> in_sequence exts off"
    | (skip) "in_sequence exts off"
        "len = 0 \<or> off \<ge> x_end exts \<or> length (extents exts) \<ge> MAX_EXTENTS"
    | (add) "in_sequence exts off" "len \<noteq> 0" "off < x_end exts"
        "length (extents exts) < MAX_EXTENTS"
    by force
  then show ?thesis
  proof cases
    case order
    then show ?thesis
      using wf by (simp add: nbdkit_add_extent_def in_sequence_def step_ok_def)
  next
    case skip
    then have "nbdkit_add_extent exts off len ty = (Inr (), exts\<lparr>x_next := off + len\<rparr>)"
      by (auto simp: nbdkit_add_extent_def in_sequence_def Let_def)
    moreover have "step_ok exts off len ty (Inr (), exts\<lparr>x_next := off + len\<rparr>)"
      using skip n ov wf in_sequence_covered [OF wf skip(1)]
      by (intro step_ok_skip add_spec_id) (auto simp: word_le_nat_alt)
    ultimately show ?thesis by simp
  next
    case add
    then show ?thesis
      using wf ov add_first_extent_ok add_next_extent_ok by blast
  qed
qed

lemma nbdkit_extents_new_wf:
  "nbdkit_extents_new start fin = Inr exts \<Longrightarrow>
     wf_extents exts \<and> extents exts = [] \<and> x_start exts = start \<and> x_end exts = fin"
  by (auto simp: nbdkit_extents_new_def wf_extents_def covered_def alternating_def word_le_nat_alt
      word_less_nat_alt not_less split: if_splits)

lemma nbdkit_add_extent_frame:
  "nbdkit_add_extent exts off len ty = (r, exts') \<Longrightarrow>
     x_start exts' = x_start exts \<and> x_end exts' = x_end exts
     \<and> (in_sequence exts off \<longrightarrow> x_next exts' = off + len)
     \<and> (in_sequence exts off \<and> (extents exts = [] \<longrightarrow> off \<le> x_start exts) \<longrightarrow> r = Inr ())
     \<and> (length (extents exts) \<ge> MAX_EXTENTS \<longrightarrow> extents exts' = extents exts)"
  by (auto simp: nbdkit_add_extent_def in_sequence_def Let_def split: if_splits)

definition short_extents :: "nbdkit_extents \<Rightarrow> bool" where
  "short_extents exts \<longleftrightarrow> (\<forall>e \<in> set (extents exts). ext_length e \<le> 0xffffffff)"

lemma nbdkit_add_extent_short:
  assumes "nbdkit_add_extent exts off len ty = (r, exts')" and "extents exts = []" and "x_start exts = off"
    and "unat len < 2 ^ 32" and "unat off + unat len \<le> unat (x_end exts)"
  shows "short_extents exts'"
proof -
  have "unat (off + len) = unat off + unat len" using assms(5) unsigned_less [of "x_end exts", where 'a = nat] by (simp add: unat_word_ariths)
  then have "clip_length (exts\<lparr>x_next := off + len\<rparr>) off len = len"
    using assms(5) by (simp add: clip_length_def word_less_nat_alt)
  with assms show ?thesis
    by (auto simp: short_extents_def nbdkit_add_extent_def add_or_extend_def append_extent_def Let_def
        word_le_nat_alt split: if_splits)
qed

locale extents_source =
  fixes nx :: "'c extents_fn"
    and inv :: "'c \<Rightarrow> bool"
    and limit :: nat
    and truth :: "nat \<Rightarrow> u32"
  assumes limit: "inv c \<Longrightarrow> limit < 2 ^ 63"
    and answers: "inv c \<Longrightarrow> 0 < unat count \<Longrightarrow> unat off + unat count \<le> limit \<Longrightarrow>
      wf_extents t \<Longrightarrow> extents t = [] \<Longrightarrow> x_start t = off \<Longrightarrow> unat off + unat count \<le> unat (x_end t) \<Longrightarrow>
      unat (x_end t) \<le> limit \<Longrightarrow> x_next t = - 1 \<Longrightarrow> flags AND NOT NBDKIT_FLAG_REQ_ONE = 0 \<Longrightarrow>
      \<exists>r err t' c'. nx c count off flags t = Some (r, err, t', c') \<and> r \<noteq> - 1 \<and> inv c'
        \<and> wf_extents t' \<and> x_start t' = off \<and> x_end t' = x_end t \<and> extents t' \<noteq> []
        \<and> (\<forall>i ty. status t' i = Some ty \<longrightarrow> ty = truth i)"
begin

definition filled :: "nbdkit_extents \<Rightarrow> nat \<Rightarrow> bool" where
  "filled ret p \<longleftrightarrow> wf_extents ret \<and> unat (x_start ret) \<le> p \<and> p \<le> unat (x_end ret)
     \<and> (unat (x_next ret) = p \<or> x_next ret = - 1 \<and> p = unat (x_start ret))
     \<and> (extents ret = [] \<longrightarrow> p = unat (x_start ret))
     \<and> (length (extents ret) = MAX_EXTENTS
        \<or> (\<forall>i. unat (x_start ret) \<le> i \<and> i < p \<longrightarrow> status ret i = Some (truth i)))"

lemma filled_step:
  assumes f: "filled ret p" and off: "unat off = p" and len: "0 < unat len"
    and fin: "p + unat len \<le> unat (x_end ret)"
    and tr: "\<And>i. p \<le> i \<Longrightarrow> i < p + unat len \<Longrightarrow> truth i = ty"
  shows "\<exists>ret'. nbdkit_add_extent ret off len ty = (Inr (), ret') \<and> filled ret' (p + unat len)
           \<and> x_start ret' = x_start ret \<and> x_end ret' = x_end ret"
proof -
  obtain r ret' where add: "nbdkit_add_extent ret off len ty = (r, ret')" by force
  have wf: "wf_extents ret" and fin63: "unat (x_end ret) < 2 ^ 63"
    using f by (auto simp: filled_def wf_extents_def)
  have seq: "in_sequence ret off"
    using f off word_unat_eq_iff [of "x_next ret" off] by (auto simp: filled_def in_sequence_def)
  have st: "extents ret = [] \<longrightarrow> off \<le> x_start ret"
    using f off by (auto simp: filled_def word_le_nat_alt)
  have fr: "r = Inr ()" "x_start ret' = x_start ret" "x_end ret' = x_end ret"
    "x_next ret' = off + len" "length (extents ret) \<ge> MAX_EXTENTS \<longrightarrow> extents ret' = extents ret"
    using nbdkit_add_extent_frame [OF add] seq st by simp_all
  have ok: "step_ok ret off len ty (Inr (), ret')"
    using nbdkit_add_extent_ok [OF wf, of off len ty] off fin fin63 add fr(1) by simp
  have nxt: "unat (x_next ret') = p + unat len"
    using fr(4) off fin fin63 by (simp add: unat_word_ariths)
  have "filled ret' (p + unat len)"
  proof (cases "length (extents ret) \<ge> MAX_EXTENTS")
    case True
    with ok fr nxt f fin show ?thesis by (auto simp: filled_def step_ok_def wf_extents_def)
  next
    case False
    then have sp: "status ret' = add_spec ret p (unat len) ty"
      using ok off by (simp add: step_ok_def)
    have "status ret' p = Some ty"
      using f len fin by (simp add: sp add_spec_def filled_def)
    then have "extents ret' \<noteq> []" by (auto simp: status_def)
    moreover have "status ret' i = Some (truth i)"
      if "unat (x_start ret) \<le> i" "i < p + unat len" for i
      using that f False fin tr [of i] by (auto simp: sp add_spec_def filled_def)
    ultimately show ?thesis using ok fr nxt f fin by (auto simp: filled_def step_ok_def)
  qed
  with add fr show ?thesis by blast
qed

lemma extents_full_copy_filled:
  "filled ret p \<Longrightarrow> unat off = p \<Longrightarrow> contiguous p es \<Longrightarrow> span es \<le> unat count \<Longrightarrow>
     p + unat count = unat (x_end ret) \<Longrightarrow>
     (\<And>i ty. type_at p es i = Some ty \<Longrightarrow> ty = truth i) \<Longrightarrow>
     \<exists>ret' off' count'. extents_full_copy es ret off count = Some (Inr (ret', off', count'))
       \<and> filled ret' (p + span es) \<and> unat off' = p + span es \<and> unat count' = unat count - span es
       \<and> x_start ret' = x_start ret \<and> x_end ret' = x_end ret"
proof (induction es arbitrary: ret p off count)
  case Nil
  then show ?case by simp
next
  case (Cons e es)
  let ?l = "unat (ext_length e)"
  have e: "unat (ext_offset e) = p" "0 < ?l" "contiguous (p + ?l) es" "?l + span es \<le> unat count"
    using Cons.prems(3,4) by auto
  have "truth i = ext_type e" if "p \<le> i" "i < p + ?l" for i
    using Cons.prems(6) [of i "ext_type e"] that by simp
  then obtain ret1 where r1: "nbdkit_add_extent ret (ext_offset e) (ext_length e) (ext_type e) = (Inr (), ret1)"
      "filled ret1 (p + ?l)" "x_start ret1 = x_start ret" "x_end ret1 = x_end ret"
    using filled_step [OF Cons.prems(1) e(1) e(2), of "ext_type e"] Cons.prems(5) e(4) by auto
  have l32: "unat (ucast (ext_length e) :: u32) = ?l"
    by (rule unat_ucast_down) (use e(4) unat_u32_less [of count] in simp)
  have le: "ext_length e \<le> ucast count"
    using e(4) by (simp add: word_le_nat_alt unat_ucast_up)
  have fin63: "unat (x_end ret) < 2 ^ 63"
    using Cons.prems(1) by (auto simp: filled_def wf_extents_def)
  have off1: "unat (off + ext_length e) = p + ?l"
    using Cons.prems(2,5) e(4) fin63 by (simp add: unat_word_ariths)
  have cnt1: "unat (count - ucast (ext_length e)) = unat count - ?l"
    using e(4) l32 by (simp add: unat_sub word_le_nat_alt)
  have "ty = truth i" if "type_at (p + ?l) es i = Some ty" for i ty
  proof -
    have "\<not> (p \<le> i \<and> i < p + ?l)" using that type_at_None [of i "p + ?l" es] by force
    with that Cons.prems(6) [of i ty] show ?thesis by simp
  qed
  then show ?case
    using Cons.IH [OF r1(2) off1 e(3), of "count - ucast (ext_length e)"] r1 le cnt1 e(4) Cons.prems(5)
    by (auto simp: add.assoc)
qed

lemma nbdkit_extents_full_loop_filled:
  assumes flags: "flags AND NOT NBDKIT_FLAG_REQ_ONE = 0"
  shows "inv c \<Longrightarrow> filled ret (unat off) \<Longrightarrow> unat off + unat count = unat (x_end ret) \<Longrightarrow>
     unat (x_end ret) \<le> limit \<Longrightarrow>
     \<exists>ret' c'. nbdkit_extents_full_loop nx c flags count off ret = Some (Inr ret', c')
       \<and> filled ret' (unat (x_end ret)) \<and> x_start ret' = x_start ret \<and> x_end ret' = x_end ret \<and> inv c'"
proof (induction "unat count" arbitrary: c count off ret rule: less_induct)
  case less
  show ?case
  proof (cases "count = 0")
    case True
    with less.prems show ?thesis by (simp add: nbdkit_extents_full_loop.simps [of nx c flags])
  next
    case False
    then have pos: "0 < unat count" by (simp add: unat_gt_0)
    have fin: "unat (off + ucast count) = unat (x_end ret)"
      using less.prems(3,4) limit [OF less.prems(1)] by (simp add: unat_word_ariths unat_ucast_up)
    obtain t where t: "nbdkit_extents_new off (off + ucast count) = Inr t"
      using fin less.prems(3,4) limit [OF less.prems(1)]
      by (auto simp: nbdkit_extents_new_def word_less_nat_alt)
    note tw = nbdkit_extents_new_wf [OF t]
    have tn: "x_next t = - 1" using t by (auto simp: nbdkit_extents_new_def split: if_splits)
    obtain r err t' c' where a: "nx c count off flags t = Some (r, err, t', c')" "r \<noteq> - 1" "inv c'"
        "wf_extents t'" "x_start t' = off" "x_end t' = x_end t" "extents t' \<noteq> []"
        "\<And>i ty. status t' i = Some ty \<Longrightarrow> ty = truth i"
      using flags answers [OF less.prems(1) pos, of off t flags] tw tn fin less.prems(3,4) by auto
    have sp: "contiguous (unat off) (extents t')" "span (extents t') \<le> unat count"
      using a(4-6) tw fin less.prems(3) by (auto simp: wf_extents_def covered_def)
    have spos: "0 < span (extents t')"
      using a(7) sp(1) by (cases "extents t'") auto
    obtain ret' off' count' where cp:
        "extents_full_copy (extents t') ret off count = Some (Inr (ret', off', count'))"
        "filled ret' (unat off + span (extents t'))" "unat off' = unat off + span (extents t')"
        "unat count' = unat count - span (extents t')"
        "x_start ret' = x_start ret" "x_end ret' = x_end ret"
      using extents_full_copy_filled [OF less.prems(2) refl sp less.prems(3)] a(5,8)
      by (auto simp: status_def)
    have "off' > off" using cp(3) spos by (simp add: word_less_nat_alt)
    then have "nbdkit_extents_full_loop nx c flags count off ret
        = nbdkit_extents_full_loop nx c' flags count' off' ret'"
      using False t a(1,2) cp(1) by (subst nbdkit_extents_full_loop.simps) simp
    moreover have "\<exists>ret'' c''. nbdkit_extents_full_loop nx c' flags count' off' ret' = Some (Inr ret'', c'')
       \<and> filled ret'' (unat (x_end ret')) \<and> x_start ret'' = x_start ret' \<and> x_end ret'' = x_end ret' \<and> inv c''"
      using cp a(3) spos sp(2) less.prems(3,4) by (intro less.hyps) auto
    ultimately show ?thesis using cp(5,6) by simp
  qed
qed

lemma nbdkit_extents_full_complete:
  assumes "inv c" and "0 < unat count" and "unat off + unat count \<le> limit"
    and "flags AND NOT NBDKIT_FLAG_REQ_ONE = 0"
  shows "\<exists>ret c'. nbdkit_extents_full nx c count off flags err0 = Some (Inr ret, c') \<and> inv c'
     \<and> wf_extents ret \<and> x_start ret = off
     \<and> (length (extents ret) = MAX_EXTENTS
        \<or> (\<forall>i. unat off \<le> i \<and> i < unat off + unat count \<longrightarrow> status ret i = Some (truth i)))"
proof -
  have fin: "unat (off + ucast count) = unat off + unat count"
    using assms(3) limit [OF assms(1)] by (simp add: unat_word_ariths unat_ucast_up)
  obtain ret where ret: "nbdkit_extents_new off (off + ucast count) = Inr ret"
    using fin assms(3) limit [OF assms(1)] by (auto simp: nbdkit_extents_new_def word_less_nat_alt)
  note rw = nbdkit_extents_new_wf [OF ret]
  have rn: "x_next ret = - 1" using ret by (auto simp: nbdkit_extents_new_def split: if_splits)
  have "filled ret (unat off)"
    using rw rn fin by (auto simp: filled_def)
  moreover have "(flags AND NOT NBDKIT_FLAG_REQ_ONE) AND NOT NBDKIT_FLAG_REQ_ONE = 0"
    using assms(4) by simp
  note nbdkit_extents_full_loop_filled [OF this assms(1), of ret off count]
  ultimately
  obtain ret' c' where loop: "nbdkit_extents_full_loop nx c (flags AND NOT NBDKIT_FLAG_REQ_ONE) count off ret
        = Some (Inr ret', c')" "filled ret' (unat off + unat count)" "x_start ret' = off" "inv c'"
    using rw fin assms(3) by auto
  then have "nbdkit_extents_full nx c count off flags err0 = Some (Inr ret', c')"
    by (simp add: nbdkit_extents_full_def ret)
  with loop(2-4) show ?thesis by (auto simp: filled_def)
qed

end

subsection \<open>Properties\<close>

text \<open>C8: Adding an extent implements overriding an interval of the block status.  The invariant
  (contiguous, non-empty, alternating extents inside the range) is kept, the range is unchanged; a
  failed call reports \<open>ERANGE\<close> and leaves the recorded status as it was; a successful one, while
  the list is below its maximum, gives exactly the bytes of the new extent that lie in the range the
  new type and leaves every other byte alone.\<close>

theorem nbdkit_add_extent_refines:
  assumes "wf_extents exts" and "unat off + unat len < 2 ^ 63"
    and "nbdkit_add_extent exts off len ty = (r, exts')"
  shows "wf_extents exts' \<and> x_start exts' = x_start exts \<and> x_end exts' = x_end exts
    \<and> (case r of
         Inl e \<Rightarrow> e = ERANGE \<and> status exts' = status exts
       | Inr _ \<Rightarrow> length (extents exts) < MAX_EXTENTS \<longrightarrow>
           status exts' = (\<lambda>i. if unat off \<le> i \<and> i < unat off + unat len
                                \<and> unat (x_start exts) \<le> i \<and> i < unat (x_end exts)
                               then Some ty else status exts i))"
  using nbdkit_add_extent_ok [OF assms(1,2), of ty] nbdkit_add_extent_frame [OF assms(3)] assms(3)
  by (auto simp: step_ok_def add_spec_def split: sum.splits)

theorem nbdkit_add_extent_refines_witness:
  "\<exists>exts exts'. nbdkit_extents_new 10 100 = Inr exts \<and> nbdkit_add_extent exts 4 20 3 = (Inr (), exts')
     \<and> wf_extents exts' \<and> status exts' 23 = Some 3 \<and> status exts' 9 = None"
proof -
  obtain exts where e: "nbdkit_extents_new 10 100 = Inr exts" by (simp add: nbdkit_extents_new_def)
  then have x: "exts = \<lparr>extents = [], x_start = 10, x_end = 100, x_next = - 1\<rparr>"
    by (simp add: nbdkit_extents_new_def)
  obtain exts' where a: "nbdkit_add_extent exts 4 20 3 = (Inr (), exts')"
    by (simp add: x nbdkit_add_extent_def clip_length_def Let_def)
  have "wf_extents exts" using nbdkit_extents_new_wf [OF e] by simp
  moreover have "status exts 9 = None" by (simp add: x status_def)
  ultimately show ?thesis using nbdkit_add_extent_refines [OF _ _ a] e a x by auto
qed

end
