(* ===== verification/Exports.thy ===== *)
theory Exports
  imports Prelude
begin

text \<open>
  Lists of exports, \<^verbatim>\<open>src/server/exports.c\<close>: what a plugin or filter fills to answer a client's
  question for the names it can open.  The list is capped, and so are the strings in it; memory
  allocation succeeds.
\<close>

abbreviation (input) NBD_MAX_STRING :: nat where "NBD_MAX_STRING \<equiv> 4096"
abbreviation (input) MAX_EXPORTS :: nat where "MAX_EXPORTS \<equiv> 10000"

record nbdkit_export =
  e_name :: cstring
  e_description :: "cstring option"

record nbdkit_exports =
  exps_list :: "nbdkit_export list"
  use_default :: bool

definition nbdkit_exports_new :: nbdkit_exports where
  "nbdkit_exports_new = \<lparr>exps_list = [], use_default = False\<rparr>"

definition nbdkit_exports_count :: "nbdkit_exports \<Rightarrow> nat" where
  "nbdkit_exports_count exps = length (exps_list exps)"

definition nbdkit_get_export :: "nbdkit_exports \<Rightarrow> nat \<Rightarrow> nbdkit_export option" where
  "nbdkit_get_export exps i = do {
     c_assert (i < length (exps_list exps));
     Some (exps_list exps ! i)
   }"

definition nbdkit_add_export :: "nbdkit_exports \<Rightarrow> cstring \<Rightarrow> cstring option \<Rightarrow> int \<times> nbdkit_exports" where
  "nbdkit_add_export exps name description =
     (if length (exps_list exps) = MAX_EXPORTS then (- 1, exps)
      else if length name > NBD_MAX_STRING
        \<or> (case description of None \<Rightarrow> False | Some d \<Rightarrow> length d > NBD_MAX_STRING) then (- 1, exps)
      else (0, exps\<lparr>exps_list := exps_list exps @ [\<lparr>e_name = name, e_description = description\<rparr>]\<rparr>))"

definition nbdkit_use_default_export :: "nbdkit_exports \<Rightarrow> int \<times> nbdkit_exports" where
  "nbdkit_use_default_export exps = (0, exps\<lparr>use_default := True\<rparr>)"

subsection \<open>The caps hold\<close>

text \<open>Every list within the limits: at most \<^term>\<open>MAX_EXPORTS\<close> entries, no string too long.\<close>

definition exports_capped :: "nbdkit_exports \<Rightarrow> bool" where
  "exports_capped exps \<longleftrightarrow> length (exps_list exps) \<le> MAX_EXPORTS
     \<and> (\<forall>e \<in> set (exps_list exps). length (e_name e) \<le> NBD_MAX_STRING
          \<and> (case e_description e of None \<Rightarrow> True | Some d \<Rightarrow> length d \<le> NBD_MAX_STRING))"

lemma exports_capped_new [simp]: "exports_capped nbdkit_exports_new"
  by (simp add: exports_capped_def nbdkit_exports_new_def)

lemma exports_capped_default [simp]: "exports_capped (exps\<lparr>use_default := d\<rparr>) = exports_capped exps"
  by (simp add: exports_capped_def)

lemma nbdkit_add_export_capped:
  "exports_capped exps \<Longrightarrow> nbdkit_add_export exps name d = (r, exps') \<Longrightarrow> exports_capped exps'"
  by (auto simp: exports_capped_def nbdkit_add_export_def split: if_splits option.splits)

text \<open>C32: Whatever a plugin adds, in any order, an exports list never exceeds the limits that the protocol
  sets: ten thousand entries, and names and descriptions of at most 4096 bytes.\<close>

theorem exports_always_capped:
  "exports_capped (foldl (\<lambda>exps (name, description). snd (nbdkit_add_export exps name description)) nbdkit_exports_new es)"
proof (induction es rule: rev_induct)
  case Nil
  show ?case by simp
next
  case (snoc e es)
  then show ?case
    by (cases e) (auto intro: nbdkit_add_export_capped [OF _ surjective_pairing])
qed

end
