(* ===== verification/Backend.thy ===== *)
theory Backend
  imports Extents Exports
begin

text \<open>
  The backend layer of \<^verbatim>\<open>src/server/backend.c\<close>: the wrappers through which the protocol code and
  every filter call the layer below.  They check the state of the context, validate ranges and flags
  with assertions, cache the answers of the \<open>can_*\<close> callbacks, and emulate zeroing and caching.

  \<open>'s ctx\<close> is \<^verbatim>\<open>struct context\<close> of \<^verbatim>\<open>src/server/internal.h\<close>: the cached answers, with \<open>- 1\<close>
  for an answer not asked for yet, and \<open>inner\<close>, everything the callbacks of the layer work on.  The
  latter is a \<open>world\<close>: the export name of the connection, the thread's \<^verbatim>\<open>nbdkit_set_error\<close> value and C's \<^verbatim>\<open>errno\<close>, with the private
  state of the plugin (or of the filter and the layers below it).

  The callbacks of \<^verbatim>\<open>struct backend\<close> are the fields of two records, \<open>backend_caps\<close> and its
  extension \<open>backend\<close>, so that an implementation of the second may call the wrappers of the first, as
  \<^verbatim>\<open>src/server/plugins.c\<close> does.  C's \<^verbatim>\<open>int *err\<close> is an argument and a component of the result.
\<close>

subsection \<open>Constants\<close>

abbreviation (input) NBDKIT_FLAG_MAY_TRIM :: u32 where "NBDKIT_FLAG_MAY_TRIM \<equiv> 1"
abbreviation (input) NBDKIT_FLAG_FUA :: u32 where "NBDKIT_FLAG_FUA \<equiv> 2"
abbreviation (input) NBDKIT_FLAG_FAST_ZERO :: u32 where "NBDKIT_FLAG_FAST_ZERO \<equiv> 8"

abbreviation (input) NBDKIT_FUA_NONE :: int where "NBDKIT_FUA_NONE \<equiv> 0"
abbreviation (input) NBDKIT_FUA_EMULATE :: int where "NBDKIT_FUA_EMULATE \<equiv> 1"
abbreviation (input) NBDKIT_FUA_NATIVE :: int where "NBDKIT_FUA_NATIVE \<equiv> 2"
abbreviation (input) NBDKIT_ZERO_NONE :: int where "NBDKIT_ZERO_NONE \<equiv> 0"
abbreviation (input) NBDKIT_ZERO_EMULATE :: int where "NBDKIT_ZERO_EMULATE \<equiv> 1"
abbreviation (input) NBDKIT_ZERO_NATIVE :: int where "NBDKIT_ZERO_NATIVE \<equiv> 2"
abbreviation (input) NBDKIT_CACHE_NONE :: int where "NBDKIT_CACHE_NONE \<equiv> 0"
abbreviation (input) NBDKIT_CACHE_EMULATE :: int where "NBDKIT_CACHE_EMULATE \<equiv> 1"
abbreviation (input) NBDKIT_CACHE_NATIVE :: int where "NBDKIT_CACHE_NATIVE \<equiv> 2"

abbreviation (input) NBDKIT_EXTENT_HOLE :: u32 where "NBDKIT_EXTENT_HOLE \<equiv> 1"
abbreviation (input) NBDKIT_EXTENT_ZERO :: u32 where "NBDKIT_EXTENT_ZERO \<equiv> 2"

abbreviation (input) HANDLE_OPEN :: u8 where "HANDLE_OPEN \<equiv> 1"
abbreviation (input) HANDLE_CONNECTED :: u8 where "HANDLE_CONNECTED \<equiv> 2"
abbreviation (input) HANDLE_FAILED :: u8 where "HANDLE_FAILED \<equiv> 4"

abbreviation (input) MAX_REQUEST_SIZE :: u32 where "MAX_REQUEST_SIZE \<equiv> 0x4000000"

subsection \<open>Contexts and callbacks\<close>

record 's world =
  conn_exportname :: "cstring option"   \<comment> \<open>\<^verbatim>\<open>conn->exportname\<close>\<close>
  tl_errno :: int   \<comment> \<open>the thread's value set by \<^verbatim>\<open>nbdkit_set_error\<close>\<close>
  c_errno :: int    \<comment> \<open>C's \<^verbatim>\<open>errno\<close>\<close>
  priv :: 's

record 's ctx =
  handle :: bool    \<comment> \<open>\<^verbatim>\<open>c->handle != NULL\<close>\<close>
  c_state :: u8
  exportsize :: u64
  minimum_block_size :: u32
  preferred_block_size :: u32
  maximum_block_size :: u32
  c_can_write :: int
  c_can_flush :: int
  c_is_rotational :: int
  c_can_trim :: int
  c_can_zero :: int
  c_can_fast_zero :: int
  c_can_fua :: int
  c_can_multi_conn :: int
  c_can_extents :: int
  c_can_cache :: int
  inner :: "'s world"

type_synonym 's query = "'s ctx \<Rightarrow> (int \<times> 's ctx) option"
type_synonym 's io = "'s ctx \<Rightarrow> u32 \<Rightarrow> u64 \<Rightarrow> u32 \<Rightarrow> int \<Rightarrow> (int \<times> int \<times> 's ctx) option"

record 's backend_caps =
  b_open :: "'s ctx \<Rightarrow> bool \<Rightarrow> cstring \<Rightarrow> bool \<Rightarrow> (bool \<times> 's ctx) option"
  b_prepare :: "'s ctx \<Rightarrow> bool \<Rightarrow> (int \<times> 's ctx) option"
  b_finalize :: "'s query"
  b_close :: "'s ctx \<Rightarrow> 's world option"
  b_list_exports :: "bool \<Rightarrow> bool \<Rightarrow> nbdkit_exports \<Rightarrow> 's world \<Rightarrow>
    (int \<times> nbdkit_exports \<times> 's world) option"
  b_default_export :: "bool \<Rightarrow> bool \<Rightarrow> 's world \<Rightarrow> (cstring option \<times> 's world) option"
  b_export_description :: "'s ctx \<Rightarrow> (cstring option \<times> 's ctx) option"
  b_get_size :: "'s ctx \<Rightarrow> (u64 \<times> 's ctx) option"
  b_block_size :: "'s ctx \<Rightarrow> (int \<times> (u32 \<times> u32 \<times> u32) \<times> 's ctx) option"
  b_can_write :: "'s query"
  b_can_flush :: "'s query"
  b_is_rotational :: "'s query"
  b_can_trim :: "'s query"
  b_can_zero :: "'s query"
  b_can_extents :: "'s query"
  b_can_fua :: "'s query"
  b_can_multi_conn :: "'s query"
  b_can_cache :: "'s query"

record 's backend = "'s backend_caps" +
  b_can_fast_zero :: "'s query"
  b_pread :: "'s ctx \<Rightarrow> u32 \<Rightarrow> u64 \<Rightarrow> u32 \<Rightarrow> int \<Rightarrow> (int \<times> u8 list \<times> int \<times> 's ctx) option"
  b_pwrite :: "'s ctx \<Rightarrow> u8 list \<Rightarrow> u32 \<Rightarrow> u64 \<Rightarrow> u32 \<Rightarrow> int \<Rightarrow> (int \<times> int \<times> 's ctx) option"
  b_flush :: "'s ctx \<Rightarrow> u32 \<Rightarrow> int \<Rightarrow> (int \<times> int \<times> 's ctx) option"
  b_trim :: "'s io"
  b_zero :: "'s io"
  b_extents :: "'s ctx \<Rightarrow> u32 \<Rightarrow> u64 \<Rightarrow> u32 \<Rightarrow> nbdkit_extents \<Rightarrow> int \<Rightarrow>
    (int \<times> int \<times> nbdkit_extents \<times> 's ctx) option"
  b_cache :: "'s io"

definition connected :: "'s ctx \<Rightarrow> bool" where
  "connected c \<longleftrightarrow> handle c \<and> has (c_state c) HANDLE_CONNECTED"

subsection \<open>Opening and closing\<close>

text \<open>
  The export name \<^verbatim>\<open>""\<close> is replaced by the backend's default export, remembered in
  \<open>cached\<close> (\<^verbatim>\<open>conn->default_exportname[b->i]\<close>); \<open>top_null\<close> is \<^verbatim>\<open>conn->top_context == NULL\<close>.
\<close>

definition backend_default_export ::
  "('s, 'x) backend_caps_scheme \<Rightarrow> bool \<Rightarrow> bool \<Rightarrow> bool \<Rightarrow> cstring option \<Rightarrow> 's world \<Rightarrow>
     (cstring option \<times> cstring option \<times> 's world) option" where
  "backend_default_export b readonly using_tls top_null cached w =
     (case cached of
        Some s \<Rightarrow> Some (Some s, cached, w)
      | None \<Rightarrow> do {
          c_assert top_null;
          (s, w) \<leftarrow> b_default_export b readonly using_tls w;
          let s = (case s of None \<Rightarrow> None
                   | Some s \<Rightarrow> if length s > NBD_MAX_STRING then None else Some s);
          Some (s, s, w)
        })"

text \<open>\<^verbatim>\<open>exports_resolve_default\<close> of \<^verbatim>\<open>src/server/exports.c\<close>.\<close>

definition exports_resolve_default ::
  "('s, 'x) backend_caps_scheme \<Rightarrow> bool \<Rightarrow> bool \<Rightarrow> bool \<Rightarrow> cstring option \<Rightarrow> nbdkit_exports \<Rightarrow> 's world \<Rightarrow>
     (int \<times> nbdkit_exports \<times> cstring option \<times> 's world) option" where
  "exports_resolve_default b readonly using_tls top_null cached exps w =
     (if use_default exps then do {
        (def, cached, w) \<leftarrow> backend_default_export b readonly using_tls top_null cached w;
        let exps = exps\<lparr>use_default := False\<rparr>;
        (case def of
           None \<Rightarrow> Some (0, exps, cached, w)
         | Some name \<Rightarrow> (case nbdkit_add_export exps name None of
             (r, exps) \<Rightarrow> Some (r, exps, cached, w))) }
      else Some (0, exps, cached, w))"

definition backend_list_exports ::
  "('s, 'x) backend_caps_scheme \<Rightarrow> bool \<Rightarrow> bool \<Rightarrow> bool \<Rightarrow> cstring option \<Rightarrow> nbdkit_exports \<Rightarrow> 's world \<Rightarrow>
     (int \<times> nbdkit_exports \<times> cstring option \<times> 's world) option" where
  "backend_list_exports b readonly using_tls top_null cached exps w = do {
     c_assert top_null;
     (r, exps, w) \<leftarrow> b_list_exports b readonly using_tls exps w;
     (if r = - 1 then Some (- 1, exps, cached, w)
      else do {
        (r, exps, cached, w) \<leftarrow> exports_resolve_default b readonly using_tls top_null cached exps w;
        Some (if r = - 1 then - 1 else 0, exps, cached, w) })
   }"

definition new_context :: "bool \<Rightarrow> 's world \<Rightarrow> 's ctx" where
  "new_context readonly w =
     \<lparr>handle = False, c_state = 0, exportsize = - 1, minimum_block_size = - 1,
      preferred_block_size = - 1, maximum_block_size = - 1,
      c_can_write = (if readonly then 0 else - 1), c_can_flush = - 1, c_is_rotational = - 1,
      c_can_trim = - 1, c_can_zero = - 1, c_can_fast_zero = - 1, c_can_fua = - 1,
      c_can_multi_conn = - 1, c_can_extents = - 1, c_can_cache = - 1, inner = w\<rparr>"

text \<open>
  A context that belongs to a connection (\<open>shared\<close> is false).  The first result is the remembered
  default export name; the second is \<^term>\<open>Inl w\<close> for \<^verbatim>\<open>NULL\<close>.  \<open>close_next\<close> closes the context the
  backend's own \<^verbatim>\<open>.open\<close> may have opened below it.
\<close>

definition backend_open ::
  "('s, 'x) backend_caps_scheme \<Rightarrow> ('s ctx \<Rightarrow> 's world option) option \<Rightarrow> bool \<Rightarrow> cstring \<Rightarrow> bool \<Rightarrow>
     bool \<Rightarrow> cstring option \<Rightarrow> 's world \<Rightarrow> (cstring option \<times> ('s world + 's ctx)) option" where
  "backend_open b close_next readonly exportname using_tls top_null cached w = do {
     (exportname, cached, w) \<leftarrow>
       (if exportname = [] then backend_default_export b readonly using_tls top_null cached w
        else Some (Some exportname, cached, w));
     (case exportname of
        None \<Rightarrow> Some (cached, Inl w)
      | Some exportname \<Rightarrow> do {
          (h, c) \<leftarrow> b_open b (new_context readonly w) readonly exportname using_tls;
          (if \<not> h
           then (case close_next of
                   None \<Rightarrow> Some (cached, Inl (inner c))
                 | Some close \<Rightarrow> do { w \<leftarrow> close c; Some (cached, Inl w) })
           else Some (cached, Inr (c\<lparr>handle := True, c_state := c_state c OR HANDLE_OPEN\<rparr>)))
        })
   }"

text \<open>
  In the next three \<open>next\<close> is the same operation on the next context, absent in the plugin
  (\<^verbatim>\<open>b->i == 0\<close>) and when there is no next context.
\<close>

definition backend_prepare ::
  "('s, 'x) backend_caps_scheme \<Rightarrow> 's query option \<Rightarrow> 's query" where
  "backend_prepare b next c = do {
     c_assert (handle c);
     c_assert (has (c_state c) HANDLE_OPEN);
     (if has (c_state c) HANDLE_CONNECTED then Some (0, c)
      else do {
        (r, c) \<leftarrow> (case next of None \<Rightarrow> Some (0, c) | Some prep \<Rightarrow> prep c);
        (if r = - 1 then Some (- 1, c)
         else do {
           (r, c) \<leftarrow> b_prepare b c (c_can_write c = 0);
           (if r = - 1 then Some (- 1, c)
            else Some (0, c\<lparr>c_state := c_state c OR HANDLE_CONNECTED\<rparr>))
         })
      })
   }"

definition backend_finalize ::
  "('s, 'x) backend_caps_scheme \<Rightarrow> 's query option \<Rightarrow> 's query" where
  "backend_finalize b next c =
     (if has (c_state c) HANDLE_FAILED then Some (- 1, c)
      else do {
        (r, c) \<leftarrow>
          (if has (c_state c) HANDLE_CONNECTED then do {
             c_assert (has (c_state c) HANDLE_OPEN \<and> handle c);
             b_finalize b c }
           else Some (0, c));
        (if r = - 1 then Some (- 1, c\<lparr>c_state := c_state c OR HANDLE_FAILED\<rparr>)
         else case next of None \<Rightarrow> Some (0, c) | Some fin \<Rightarrow> fin c)
      })"

definition backend_close ::
  "('s, 'x) backend_caps_scheme \<Rightarrow> ('s world \<Rightarrow> 's world option) option \<Rightarrow> 's ctx \<Rightarrow>
     's world option" where
  "backend_close b next c = do {
     c_assert (handle c);
     c_assert (has (c_state c) HANDLE_OPEN);
     w \<leftarrow> b_close b c;
     (case next of None \<Rightarrow> Some w | Some close \<Rightarrow> close w)
   }"

definition backend_valid_range :: "'s ctx \<Rightarrow> u64 \<Rightarrow> u32 \<Rightarrow> bool option" where
  "backend_valid_range c off count = do {
     c_assert (exportsize c \<le> INT64_MAX);
     Some (count > 0 \<and> off \<le> exportsize c \<and> off + ucast count \<le> exportsize c)
   }"

subsection \<open>Queries\<close>

definition backend_export_description ::
  "('s, 'x) backend_caps_scheme \<Rightarrow> 's ctx \<Rightarrow> (cstring option \<times> 's ctx) option" where
  "backend_export_description b c = do {
     c_assert (connected c);
     (s, c) \<leftarrow> b_export_description b c;
     Some (case s of None \<Rightarrow> None | Some s \<Rightarrow> if length s > NBD_MAX_STRING then None else Some s, c)
   }"

definition backend_get_size ::
  "('s, 'x) backend_caps_scheme \<Rightarrow> 's ctx \<Rightarrow> (u64 \<times> 's ctx) option" where
  "backend_get_size b c = do {
     c_assert (connected c);
     (if exportsize c = - 1 then do {
        (size, c) \<leftarrow> b_get_size b c;
        Some (size, c\<lparr>exportsize := size\<rparr>) }
      else Some (exportsize c, c))
   }"

definition backend_block_size ::
  "('s, 'x) backend_caps_scheme \<Rightarrow> 's ctx \<Rightarrow> (int \<times> (u32 \<times> u32 \<times> u32) \<times> 's ctx) option" where
  "backend_block_size b c = do {
     c_assert (connected c);
     (if minimum_block_size c \<noteq> - 1
      then Some (0, (minimum_block_size c, preferred_block_size c, maximum_block_size c), c)
      else do {
        (r, (minimum, preferred, maximum), c) \<leftarrow> b_block_size b c;
        Some (r, (minimum, preferred, maximum),
          if r = 0 then c\<lparr>minimum_block_size := minimum, preferred_block_size := preferred,
                          maximum_block_size := maximum\<rparr> else c)
      })
   }"

definition backend_can_write :: "('s, 'x) backend_caps_scheme \<Rightarrow> 's query" where
  "backend_can_write b c = do {
     c_assert (connected c);
     (if c_can_write c = - 1 then do {
        (r, c) \<leftarrow> b_can_write b c; Some (r, c\<lparr>c_can_write := r\<rparr>) }
      else Some (c_can_write c, c))
   }"

definition backend_can_flush :: "('s, 'x) backend_caps_scheme \<Rightarrow> 's query" where
  "backend_can_flush b c = do {
     c_assert (connected c);
     (if c_can_flush c = - 1 then do {
        (r, c) \<leftarrow> b_can_flush b c; Some (r, c\<lparr>c_can_flush := r\<rparr>) }
      else Some (c_can_flush c, c))
   }"

definition backend_is_rotational :: "('s, 'x) backend_caps_scheme \<Rightarrow> 's query" where
  "backend_is_rotational b c = do {
     c_assert (connected c);
     (if c_is_rotational c = - 1 then do {
        (r, c) \<leftarrow> b_is_rotational b c; Some (r, c\<lparr>c_is_rotational := r\<rparr>) }
      else Some (c_is_rotational c, c))
   }"

definition backend_can_trim :: "('s, 'x) backend_caps_scheme \<Rightarrow> 's query" where
  "backend_can_trim b c = do {
     c_assert (connected c);
     (if c_can_trim c = - 1 then do {
        (r, c) \<leftarrow> backend_can_write b c;
        (if r \<noteq> 1 then Some (r, c\<lparr>c_can_trim := 0\<rparr>)
         else do { (r, c) \<leftarrow> b_can_trim b c; Some (r, c\<lparr>c_can_trim := r\<rparr>) }) }
      else Some (c_can_trim c, c))
   }"

definition backend_can_zero :: "('s, 'x) backend_caps_scheme \<Rightarrow> 's query" where
  "backend_can_zero b c = do {
     c_assert (connected c);
     (if c_can_zero c = - 1 then do {
        (r, c) \<leftarrow> backend_can_write b c;
        (if r \<noteq> 1 then Some (r, c\<lparr>c_can_zero := NBDKIT_ZERO_NONE\<rparr>)
         else do { (r, c) \<leftarrow> b_can_zero b c; Some (r, c\<lparr>c_can_zero := r\<rparr>) }) }
      else Some (c_can_zero c, c))
   }"

definition backend_can_fast_zero :: "('s, 'x) backend_scheme \<Rightarrow> 's query" where
  "backend_can_fast_zero b c = do {
     c_assert (connected c);
     (if c_can_fast_zero c = - 1 then do {
        (r, c) \<leftarrow> backend_can_zero b c;
        (if r < NBDKIT_ZERO_EMULATE then Some (r, c\<lparr>c_can_fast_zero := 0\<rparr>)
         else do { (r, c) \<leftarrow> b_can_fast_zero b c; Some (r, c\<lparr>c_can_fast_zero := r\<rparr>) }) }
      else Some (c_can_fast_zero c, c))
   }"

definition backend_can_extents :: "('s, 'x) backend_caps_scheme \<Rightarrow> 's query" where
  "backend_can_extents b c = do {
     c_assert (connected c);
     (if c_can_extents c = - 1 then do {
        (r, c) \<leftarrow> b_can_extents b c; Some (r, c\<lparr>c_can_extents := r\<rparr>) }
      else Some (c_can_extents c, c))
   }"

definition backend_can_fua :: "('s, 'x) backend_caps_scheme \<Rightarrow> 's query" where
  "backend_can_fua b c = do {
     c_assert (connected c);
     (if c_can_fua c = - 1 then do {
        (r, c) \<leftarrow> backend_can_write b c;
        (if r \<noteq> 1 then Some (r, c\<lparr>c_can_fua := NBDKIT_FUA_NONE\<rparr>)
         else do { (r, c) \<leftarrow> b_can_fua b c; Some (r, c\<lparr>c_can_fua := r\<rparr>) }) }
      else Some (c_can_fua c, c))
   }"

definition backend_can_multi_conn :: "('s, 'x) backend_caps_scheme \<Rightarrow> 's query" where
  "backend_can_multi_conn b c = do {
     c_assert (connected c);
     (if c_can_multi_conn c = - 1 then do {
        (r, c) \<leftarrow> b_can_multi_conn b c; Some (r, c\<lparr>c_can_multi_conn := r\<rparr>) }
      else Some (c_can_multi_conn c, c))
   }"

definition backend_can_cache :: "('s, 'x) backend_caps_scheme \<Rightarrow> 's query" where
  "backend_can_cache b c = do {
     c_assert (connected c);
     (if c_can_cache c = - 1 then do {
        (r, c) \<leftarrow> b_can_cache b c; Some (r, c\<lparr>c_can_cache := r\<rparr>) }
      else Some (c_can_cache c, c))
   }"

subsection \<open>Data operations\<close>

text \<open>The check after every callback: \<^verbatim>\<open>if (r == -1) assert (*err)\<close>.\<close>

definition assert_err :: "int \<Rightarrow> int \<Rightarrow> unit option" where
  "assert_err r err = c_assert (r = - 1 \<longrightarrow> err \<noteq> 0)"

definition assert_range :: "'s ctx \<Rightarrow> u64 \<Rightarrow> u32 \<Rightarrow> unit option" where
  "assert_range c off count = do { ok \<leftarrow> backend_valid_range c off count; c_assert ok }"

definition backend_pread :: "('s, 'x) backend_scheme \<Rightarrow> 's ctx \<Rightarrow> u32 \<Rightarrow> u64 \<Rightarrow> u32 \<Rightarrow> int \<Rightarrow>
    (int \<times> u8 list \<times> int \<times> 's ctx) option" where
  "backend_pread b c count off flags err = do {
     c_assert (connected c);
     assert_range c off count;
     c_assert (flags = 0);
     (r, buf, err, c) \<leftarrow> b_pread b c count off flags err;
     assert_err r err;
     Some (r, buf, err, c)
   }"

definition backend_pwrite :: "('s, 'x) backend_scheme \<Rightarrow> 's ctx \<Rightarrow> u8 list \<Rightarrow> u32 \<Rightarrow> u64 \<Rightarrow> u32 \<Rightarrow> int \<Rightarrow>
    (int \<times> int \<times> 's ctx) option" where
  "backend_pwrite b c buf count off flags err = do {
     c_assert (connected c);
     c_assert (c_can_write c = 1);
     assert_range c off count;
     c_assert (flags AND NOT NBDKIT_FLAG_FUA = 0);
     c_assert (has flags NBDKIT_FLAG_FUA \<longrightarrow> c_can_fua c > NBDKIT_FUA_NONE);
     (r, err, c) \<leftarrow> b_pwrite b c buf count off flags err;
     assert_err r err;
     Some (r, err, c)
   }"

definition backend_flush :: "('s, 'x) backend_scheme \<Rightarrow> 's ctx \<Rightarrow> u32 \<Rightarrow> int \<Rightarrow> (int \<times> int \<times> 's ctx) option" where
  "backend_flush b c flags err = do {
     c_assert (connected c);
     c_assert (c_can_flush c = 1);
     c_assert (flags = 0);
     (r, err, c) \<leftarrow> b_flush b c flags err;
     assert_err r err;
     Some (r, err, c)
   }"

definition backend_trim :: "('s, 'x) backend_scheme \<Rightarrow> 's io" where
  "backend_trim b c count off flags err = do {
     c_assert (connected c);
     c_assert (c_can_write c = 1);
     c_assert (c_can_trim c = 1);
     assert_range c off count;
     c_assert (flags AND NOT NBDKIT_FLAG_FUA = 0);
     c_assert (has flags NBDKIT_FLAG_FUA \<longrightarrow> c_can_fua c > NBDKIT_FUA_NONE);
     (r, err, c) \<leftarrow> b_trim b c count off flags err;
     assert_err r err;
     Some (r, err, c)
   }"

text \<open>The loop that writes zeroes in pieces of at most \<^term>\<open>MAX_REQUEST_SIZE\<close>.\<close>

function backend_zero_loop :: "('s, 'x) backend_scheme \<Rightarrow> 's ctx \<Rightarrow> u32 \<Rightarrow> u64 \<Rightarrow> u32 \<Rightarrow> bool \<Rightarrow> int \<Rightarrow>
    (int \<times> int \<times> 's ctx) option" where
  "backend_zero_loop b c count off writeflags need_flush err =
     (if count = 0 then Some (0, err, c)
      else let limit = min count MAX_REQUEST_SIZE;
               writeflags = (if limit = count \<and> need_flush then NBDKIT_FLAG_FUA else writeflags) in
        do {
          (r, err, c) \<leftarrow> backend_pwrite b c (replicate (unat limit) 0) limit off writeflags err;
          (if r = - 1 then Some (- 1, err, c)
           else backend_zero_loop b c (count - limit) (off + ucast limit) writeflags need_flush err)
        })"
  by pat_completeness auto
termination
  by (relation "measure (\<lambda>(b, c, count, off, writeflags, need_flush, err). unat count)")
    (auto simp: unat_sub word_le_nat_alt unat_gt_0 min_def)

declare backend_zero_loop.simps [simp del]

definition backend_zero :: "('s, 'x) backend_scheme \<Rightarrow> 's io" where
  "backend_zero b c count off flags err = do {
     c_assert (connected c);
     c_assert (c_can_write c = 1);
     c_assert (c_can_zero c > NBDKIT_ZERO_NONE);
     assert_range c off count;
     c_assert (flags AND NOT (NBDKIT_FLAG_MAY_TRIM OR NBDKIT_FLAG_FUA OR NBDKIT_FLAG_FAST_ZERO) = 0);
     c_assert (has flags NBDKIT_FLAG_FUA \<longrightarrow> c_can_fua c > NBDKIT_FUA_NONE);
     c_assert (has flags NBDKIT_FLAG_FAST_ZERO \<longrightarrow> c_can_fast_zero c = 1);
     (if c_can_zero c = NBDKIT_ZERO_NATIVE then do {
        (r, err, c) \<leftarrow> b_zero b c count off flags err;
        c_assert (r = - 1 \<longrightarrow> err \<noteq> 0);
        c_assert (r = - 1 \<and> \<not> has flags NBDKIT_FLAG_FAST_ZERO \<longrightarrow> err \<noteq> ENOTSUP \<and> err \<noteq> EOPNOTSUPP);
        Some (r, err, c) }
      else if has flags NBDKIT_FLAG_FAST_ZERO then Some (- 1, ENOTSUP, c)
      else let fua = has flags NBDKIT_FLAG_FUA;
               need_flush = (fua \<and> c_can_fua c = NBDKIT_FUA_EMULATE);
               writeflags = (if fua \<and> \<not> need_flush then NBDKIT_FLAG_FUA else 0) in
        backend_zero_loop b c count off writeflags need_flush err)
   }"

definition backend_extents :: "('s, 'x) backend_scheme \<Rightarrow> 's ctx \<Rightarrow> u32 \<Rightarrow> u64 \<Rightarrow> u32 \<Rightarrow> nbdkit_extents \<Rightarrow>
    int \<Rightarrow> (int \<times> int \<times> nbdkit_extents \<times> 's ctx) option" where
  "backend_extents b c count off flags exts err = do {
     c_assert (connected c);
     c_assert (c_can_extents c \<ge> 0);
     assert_range c off count;
     c_assert (flags AND NOT NBDKIT_FLAG_REQ_ONE = 0);
     (if c_can_extents c = 0
      then (case nbdkit_add_extent exts off (ucast count) 0 of
              (Inl e, exts) \<Rightarrow> Some (- 1, e, exts, c)
            | (Inr _, exts) \<Rightarrow> Some (0, err, exts, c))
      else do {
        (r, err, exts, c) \<leftarrow> b_extents b c count off flags exts err;
        assert_err r err;
        Some (r, err, exts, c)
      })
   }"

function backend_cache_loop :: "('s, 'x) backend_scheme \<Rightarrow> 's ctx \<Rightarrow> u32 \<Rightarrow> u64 \<Rightarrow> u32 \<Rightarrow> int \<Rightarrow>
    (int \<times> int \<times> 's ctx) option" where
  "backend_cache_loop b c count off flags err =
     (if count = 0 then Some (0, err, c)
      else let limit = min count MAX_REQUEST_SIZE in
        do {
          (r, _, err, c) \<leftarrow> backend_pread b c limit off flags err;
          (if r = - 1 then Some (- 1, err, c)
           else backend_cache_loop b c (count - limit) (off + ucast limit) flags err)
        })"
  by pat_completeness auto
termination
  by (relation "measure (\<lambda>(b, c, count, off, flags, err). unat count)")
    (auto simp: unat_sub word_le_nat_alt unat_gt_0 min_def)

declare backend_cache_loop.simps [simp del]

definition backend_cache :: "('s, 'x) backend_scheme \<Rightarrow> 's io" where
  "backend_cache b c count off flags err = do {
     c_assert (connected c);
     c_assert (c_can_cache c > NBDKIT_CACHE_NONE);
     assert_range c off count;
     c_assert (flags = 0);
     (if c_can_cache c = NBDKIT_CACHE_EMULATE then backend_cache_loop b c count off flags err
      else do {
        (r, err, c) \<leftarrow> b_cache b c count off flags err;
        assert_err r err;
        Some (r, err, c)
      })
   }"

subsection \<open>Contexts after negotiation\<close>

lemma backend_valid_range_iff:
  assumes "unat (exportsize c) < 2 ^ 63"
  shows "backend_valid_range c off count
    = Some (0 < unat count \<and> unat off + unat count \<le> unat (exportsize c))"
proof -
  have le: "exportsize c \<le> INT64_MAX"
    using assms by (simp add: word_le_nat_alt)
  show ?thesis
  proof (cases "off \<le> exportsize c")
    case True
    then have "unat (off + ucast count) = unat off + unat count"
      using assms unat_u32_less [of count] by (simp add: unat_word_ariths unat_ucast_up word_le_nat_alt)
    with True le show ?thesis
      by (simp add: backend_valid_range_def word_le_nat_alt word_less_nat_alt)
  next
    case False
    with le show ?thesis by (auto simp: backend_valid_range_def word_le_nat_alt)
  qed
qed

text \<open>
  What \<^verbatim>\<open>protocol_common_open\<close> establishes: the context is connected, its size is known and below
  \<open>2 ^ 63\<close>, and every capability is cached with one of its documented values.
\<close>

definition negotiated :: "nat \<Rightarrow> 's ctx \<Rightarrow> bool" where
  "negotiated sz c \<longleftrightarrow> connected c \<and> has (c_state c) HANDLE_OPEN \<and> unat (exportsize c) = sz \<and> sz < 2 ^ 63
     \<and> c_can_write c \<in> {0, 1} \<and> c_can_flush c \<in> {0, 1} \<and> c_can_trim c \<in> {0, 1}
     \<and> c_can_zero c \<in> {0, 1, 2} \<and> c_can_fast_zero c \<in> {0, 1} \<and> c_can_fua c \<in> {0, 1, 2}
     \<and> c_can_extents c \<in> {0, 1} \<and> c_can_cache c \<in> {0, 1, 2}"

lemma connected_inner [simp]: "connected (c\<lparr>inner := w\<rparr>) = connected c"
  by (simp add: connected_def)

lemma negotiated_inner [simp]: "negotiated sz (c\<lparr>inner := w\<rparr>) = negotiated sz c"
  by (simp add: negotiated_def)

lemma negotiatedD:
  "negotiated sz c \<Longrightarrow> connected c \<and> unat (exportsize c) = sz \<and> sz < 2 ^ 63"
  by (simp add: negotiated_def)

lemma assert_range_ok:
  "negotiated sz c \<Longrightarrow> 0 < unat count \<Longrightarrow> unat off + unat count \<le> sz \<Longrightarrow> assert_range c off count = Some ()"
  using negotiatedD [of sz c] by (simp add: assert_range_def backend_valid_range_iff)

subsection \<open>Extents of a backend without extents\<close>

text \<open>Where the plugin has no extents \<^const>\<open>backend_extents\<close> itself reports the range asked for as data.\<close>

lemma backend_extents_plain:
  assumes "negotiated sz c" and "c_can_extents c = 0" and "0 < unat count" and "unat off + unat count \<le> sz"
    and "wf_extents t" and "extents t = []" and "x_start t = off" and "unat off + unat count \<le> unat (x_end t)"
    and "x_next t = - 1" and "flags AND NOT NBDKIT_FLAG_REQ_ONE = 0"
  shows "\<exists>t'. backend_extents b c count off flags t err = Some (0, err, t', c)
    \<and> wf_extents t' \<and> x_start t' = off \<and> x_end t' = x_end t \<and> extents t' \<noteq> []
    \<and> (\<forall>i ty. status t' i = Some ty \<longrightarrow> ty = 0)"
proof -
  obtain r t' where add: "nbdkit_add_extent t off (ucast count) 0 = (r, t')" by fastforce
  have sz: "sz < 2 ^ 63" "connected c" using negotiatedD [OF assms(1)] by auto
  have len: "unat (ucast count :: u64) = unat count" by (simp add: unat_ucast_up)
  have fr: "r = Inr ()" "x_start t' = x_start t" "x_end t' = x_end t"
    using nbdkit_add_extent_frame [OF add] assms(6,7,9) by (auto simp: in_sequence_def)
  have "step_ok t off (ucast count) 0 (Inr (), t')"
    using nbdkit_add_extent_ok [OF assms(5), of off "ucast count" 0] add fr(1) assms(4) sz(1) len by simp
  then have st: "wf_extents t'" "status t' = add_spec t (unat off) (unat count) 0"
    using assms(6) len by (auto simp: step_ok_def)
  have "status t' (unat off) = Some 0"
    using st(2) assms(3,7,8) by (simp add: add_spec_def)
  then have "extents t' \<noteq> []" by (auto simp: status_def)
  moreover have "status t i = None" for i using assms(6) by (simp add: status_def)
  ultimately show ?thesis
    using assms fr st add sz assert_range_ok [OF assms(1,3,4)]
    by (auto simp: backend_extents_def add_spec_def split: if_splits)
qed

interpretation plain_extents: extents_source
  "\<lambda>c count off flags t. backend_extents b c count off flags t 0"
  "\<lambda>c. negotiated sz c \<and> c_can_extents c = 0" sz "\<lambda>_. 0" for b :: "('s, 'x) backend_scheme" and sz :: nat
proof (unfold_locales, goal_cases)
  case (1 c) then show ?case using negotiatedD by blast
next
  case (2 c count off t flags) then show ?case using backend_extents_plain [of sz c count off t flags b 0] by force
qed

text \<open>C26: Over a backend without extents \<^verbatim>\<open>nbdkit_extents_full\<close> succeeds and reports every byte of the
  range as allocated data, unless the list is full.\<close>

theorem extents_full_plain:
  assumes "negotiated sz c" and "c_can_extents c = 0" and "0 < unat count" and "unat off + unat count \<le> sz"
    and "flags AND NOT NBDKIT_FLAG_REQ_ONE = 0"
  shows "\<exists>ret c'. nbdkit_extents_full (\<lambda>c count off flags t. backend_extents b c count off flags t 0) c count off flags err
      = Some (Inr ret, c') \<and> wf_extents ret \<and> x_start ret = off
    \<and> (length (extents ret) = MAX_EXTENTS
       \<or> (\<forall>i. unat off \<le> i \<and> i < unat off + unat count \<longrightarrow> status ret i = Some 0))"
  using plain_extents.nbdkit_extents_full_complete [of sz c count off flags b err] assms by auto

subsection \<open>The contract of a backend that serves a disk\<close>

text \<open>
  The outcome of an operation on a backend that serves the disk \<open>dsk\<close>: the process does not abort,
  only \<open>inner\<close> of the context changes, its invariant is kept, the bytes outside the
  range are untouched; a failure has a positive error number that satisfies \<open>E\<close>, and after a success
  the disk satisfies \<open>P\<close>.
\<close>

definition io_result :: "('s world \<Rightarrow> bool) \<Rightarrow> ('s world \<Rightarrow> disk) \<Rightarrow> 's ctx \<Rightarrow> nat \<Rightarrow> nat \<Rightarrow> (disk \<Rightarrow> bool) \<Rightarrow>
    (int \<Rightarrow> bool) \<Rightarrow> (int \<times> int \<times> 's ctx) option \<Rightarrow> bool" where
  "io_result winv dsk c off n P E res \<longleftrightarrow>
     (case res of None \<Rightarrow> False
      | Some (r, err, c') \<Rightarrow> c' = c\<lparr>inner := inner c'\<rparr> \<and> winv (inner c') \<and> err \<ge> 0
          \<and> same_outside off n (dsk (inner c)) (dsk (inner c'))
          \<and> (if r = - 1 then err > 0 \<and> E err else P (dsk (inner c'))))"

definition read_result :: "('s world \<Rightarrow> bool) \<Rightarrow> ('s world \<Rightarrow> disk) \<Rightarrow> 's ctx \<Rightarrow> nat \<Rightarrow> nat \<Rightarrow>
    (int \<times> u8 list \<times> int \<times> 's ctx) option \<Rightarrow> bool" where
  "read_result winv dsk c off n res \<longleftrightarrow>
     (case res of None \<Rightarrow> False
      | Some (r, buf, err, c') \<Rightarrow> c' = c\<lparr>inner := inner c'\<rparr> \<and> winv (inner c') \<and> err \<ge> 0
          \<and> dsk (inner c') = dsk (inner c)
          \<and> (if r = - 1 then err > 0 else buf = disk_read (dsk (inner c)) off n))"

definition extents_result :: "bool \<Rightarrow> ('s world \<Rightarrow> bool) \<Rightarrow> ('s world \<Rightarrow> disk) \<Rightarrow> 's ctx \<Rightarrow> nbdkit_extents \<Rightarrow>
    (int \<times> int \<times> nbdkit_extents \<times> 's ctx) option \<Rightarrow> bool" where
  "extents_result short winv dsk c exts res \<longleftrightarrow>
     (case res of None \<Rightarrow> False
      | Some (r, err, exts', c') \<Rightarrow> c' = c\<lparr>inner := inner c'\<rparr> \<and> winv (inner c') \<and> err \<ge> 0
          \<and> dsk (inner c') = dsk (inner c)
          \<and> (if r = - 1 then err > 0
             else wf_extents exts' \<and> extents exts' \<noteq> [] \<and> x_start exts' = x_start exts \<and> x_end exts' = x_end exts \<and> (short \<longrightarrow> short_extents exts')
               \<and> (\<forall>i ty. status exts' i = Some ty \<and> has ty NBDKIT_EXTENT_ZERO \<longrightarrow> dsk (inner c) i = 0)))"

lemma io_resultE:
  assumes "io_result winv dsk c off n P E res"
  obtains r err w where "res = Some (r, err, c\<lparr>inner := w\<rparr>)" "winv w" "err \<ge> 0"
    "same_outside off n (dsk (inner c)) (dsk w)" "if r = - 1 then err > 0 \<and> E err else P (dsk w)"
  using assms that by (auto simp: io_result_def split: option.splits prod.splits)

lemma io_result_Some [simp]:
  "io_result winv dsk c off n P E (Some (r, err, c\<lparr>inner := w\<rparr>)) \<longleftrightarrow>
     winv w \<and> err \<ge> 0 \<and> same_outside off n (dsk (inner c)) (dsk w)
     \<and> (if r = - 1 then err > 0 \<and> E err else P (dsk w))"
  by (simp add: io_result_def)

lemma io_result_same [simp]:
  "io_result winv dsk c off n P E (Some (r, err, c)) \<longleftrightarrow>
     winv (inner c) \<and> err \<ge> 0 \<and> (if r = - 1 then err > 0 \<and> E err else P (dsk (inner c)))"
  by (simp add: io_result_def)

lemma read_resultE:
  assumes "read_result winv dsk c off n res"
  obtains r buf err w where "res = Some (r, buf, err, c\<lparr>inner := w\<rparr>)" "winv w" "err \<ge> 0"
    "dsk w = dsk (inner c)" "if r = - 1 then err > 0 else buf = disk_read (dsk (inner c)) off n"
  using assms that by (auto simp: read_result_def split: option.splits prod.splits)

lemma read_result_Some [simp]:
  "read_result winv dsk c off n (Some (r, buf, err, c\<lparr>inner := w\<rparr>)) \<longleftrightarrow>
     winv w \<and> err \<ge> 0 \<and> dsk w = dsk (inner c)
     \<and> (if r = - 1 then err > 0 else buf = disk_read (dsk (inner c)) off n)"
  by (simp add: read_result_def)

lemma extents_resultE:
  assumes "extents_result short winv dsk c exts res"
  obtains r err exts' w where "res = Some (r, err, exts', c\<lparr>inner := w\<rparr>)" "winv w" "err \<ge> 0"
    "dsk w = dsk (inner c)"
    "if r = - 1 then err > 0
     else wf_extents exts' \<and> extents exts' \<noteq> [] \<and> x_start exts' = x_start exts \<and> x_end exts' = x_end exts \<and> (short \<longrightarrow> short_extents exts')
       \<and> (\<forall>i ty. status exts' i = Some ty \<and> has ty NBDKIT_EXTENT_ZERO \<longrightarrow> dsk (inner c) i = 0)"
  using assms that by (auto simp: extents_result_def split: option.splits prod.splits)

lemma extents_result_Some [simp]:
  "extents_result short winv dsk c exts (Some (r, err, exts', c\<lparr>inner := w\<rparr>)) \<longleftrightarrow>
     winv w \<and> err \<ge> 0 \<and> dsk w = dsk (inner c)
     \<and> (if r = - 1 then err > 0
        else wf_extents exts' \<and> extents exts' \<noteq> [] \<and> x_start exts' = x_start exts \<and> x_end exts' = x_end exts \<and> (short \<longrightarrow> short_extents exts')
          \<and> (\<forall>i ty. status exts' i = Some ty \<and> has ty NBDKIT_EXTENT_ZERO \<longrightarrow> dsk (inner c) i = 0))"
  by (simp add: extents_result_def)

definition data_flags_ok :: "'s ctx \<Rightarrow> u32 \<Rightarrow> bool" where
  "data_flags_ok c flags \<longleftrightarrow> flags AND NOT NBDKIT_FLAG_FUA = 0
     \<and> (has flags NBDKIT_FLAG_FUA \<longrightarrow> c_can_fua c > NBDKIT_FUA_NONE)"

definition zero_flags_ok :: "'s ctx \<Rightarrow> u32 \<Rightarrow> bool" where
  "zero_flags_ok c flags \<longleftrightarrow>
     flags AND NOT (NBDKIT_FLAG_MAY_TRIM OR NBDKIT_FLAG_FUA OR NBDKIT_FLAG_FAST_ZERO) = 0
     \<and> (has flags NBDKIT_FLAG_FUA \<longrightarrow> c_can_fua c > NBDKIT_FUA_NONE)
     \<and> (has flags NBDKIT_FLAG_FAST_ZERO \<longrightarrow> c_can_fast_zero c = 1)"

text \<open>
  The interface between \<^verbatim>\<open>backend.c\<close> and the layer it wraps: what the callbacks must do when
  they are called as \<^verbatim>\<open>backend.c\<close> calls them.  Any callback may fail.  \<open>native_zero\<close> says that the
  layer has a zero operation of its own, \<open>short\<close> that it reports no extent of 4 GiB or more.
\<close>

locale disk_backend =
  fixes b :: "'s backend"
    and winv :: "'s world \<Rightarrow> bool"
    and dsk :: "'s world \<Rightarrow> disk"
    and sz :: nat
    and native_zero :: bool
    and short :: bool
  assumes clear_errno: "winv w \<Longrightarrow> winv (w\<lparr>tl_errno := 0\<rparr>) \<and> dsk (w\<lparr>tl_errno := 0\<rparr>) = dsk w"
    and b_pread_ok: "negotiated sz c \<Longrightarrow> winv (inner c) \<Longrightarrow> 0 < unat count \<Longrightarrow>
      unat off + unat count \<le> sz \<Longrightarrow> err \<ge> 0 \<Longrightarrow>
      read_result winv dsk c (unat off) (unat count) (b_pread b c count off 0 err)"
    and b_pwrite_ok: "negotiated sz c \<Longrightarrow> winv (inner c) \<Longrightarrow> 0 < unat count \<Longrightarrow>
      unat off + unat count \<le> sz \<Longrightarrow> err \<ge> 0 \<Longrightarrow> c_can_write c = 1 \<Longrightarrow> data_flags_ok c flags \<Longrightarrow>
      length buf = unat count \<Longrightarrow>
      io_result winv dsk c (unat off) (unat count) (\<lambda>d. d = disk_write (dsk (inner c)) (unat off) buf)
        (\<lambda>_. True) (b_pwrite b c buf count off flags err)"
    and b_flush_ok: "negotiated sz c \<Longrightarrow> winv (inner c) \<Longrightarrow> err \<ge> 0 \<Longrightarrow> c_can_flush c = 1 \<Longrightarrow>
      io_result winv dsk c 0 0 (\<lambda>_. True) (\<lambda>_. True) (b_flush b c 0 err)"
    and b_trim_ok: "negotiated sz c \<Longrightarrow> winv (inner c) \<Longrightarrow> 0 < unat count \<Longrightarrow>
      unat off + unat count \<le> sz \<Longrightarrow> err \<ge> 0 \<Longrightarrow> c_can_write c = 1 \<Longrightarrow> c_can_trim c = 1 \<Longrightarrow>
      data_flags_ok c flags \<Longrightarrow>
      io_result winv dsk c (unat off) (unat count) (\<lambda>_. True) (\<lambda>_. True) (b_trim b c count off flags err)"
    and b_zero_ok: "native_zero \<Longrightarrow> negotiated sz c \<Longrightarrow> winv (inner c) \<Longrightarrow> 0 < unat count \<Longrightarrow>
      unat off + unat count \<le> sz \<Longrightarrow> err = 0 \<Longrightarrow> c_can_write c = 1 \<Longrightarrow> c_can_zero c = NBDKIT_ZERO_NATIVE \<Longrightarrow>
      zero_flags_ok c flags \<Longrightarrow>
      io_result winv dsk c (unat off) (unat count)
        (\<lambda>d. d = disk_write (dsk (inner c)) (unat off) (zeroes (unat count)))
        (\<lambda>e. has flags NBDKIT_FLAG_FAST_ZERO \<or> e \<noteq> ENOTSUP) (b_zero b c count off flags err)"
    and b_extents_ok: "negotiated sz c \<Longrightarrow> winv (inner c) \<Longrightarrow> 0 < unat count \<Longrightarrow>
      unat off + unat count \<le> sz \<Longrightarrow> err \<ge> 0 \<Longrightarrow> c_can_extents c = 1 \<Longrightarrow>
      flags AND NOT NBDKIT_FLAG_REQ_ONE = 0 \<Longrightarrow>
      wf_extents exts \<Longrightarrow> extents exts = [] \<Longrightarrow> x_start exts = off \<Longrightarrow> x_next exts = - 1 \<Longrightarrow>
      unat off + unat count \<le> unat (x_end exts) \<Longrightarrow> unat (x_end exts) \<le> sz \<Longrightarrow>
      extents_result short winv dsk c exts (b_extents b c count off flags exts err)"
    and b_cache_ok: "negotiated sz c \<Longrightarrow> winv (inner c) \<Longrightarrow> 0 < unat count \<Longrightarrow>
      unat off + unat count \<le> sz \<Longrightarrow> err \<ge> 0 \<Longrightarrow> c_can_cache c = NBDKIT_CACHE_NATIVE \<Longrightarrow>
      io_result winv dsk c 0 0 (\<lambda>_. True) (\<lambda>_. True) (b_cache b c count off 0 err)"
begin

lemma backend_pread_ok:
  assumes "negotiated sz c" and "winv (inner c)" and "0 < unat count" and "unat off + unat count \<le> sz"
    and "err \<ge> 0"
  shows "read_result winv dsk c (unat off) (unat count) (backend_pread b c count off 0 err)"
  using b_pread_ok [OF assms] negotiatedD [OF assms(1)] assms
  by (auto simp: backend_pread_def assert_range_ok assert_err_def c_assert_def elim!: read_resultE split: if_splits)

lemma backend_pwrite_ok:
  assumes "negotiated sz c" and "winv (inner c)" and "0 < unat count" and "unat off + unat count \<le> sz"
    and "err \<ge> 0" and "c_can_write c = 1" and "data_flags_ok c flags" and "length buf = unat count"
  shows "io_result winv dsk c (unat off) (unat count)
    (\<lambda>d. d = disk_write (dsk (inner c)) (unat off) buf) (\<lambda>_. True) (backend_pwrite b c buf count off flags err)"
  using b_pwrite_ok [OF assms] negotiatedD [OF assms(1)] assms
  by (auto simp: backend_pwrite_def assert_range_ok assert_err_def data_flags_ok_def c_assert_def elim!: io_resultE split: if_splits)

lemma backend_flush_ok:
  assumes "negotiated sz c" and "winv (inner c)" and "err \<ge> 0" and "c_can_flush c = 1"
  shows "io_result winv dsk c 0 0 (\<lambda>_. True) (\<lambda>_. True) (backend_flush b c 0 err)"
  using b_flush_ok [OF assms] negotiatedD [OF assms(1)] assms
  by (auto simp: backend_flush_def assert_err_def c_assert_def elim!: io_resultE split: if_splits)

lemma backend_trim_ok:
  assumes "negotiated sz c" and "winv (inner c)" and "0 < unat count" and "unat off + unat count \<le> sz"
    and "err \<ge> 0" and "c_can_write c = 1" and "c_can_trim c = 1" and "data_flags_ok c flags"
  shows "io_result winv dsk c (unat off) (unat count) (\<lambda>_. True) (\<lambda>_. True) (backend_trim b c count off flags err)"
  using b_trim_ok [OF assms] negotiatedD [OF assms(1)] assms
  by (auto simp: backend_trim_def assert_range_ok assert_err_def data_flags_ok_def c_assert_def elim!: io_resultE split: if_splits)

lemma backend_zero_loop_ok:
  "negotiated sz c \<Longrightarrow> winv (inner c) \<Longrightarrow> unat off + unat count \<le> sz \<Longrightarrow> err \<ge> 0 \<Longrightarrow> c_can_write c = 1 \<Longrightarrow>
     data_flags_ok c writeflags \<Longrightarrow> (need_flush \<longrightarrow> c_can_fua c > 0) \<Longrightarrow>
     io_result winv dsk c (unat off) (unat count)
       (\<lambda>d. d = disk_write (dsk (inner c)) (unat off) (zeroes (unat count)))
       (\<lambda>_. True) (backend_zero_loop b c count off writeflags need_flush err)"
proof (induction "unat count" arbitrary: c count off writeflags err rule: less_induct)
  case less
  note prems = less.prems
  show ?case
  proof (cases "count = 0")
    case True
    then show ?thesis
      using prems by (simp add: backend_zero_loop.simps [of b c])
  next
    case False
    define limit where "limit = min count MAX_REQUEST_SIZE"
    define wf where "wf = (if limit = count \<and> need_flush then NBDKIT_FLAG_FUA else writeflags)"
    have lim: "0 < unat limit" "unat limit \<le> unat count"
      using False by (auto simp: limit_def min_def word_le_nat_alt unat_gt_0)
    have wf: "data_flags_ok c wf"
      using prems(6,7) by (auto simp: wf_def data_flags_ok_def has_def)
    have off: "unat (off + ucast limit) = unat off + unat limit"
      using negotiatedD [OF prems(1)] prems(3) lim by (simp add: unat_word_ariths unat_ucast_up)
    have cnt: "unat (count - limit) = unat count - unat limit"
      using lim by (simp add: unat_sub word_le_nat_alt)
    have "io_result winv dsk c (unat off) (unat limit)
        (\<lambda>d. d = disk_write (dsk (inner c)) (unat off) (zeroes (unat limit))) (\<lambda>_. True)
        (backend_pwrite b c (zeroes (unat limit)) limit off wf err)"
      using prems lim by (intro backend_pwrite_ok wf) auto
    then obtain r err1 w where w: "backend_pwrite b c (zeroes (unat limit)) limit off wf err
          = Some (r, err1, c\<lparr>inner := w\<rparr>)" "winv w" "err1 \<ge> 0"
        "same_outside (unat off) (unat limit) (dsk (inner c)) (dsk w)"
        "if r = - 1 then err1 > 0 \<and> True else dsk w = disk_write (dsk (inner c)) (unat off) (zeroes (unat limit))"
      by (rule io_resultE)
    have step: "backend_zero_loop b c count off writeflags need_flush err
        = (if r = - 1 then Some (- 1, err1, c\<lparr>inner := w\<rparr>)
           else backend_zero_loop b (c\<lparr>inner := w\<rparr>) (count - limit) (off + ucast limit) wf need_flush err1)"
      using False w(1) by (subst backend_zero_loop.simps) (simp add: Let_def flip: limit_def wf_def)
    show ?thesis
    proof (cases "r = - 1")
      case True
      with w lim show ?thesis by (auto simp: step intro: same_outside_mono)
    next
      case r: False
      have "io_result winv dsk (c\<lparr>inner := w\<rparr>) (unat off + unat limit) (unat count - unat limit)
          (\<lambda>d. d = disk_write (dsk w) (unat off + unat limit) (zeroes (unat count - unat limit)))
          (\<lambda>_. True) (backend_zero_loop b (c\<lparr>inner := w\<rparr>) (count - limit) (off + ucast limit) wf need_flush err1)"
        using less.hyps [of "count - limit" "c\<lparr>inner := w\<rparr>" "off + ucast limit" err1 wf]
          prems w lim wf by (auto simp: off cnt data_flags_ok_def)
      moreover have "disk_write (dsk w) (unat off + unat limit) (zeroes (unat count - unat limit))
          = disk_write (dsk (inner c)) (unat off) (zeroes (unat count))"
        using w(5) r lim disk_write_append [of "dsk (inner c)" "unat off" "zeroes (unat limit)"
            "zeroes (unat count - unat limit)"] by (simp flip: replicate_add)
      moreover have "same_outside (unat off) (unat count) (dsk (inner c)) (dsk w)"
        by (rule same_outside_mono [OF w(4)]) (use lim in auto)
      ultimately show ?thesis
        using lim r by (auto simp: step same_outside_def elim!: io_resultE)
    qed
  qed
qed

lemma backend_zero_ok:
  assumes "negotiated sz c" and "winv (inner c)" and "0 < unat count" and "unat off + unat count \<le> sz"
    and "err = 0" and "c_can_write c = 1" and "c_can_zero c > 0" and "zero_flags_ok c flags"
    and "c_can_zero c = NBDKIT_ZERO_NATIVE \<longrightarrow> native_zero"
  shows "io_result winv dsk c (unat off) (unat count)
     (\<lambda>d. d = disk_write (dsk (inner c)) (unat off) (zeroes (unat count))) (\<lambda>_. True)
     (backend_zero b c count off flags err)"
proof (cases "c_can_zero c = NBDKIT_ZERO_NATIVE")
  case True
  then show ?thesis
    using b_zero_ok [OF mp [OF assms(9) True] assms(1-6) True assms(8)] negotiatedD [OF assms(1)] assms
    by (auto simp: backend_zero_def assert_range_ok zero_flags_ok_def c_assert_def elim!: io_resultE split: if_splits)
next
  case False
  let ?fua = "has flags NBDKIT_FLAG_FUA"
  let ?nf = "?fua \<and> c_can_fua c = NBDKIT_FUA_EMULATE"
  let ?wf = "if ?fua \<and> \<not> ?nf then NBDKIT_FLAG_FUA else 0"
  have "data_flags_ok c ?wf" using assms(8) by (auto simp: data_flags_ok_def zero_flags_ok_def)
  then have "io_result winv dsk c (unat off) (unat count)
     (\<lambda>d. d = disk_write (dsk (inner c)) (unat off) (zeroes (unat count))) (\<lambda>_. True)
     (backend_zero_loop b c count off ?wf ?nf err)"
    using assms by (intro backend_zero_loop_ok) auto
  moreover have "io_result winv dsk c (unat off) (unat count)
     (\<lambda>d. d = disk_write (dsk (inner c)) (unat off) (zeroes (unat count))) (\<lambda>_. True) (Some (- 1, ENOTSUP, c))"
    using assms(2) by simp
  ultimately show ?thesis
    using assms False negotiatedD [OF assms(1)] by (auto simp: backend_zero_def assert_range_ok zero_flags_ok_def Let_def)
qed

lemma backend_cache_loop_ok:
  "negotiated sz c \<Longrightarrow> winv (inner c) \<Longrightarrow> unat off + unat count \<le> sz \<Longrightarrow> err \<ge> 0 \<Longrightarrow>
     io_result winv dsk c 0 0 (\<lambda>_. True) (\<lambda>_. True) (backend_cache_loop b c count off 0 err)"
proof (induction "unat count" arbitrary: c count off err rule: less_induct)
  case less
  show ?case
  proof (cases "count = 0")
    case True
    then show ?thesis using less.prems by (simp add: backend_cache_loop.simps [of b c])
  next
    case False
    define limit where "limit = min count MAX_REQUEST_SIZE"
    have lim: "0 < unat limit" "unat limit \<le> unat count"
      using False by (auto simp: limit_def min_def word_le_nat_alt unat_gt_0)
    have off: "unat (off + ucast limit) = unat off + unat limit"
      using negotiatedD [OF less.prems(1)] less.prems(3) lim by (simp add: unat_word_ariths unat_ucast_up)
    have cnt: "unat (count - limit) = unat count - unat limit"
      using lim by (simp add: unat_sub word_le_nat_alt)
    have "read_result winv dsk c (unat off) (unat limit) (backend_pread b c limit off 0 err)"
      using less.prems lim by (intro backend_pread_ok) auto
    then obtain r buf err1 w where w: "backend_pread b c limit off 0 err = Some (r, buf, err1, c\<lparr>inner := w\<rparr>)"
        "winv w" "err1 \<ge> 0" "dsk w = dsk (inner c)"
        "if r = - 1 then err1 > 0 else buf = disk_read (dsk (inner c)) (unat off) (unat limit)"
      by (rule read_resultE)
    have step: "backend_cache_loop b c count off 0 err
        = (if r = - 1 then Some (- 1, err1, c\<lparr>inner := w\<rparr>)
           else backend_cache_loop b (c\<lparr>inner := w\<rparr>) (count - limit) (off + ucast limit) 0 err1)"
      using False w(1) by (subst backend_cache_loop.simps) (simp add: Let_def flip: limit_def)
    have "io_result winv dsk (c\<lparr>inner := w\<rparr>) 0 0 (\<lambda>_. True) (\<lambda>_. True)
        (backend_cache_loop b (c\<lparr>inner := w\<rparr>) (count - limit) (off + ucast limit) 0 err1)"
      using less.hyps [of "count - limit" "c\<lparr>inner := w\<rparr>" "off + ucast limit" err1] less.prems w lim
      by (auto simp: off cnt)
    then show ?thesis using w by (auto simp: step elim!: io_resultE)
  qed
qed

lemma backend_cache_ok:
  assumes "negotiated sz c" and "winv (inner c)" and "0 < unat count" and "unat off + unat count \<le> sz"
    and "err \<ge> 0" and "c_can_cache c > 0"
  shows "io_result winv dsk c 0 0 (\<lambda>_. True) (\<lambda>_. True) (backend_cache b c count off 0 err)"
proof -
  have "c_can_cache c = NBDKIT_CACHE_EMULATE \<or> c_can_cache c = NBDKIT_CACHE_NATIVE"
    using assms(1,6) by (auto simp: negotiated_def)
  then show ?thesis
    using b_cache_ok [OF assms(1-5)] backend_cache_loop_ok [OF assms(1,2,4,5)] negotiatedD [OF assms(1)] assms
    by (auto simp: backend_cache_def assert_range_ok assert_err_def c_assert_def elim!: io_resultE split: if_splits)
qed

lemma backend_extents_ok:
  assumes "negotiated sz c" and "winv (inner c)" and "0 < unat count" and "unat off + unat count \<le> sz"
    and "err \<ge> 0" and "flags AND NOT NBDKIT_FLAG_REQ_ONE = 0"
    and "wf_extents exts" and "extents exts = []" and "x_start exts = off" and "x_next exts = - 1"
    and "unat off + unat count \<le> unat (x_end exts)" and "unat (x_end exts) \<le> sz"
  shows "extents_result short winv dsk c exts (backend_extents b c count off flags exts err)"
proof (cases "c_can_extents c = 0")
  case True
  define l :: u64 where "l = ucast count"
  have l: "unat l = unat count" by (simp add: l_def unat_ucast_up)
  obtain res exts' where add: "nbdkit_add_extent exts off l 0 = (res, exts')" by force
  have fr: "res = Inr ()" "x_start exts' = off" "x_end exts' = x_end exts"
    using nbdkit_add_extent_frame [OF add] assms(8-10) by (simp_all add: in_sequence_def)
  have st: "step_ok exts off l 0 (Inr (), exts')"
    using nbdkit_add_extent_ok [OF assms(7), of off l 0] add fr(1) negotiatedD [OF assms(1)] assms(4) l
    by simp
  have sh: "short_extents exts'"
    using nbdkit_add_extent_short [OF add assms(8,9)] assms(11) l unat_u32_less [of count] by simp
  from st have s: "status exts' = add_spec exts (unat off) (unat count) 0"
    using assms(8) l by (simp add: step_ok_def)
  have "status exts' (unat off) = Some 0"
    using assms(3,9,11) by (simp add: s add_spec_def)
  then have "extents exts' \<noteq> []" by (auto simp: status_def)
  moreover have "\<not> has ty NBDKIT_EXTENT_ZERO" if "status exts' i = Some ty" for i ty
    using that assms(8) by (auto simp: s add_spec_def status_def split: if_splits)
  ultimately show ?thesis
    using True add fr st sh assms negotiatedD [OF assms(1)]
    by (auto simp: backend_extents_def assert_range_ok extents_result_def step_ok_def l_def)
next
  case False
  then have "c_can_extents c = 1" using assms(1) by (auto simp: negotiated_def)
  then show ?thesis
    using b_extents_ok [OF assms(1-5) _ assms(6-12)] negotiatedD [OF assms(1)] assms
    by (auto simp: backend_extents_def assert_range_ok assert_err_def c_assert_def
        elim!: extents_resultE split: if_splits)
qed

end

end
