(* ===== verification/NbdProtocol.thy ===== *)
theory NbdProtocol
  imports Prelude
begin

text \<open>
  The wire format of \<^verbatim>\<open>src/common/protocol/nbd-protocol.h\<close>: the constants the server uses, and for
  each packed structure a record with an encoder to bytes (all fields big-endian).  The structures a
  client sends also have a decoder.
\<close>

subsection \<open>Constants\<close>

abbreviation (input) NBD_MAGIC :: u64 where "NBD_MAGIC \<equiv> 0x4e42444d41474943"
abbreviation (input) NBD_OLD_VERSION :: u64 where "NBD_OLD_VERSION \<equiv> 0x0000420281861253"
abbreviation (input) NBD_NEW_VERSION :: u64 where "NBD_NEW_VERSION \<equiv> 0x49484156454F5054"
abbreviation (input) NBD_REP_MAGIC :: u64 where "NBD_REP_MAGIC \<equiv> 0x3e889045565a9"

abbreviation (input) NBD_FLAG_FIXED_NEWSTYLE :: u16 where "NBD_FLAG_FIXED_NEWSTYLE \<equiv> 1"
abbreviation (input) NBD_FLAG_NO_ZEROES :: u16 where "NBD_FLAG_NO_ZEROES \<equiv> 2"

abbreviation (input) NBD_FLAG_HAS_FLAGS :: u16 where "NBD_FLAG_HAS_FLAGS \<equiv> 0x1"
abbreviation (input) NBD_FLAG_READ_ONLY :: u16 where "NBD_FLAG_READ_ONLY \<equiv> 0x2"
abbreviation (input) NBD_FLAG_SEND_FLUSH :: u16 where "NBD_FLAG_SEND_FLUSH \<equiv> 0x4"
abbreviation (input) NBD_FLAG_SEND_FUA :: u16 where "NBD_FLAG_SEND_FUA \<equiv> 0x8"
abbreviation (input) NBD_FLAG_ROTATIONAL :: u16 where "NBD_FLAG_ROTATIONAL \<equiv> 0x10"
abbreviation (input) NBD_FLAG_SEND_TRIM :: u16 where "NBD_FLAG_SEND_TRIM \<equiv> 0x20"
abbreviation (input) NBD_FLAG_SEND_WRITE_ZEROES :: u16 where "NBD_FLAG_SEND_WRITE_ZEROES \<equiv> 0x40"
abbreviation (input) NBD_FLAG_SEND_DF :: u16 where "NBD_FLAG_SEND_DF \<equiv> 0x80"
abbreviation (input) NBD_FLAG_CAN_MULTI_CONN :: u16 where "NBD_FLAG_CAN_MULTI_CONN \<equiv> 0x100"
abbreviation (input) NBD_FLAG_SEND_CACHE :: u16 where "NBD_FLAG_SEND_CACHE \<equiv> 0x400"
abbreviation (input) NBD_FLAG_SEND_FAST_ZERO :: u16 where "NBD_FLAG_SEND_FAST_ZERO \<equiv> 0x800"

abbreviation (input) NBD_OPT_EXPORT_NAME :: u32 where "NBD_OPT_EXPORT_NAME \<equiv> 1"
abbreviation (input) NBD_OPT_ABORT :: u32 where "NBD_OPT_ABORT \<equiv> 2"
abbreviation (input) NBD_OPT_LIST :: u32 where "NBD_OPT_LIST \<equiv> 3"
abbreviation (input) NBD_OPT_STARTTLS :: u32 where "NBD_OPT_STARTTLS \<equiv> 5"
abbreviation (input) NBD_OPT_INFO :: u32 where "NBD_OPT_INFO \<equiv> 6"
abbreviation (input) NBD_OPT_GO :: u32 where "NBD_OPT_GO \<equiv> 7"
abbreviation (input) NBD_OPT_STRUCTURED_REPLY :: u32 where "NBD_OPT_STRUCTURED_REPLY \<equiv> 8"
abbreviation (input) NBD_OPT_LIST_META_CONTEXT :: u32 where "NBD_OPT_LIST_META_CONTEXT \<equiv> 9"
abbreviation (input) NBD_OPT_SET_META_CONTEXT :: u32 where "NBD_OPT_SET_META_CONTEXT \<equiv> 10"

abbreviation (input) NBD_REP_ACK :: u32 where "NBD_REP_ACK \<equiv> 1"
abbreviation (input) NBD_REP_SERVER :: u32 where "NBD_REP_SERVER \<equiv> 2"
abbreviation (input) NBD_REP_INFO :: u32 where "NBD_REP_INFO \<equiv> 3"
abbreviation (input) NBD_REP_META_CONTEXT :: u32 where "NBD_REP_META_CONTEXT \<equiv> 4"
abbreviation (input) NBD_REP_ERR_UNSUP :: u32 where "NBD_REP_ERR_UNSUP \<equiv> 0x80000001"
abbreviation (input) NBD_REP_ERR_POLICY :: u32 where "NBD_REP_ERR_POLICY \<equiv> 0x80000002"
abbreviation (input) NBD_REP_ERR_INVALID :: u32 where "NBD_REP_ERR_INVALID \<equiv> 0x80000003"
abbreviation (input) NBD_REP_ERR_PLATFORM :: u32 where "NBD_REP_ERR_PLATFORM \<equiv> 0x80000004"
abbreviation (input) NBD_REP_ERR_TLS_REQD :: u32 where "NBD_REP_ERR_TLS_REQD \<equiv> 0x80000005"
abbreviation (input) NBD_REP_ERR_UNKNOWN :: u32 where "NBD_REP_ERR_UNKNOWN \<equiv> 0x80000006"

abbreviation (input) NBD_INFO_EXPORT :: u16 where "NBD_INFO_EXPORT \<equiv> 0"
abbreviation (input) NBD_INFO_NAME :: u16 where "NBD_INFO_NAME \<equiv> 1"
abbreviation (input) NBD_INFO_DESCRIPTION :: u16 where "NBD_INFO_DESCRIPTION \<equiv> 2"
abbreviation (input) NBD_INFO_BLOCK_SIZE :: u16 where "NBD_INFO_BLOCK_SIZE \<equiv> 3"

abbreviation (input) NBD_REQUEST_MAGIC :: u32 where "NBD_REQUEST_MAGIC \<equiv> 0x25609513"
abbreviation (input) NBD_SIMPLE_REPLY_MAGIC :: u32 where "NBD_SIMPLE_REPLY_MAGIC \<equiv> 0x67446698"
abbreviation (input) NBD_STRUCTURED_REPLY_MAGIC :: u32 where "NBD_STRUCTURED_REPLY_MAGIC \<equiv> 0x668e33ef"
abbreviation (input) NBD_REPLY_FLAG_DONE :: u16 where "NBD_REPLY_FLAG_DONE \<equiv> 1"
abbreviation (input) NBD_REPLY_TYPE_OFFSET_DATA :: u16 where "NBD_REPLY_TYPE_OFFSET_DATA \<equiv> 1"
abbreviation (input) NBD_REPLY_TYPE_BLOCK_STATUS :: u16 where "NBD_REPLY_TYPE_BLOCK_STATUS \<equiv> 5"
abbreviation (input) NBD_REPLY_TYPE_ERROR :: u16 where "NBD_REPLY_TYPE_ERROR \<equiv> 0x8001"

abbreviation (input) NBD_CMD_READ :: u16 where "NBD_CMD_READ \<equiv> 0"
abbreviation (input) NBD_CMD_WRITE :: u16 where "NBD_CMD_WRITE \<equiv> 1"
abbreviation (input) NBD_CMD_DISC :: u16 where "NBD_CMD_DISC \<equiv> 2"
abbreviation (input) NBD_CMD_FLUSH :: u16 where "NBD_CMD_FLUSH \<equiv> 3"
abbreviation (input) NBD_CMD_TRIM :: u16 where "NBD_CMD_TRIM \<equiv> 4"
abbreviation (input) NBD_CMD_CACHE :: u16 where "NBD_CMD_CACHE \<equiv> 5"
abbreviation (input) NBD_CMD_WRITE_ZEROES :: u16 where "NBD_CMD_WRITE_ZEROES \<equiv> 6"
abbreviation (input) NBD_CMD_BLOCK_STATUS :: u16 where "NBD_CMD_BLOCK_STATUS \<equiv> 7"

abbreviation (input) NBD_CMD_FLAG_FUA :: u16 where "NBD_CMD_FLAG_FUA \<equiv> 1"
abbreviation (input) NBD_CMD_FLAG_NO_HOLE :: u16 where "NBD_CMD_FLAG_NO_HOLE \<equiv> 2"
abbreviation (input) NBD_CMD_FLAG_DF :: u16 where "NBD_CMD_FLAG_DF \<equiv> 4"
abbreviation (input) NBD_CMD_FLAG_REQ_ONE :: u16 where "NBD_CMD_FLAG_REQ_ONE \<equiv> 8"
abbreviation (input) NBD_CMD_FLAG_FAST_ZERO :: u16 where "NBD_CMD_FLAG_FAST_ZERO \<equiv> 16"

abbreviation (input) NBD_SUCCESS :: int where "NBD_SUCCESS \<equiv> 0"
abbreviation (input) NBD_EPERM :: int where "NBD_EPERM \<equiv> 1"
abbreviation (input) NBD_EIO :: int where "NBD_EIO \<equiv> 5"
abbreviation (input) NBD_ENOMEM :: int where "NBD_ENOMEM \<equiv> 12"
abbreviation (input) NBD_EINVAL :: int where "NBD_EINVAL \<equiv> 22"
abbreviation (input) NBD_ENOSPC :: int where "NBD_ENOSPC \<equiv> 28"
abbreviation (input) NBD_EOVERFLOW :: int where "NBD_EOVERFLOW \<equiv> 75"
abbreviation (input) NBD_ENOTSUP :: int where "NBD_ENOTSUP \<equiv> 95"
abbreviation (input) NBD_ESHUTDOWN :: int where "NBD_ESHUTDOWN \<equiv> 108"

subsection \<open>Handshake structures\<close>

record nbd_old_handshake =
  oh_nbdmagic :: u64
  oh_version :: u64
  oh_exportsize :: u64
  oh_gflags :: u16
  oh_eflags :: u16

definition enc_old_handshake :: "nbd_old_handshake \<Rightarrow> u8 list" where
  "enc_old_handshake h = be64 (oh_nbdmagic h) @ be64 (oh_version h) @ be64 (oh_exportsize h)
     @ be16 (oh_gflags h) @ be16 (oh_eflags h) @ zeroes 124"

record nbd_new_handshake =
  nh_nbdmagic :: u64
  nh_version :: u64
  nh_gflags :: u16

definition enc_new_handshake :: "nbd_new_handshake \<Rightarrow> u8 list" where
  "enc_new_handshake h = be64 (nh_nbdmagic h) @ be64 (nh_version h) @ be16 (nh_gflags h)"

record nbd_new_option =
  no_version :: u64
  no_option :: u32
  no_optlen :: u32

text \<open>The bytes of an option header as a client sends it.  No server code corresponds to it: theorems use it to describe input.\<close>

definition enc_new_option :: "nbd_new_option \<Rightarrow> u8 list" where
  "enc_new_option o' = be64 (no_version o') @ be32 (no_option o') @ be32 (no_optlen o')"

definition dec_new_option :: "u8 list \<Rightarrow> nbd_new_option" where
  "dec_new_option bs = \<lparr>no_version = be_dec (take 8 bs), no_option = be_dec (take 4 (drop 8 bs)),
     no_optlen = be_dec (take 4 (drop 12 bs))\<rparr>"

record nbd_export_name_option_reply =
  en_exportsize :: u64
  en_eflags :: u16

definition enc_export_name_option_reply :: "nbd_export_name_option_reply \<Rightarrow> u8 list" where
  "enc_export_name_option_reply r = be64 (en_exportsize r) @ be16 (en_eflags r) @ zeroes 124"

record nbd_fixed_new_option_reply =
  fr_magic :: u64
  fr_option :: u32
  fr_reply :: u32
  fr_replylen :: u32

definition enc_fixed_new_option_reply :: "nbd_fixed_new_option_reply \<Rightarrow> u8 list" where
  "enc_fixed_new_option_reply r = be64 (fr_magic r) @ be32 (fr_option r) @ be32 (fr_reply r) @ be32 (fr_replylen r)"

definition enc_info_export :: "u64 \<Rightarrow> u16 \<Rightarrow> u8 list" where
  "enc_info_export exportsize eflags = be16 NBD_INFO_EXPORT @ be64 exportsize @ be16 eflags"

definition enc_info_block_size :: "u32 \<Rightarrow> u32 \<Rightarrow> u32 \<Rightarrow> u8 list" where
  "enc_info_block_size minimum preferred maximum =
     be16 NBD_INFO_BLOCK_SIZE @ be32 minimum @ be32 preferred @ be32 maximum"

subsection \<open>Transmission structures\<close>

record nbd_request =
  rq_magic :: u32
  rq_flags :: u16
  rq_type :: u16
  rq_cookie :: u64
  rq_offset :: u64
  rq_count :: u32

text \<open>The bytes of a request header as a client sends it, again to describe input.\<close>

definition enc_request :: "nbd_request \<Rightarrow> u8 list" where
  "enc_request r = be32 (rq_magic r) @ be16 (rq_flags r) @ be16 (rq_type r) @ be64 (rq_cookie r)
     @ be64 (rq_offset r) @ be32 (rq_count r)"

definition dec_request :: "u8 list \<Rightarrow> nbd_request" where
  "dec_request bs =
     \<lparr>rq_magic = be_dec (take 4 bs), rq_flags = be_dec (take 2 (drop 4 bs)),
      rq_type = be_dec (take 2 (drop 6 bs)), rq_cookie = be_dec (take 8 (drop 8 bs)),
      rq_offset = be_dec (take 8 (drop 16 bs)), rq_count = be_dec (take 4 (drop 24 bs))\<rparr>"

record nbd_simple_reply =
  sr_magic :: u32
  sr_error :: u32
  sr_cookie :: u64

definition enc_simple_reply :: "nbd_simple_reply \<Rightarrow> u8 list" where
  "enc_simple_reply r = be32 (sr_magic r) @ be32 (sr_error r) @ be64 (sr_cookie r)"

record nbd_structured_reply =
  st_magic :: u32
  st_flags :: u16
  st_type :: u16
  st_cookie :: u64
  st_length :: u32

definition enc_structured_reply :: "nbd_structured_reply \<Rightarrow> u8 list" where
  "enc_structured_reply r = be32 (st_magic r) @ be16 (st_flags r) @ be16 (st_type r)
     @ be64 (st_cookie r) @ be32 (st_length r)"

record nbd_block_descriptor_32 =
  bd_length :: u32
  bd_status_flags :: u32

definition enc_block_descriptor_32 :: "nbd_block_descriptor_32 \<Rightarrow> u8 list" where
  "enc_block_descriptor_32 b = be32 (bd_length b) @ be32 (bd_status_flags b)"

definition enc_chunk_error :: "u32 \<Rightarrow> u16 \<Rightarrow> u8 list" where
  "enc_chunk_error error len = be32 error @ be16 len"

subsection \<open>Round trips\<close>

lemma length_enc [simp]:
  "length (enc_request r) = 28" "length (enc_new_option o') = 16"
  "length (enc_simple_reply s) = 16" "length (enc_structured_reply t) = 20"
  "length (enc_block_descriptor_32 b) = 8" "length (enc_fixed_new_option_reply f) = 20"
  "length (enc_old_handshake h) = 152" "length (enc_new_handshake n) = 18"
  "length (enc_export_name_option_reply e) = 134"
  by (simp_all add: enc_request_def enc_new_option_def enc_simple_reply_def enc_structured_reply_def
      enc_block_descriptor_32_def enc_fixed_new_option_reply_def enc_old_handshake_def
      enc_new_handshake_def enc_export_name_option_reply_def)

lemma dec_enc_request [simp]: "dec_request (enc_request r) = r"
  by (simp add: dec_request_def enc_request_def)

lemma dec_enc_new_option [simp]: "dec_new_option (enc_new_option r) = r"
  by (simp add: dec_new_option_def enc_new_option_def)

end
