(* ===== verification/Connections.thy ===== *)
theory Connections
  imports Backend NbdProtocol
begin

text \<open>
  Connections, \<^verbatim>\<open>src/server/connections.c\<close>: the status of a connection, which only ever gets
  lower, and the functions that receive and send whole buffers over a socket.

  A socket is a script of what the system calls will do.  \<open>sockin\<close> lists the results of future
  \<^verbatim>\<open>read\<close> calls: a chunk of bytes (longer chunks are split by the length asked for), an interruption,
  or an error; at the end of the list the peer has closed.  \<open>sockout\<close> holds the bytes written so far
  and \<open>wscript\<close> lists the results of future \<^verbatim>\<open>write\<close> calls: how many bytes are accepted, an
  interruption, or an error; at the end of the list everything is accepted.
\<close>

subsection \<open>Status\<close>

datatype conn_status = STATUS_DEAD | STATUS_CLIENT_DONE | STATUS_SHUTDOWN | STATUS_ACTIVE

fun status_rank :: "conn_status \<Rightarrow> nat" where
  "status_rank STATUS_DEAD = 0"
| "status_rank STATUS_CLIENT_DONE = 1"
| "status_rank STATUS_SHUTDOWN = 2"
| "status_rank STATUS_ACTIVE = 3"

lemma status_rank_inject: "status_rank a = status_rank b \<longleftrightarrow> a = b"
  by (cases a; cases b) auto

instantiation conn_status :: linorder
begin

definition less_eq_conn_status :: "conn_status \<Rightarrow> conn_status \<Rightarrow> bool" where
  "less_eq_conn_status a b \<longleftrightarrow> status_rank a \<le> status_rank b"

definition less_conn_status :: "conn_status \<Rightarrow> conn_status \<Rightarrow> bool" where
  "less_conn_status a b \<longleftrightarrow> status_rank a < status_rank b"

instance
  by standard (auto simp: less_eq_conn_status_def less_conn_status_def status_rank_inject)

end

lemmas conn_status_order [simp] = less_eq_conn_status_def less_conn_status_def

subsection \<open>Sockets and connections\<close>

datatype read_result = Rd "u8 list" | RdIntr | RdErr
datatype write_result = Wr nat | WrIntr | WrErr

record 's connection =
  conn_status :: conn_status
  nworkers :: nat
  notified :: nat                  \<comment> \<open>bytes written to the status pipe\<close>
  top_context :: "'s ctx option"
  default_exportname :: "cstring option"
  cflags :: u32
  eflags :: u16
  handshake_complete :: bool
  using_tls :: bool
  structured_replies :: bool
  meta_context_base_allocation :: bool
  exportname_from_set_meta_context :: "cstring option"
  sockin :: "read_result list"
  sockout :: "u8 list"
  wscript :: "write_result list"
  out_open :: bool                 \<comment> \<open>\<^verbatim>\<open>conn->sockout >= 0\<close>\<close>

definition new_connection :: "nat \<Rightarrow> read_result list \<Rightarrow> write_result list \<Rightarrow> 's connection" where
  "new_connection workers input ws =
     \<lparr>conn_status = STATUS_ACTIVE, nworkers = workers, notified = 0, top_context = None,
      default_exportname = None, cflags = 0, eflags = 0, handshake_complete = False, using_tls = False,
      structured_replies = False, meta_context_base_allocation = False,
      exportname_from_set_meta_context = None, sockin = input, sockout = [], wscript = ws, out_open = True\<rparr>"

definition connection_get_status :: "'s connection \<Rightarrow> conn_status" where
  "connection_get_status conn = conn_status conn"

definition connection_set_status :: "conn_status \<Rightarrow> 's connection \<Rightarrow> bool \<times> 's connection" where
  "connection_set_status value conn =
     (if value < conn_status conn then
        let notify = (0 < nworkers conn \<and> conn_status conn > STATUS_CLIENT_DONE
                       \<and> value \<le> STATUS_CLIENT_DONE);
            ret = (conn_status conn \<ge> STATUS_CLIENT_DONE \<and> value < STATUS_CLIENT_DONE) in
        (ret, conn\<lparr>notified := notified conn + (if notify then 1 else 0), conn_status := value\<rparr>)
      else (False, conn))"

subsection \<open>Receiving and sending\<close>

text \<open>
  The loop of \<^verbatim>\<open>raw_recv\<close>: the return code, the bytes received and the remaining script.  A
  chunk of no bytes is \<^verbatim>\<open>read\<close> returning 0.
\<close>

fun raw_recv_loop :: "nat \<Rightarrow> bool \<Rightarrow> u8 list \<Rightarrow> read_result list \<Rightarrow> int \<times> u8 list \<times> read_result list" where
  "raw_recv_loop 0 first acc s = (1, acc, s)"
| "raw_recv_loop (Suc len) first acc [] = (if first then 0 else - 1, acc, [])"
| "raw_recv_loop (Suc len) first acc (RdIntr # s) = raw_recv_loop (Suc len) first acc s"
| "raw_recv_loop (Suc len) first acc (RdErr # s) = (- 1, acc, s)"
| "raw_recv_loop (Suc len) first acc (Rd bs # s) =
     (if bs = [] then (if first then 0 else - 1, acc, s)
      else if length bs \<le> Suc len then raw_recv_loop (Suc len - length bs) False (acc @ bs) s
      else (1, acc @ take (Suc len) bs, Rd (drop (Suc len) bs) # s))"

definition raw_recv :: "nat \<Rightarrow> 's connection \<Rightarrow> int \<times> u8 list \<times> 's connection" where
  "raw_recv len conn =
     (let (r, bs, s) = raw_recv_loop len True [] (sockin conn) in (r, bs, conn\<lparr>sockin := s\<rparr>))"

text \<open>The loop of \<^verbatim>\<open>raw_send_socket\<close>: the return code, the bytes sent and the remaining script.\<close>

fun raw_send_loop :: "u8 list \<Rightarrow> u8 list \<Rightarrow> write_result list \<Rightarrow> int \<times> u8 list \<times> write_result list" where
  "raw_send_loop out [] s = (0, out, s)"
| "raw_send_loop out (b # buf) [] = (0, out @ b # buf, [])"
| "raw_send_loop out (b # buf) (WrIntr # s) = raw_send_loop out (b # buf) s"
| "raw_send_loop out (b # buf) (WrErr # s) = (- 1, out, s)"
| "raw_send_loop out (b # buf) (Wr n # s) =
     raw_send_loop (out @ take n (b # buf)) (drop n (b # buf)) s"

definition raw_send_socket :: "u8 list \<Rightarrow> 's connection \<Rightarrow> int \<times> 's connection" where
  "raw_send_socket buf conn =
     (if \<not> out_open conn then (- 1, conn)
      else let (r, out, s) = raw_send_loop (sockout conn) buf (wscript conn) in
        (r, conn\<lparr>sockout := out, wscript := s\<rparr>))"

text \<open>\<^verbatim>\<open>raw_close (SHUT_WR)\<close>.\<close>

definition raw_close_wr :: "'s connection \<Rightarrow> 's connection" where
  "raw_close_wr conn = conn\<lparr>out_open := False\<rparr>"

subsection \<open>Lemmas\<close>

text \<open>The bytes a script delivers before an error or the end.\<close>

fun stream :: "read_result list \<Rightarrow> u8 list" where
  "stream [] = []"
| "stream (RdIntr # s) = stream s"
| "stream (RdErr # s) = []"
| "stream (Rd bs # s) = (if bs = [] then [] else bs @ stream s)"

lemma raw_recv_loop_stream:
  "n \<le> length (stream s) \<Longrightarrow>
     \<exists>s'. raw_recv_loop n first acc s = (1, acc @ take n (stream s), s') \<and> stream s' = drop n (stream s)"
proof (induction n first acc s rule: raw_recv_loop.induct)
  case (5 len first acc bs s)
  show ?case
  proof (cases "length bs \<le> Suc len")
    case True
    with 5 show ?thesis by (cases "bs = []") auto
  next
    case False
    then have "bs \<noteq> []" "drop (Suc len) bs \<noteq> []" by auto
    with False show ?thesis by auto
  qed
qed auto

lemma raw_recv_loop_short:
  "length (stream s) < n \<Longrightarrow> fst (raw_recv_loop n first acc s) \<noteq> 1"
  by (induction n first acc s rule: raw_recv_loop.induct) (auto split: if_splits)

lemma raw_send_loop_prefix:
  "\<exists>s' sent rest. raw_send_loop out buf s = (if rest = [] then 0 else - 1, out @ sent, s') \<and> buf = sent @ rest"
proof (induction out buf s rule: raw_send_loop.induct)
  case (5 out b buf n s)
  then obtain s' sent rest where "raw_send_loop (out @ take n (b # buf)) (drop n (b # buf)) s
      = (if rest = [] then 0 else - 1, (out @ take n (b # buf)) @ sent, s')" "drop n (b # buf) = sent @ rest"
    by blast
  moreover have "b # buf = (take n (b # buf) @ sent) @ rest"
    using calculation(2) by (metis append_assoc append_take_drop_id)
  ultimately show ?case
    by (intro exI [of _ s'] exI [of _ "take n (b # buf) @ sent"] exI [of _ rest]) simp
qed auto

subsection \<open>Properties\<close>

text \<open>C30: A connection's status never rises: setting it stores the lower of the two values, and reports
  that the caller should shut the connection down exactly when this call passed from a status that still
  serves or drains the client to a dead connection.\<close>

theorem connection_set_status_monotone:
  "conn_status (snd (connection_set_status v conn)) = min v (conn_status conn)
   \<and> (fst (connection_set_status v conn) \<longleftrightarrow>
        conn_status conn \<noteq> STATUS_DEAD \<and> v = STATUS_DEAD)"
  by (cases "conn_status conn"; cases v) (simp_all add: connection_set_status_def Let_def min_def)

text \<open>C28: Receiving does not depend on how the bytes are cut into packets or on interrupted system calls:
  it succeeds exactly when the stream still has the bytes asked for, delivers these and leaves the
  rest.\<close>

theorem raw_recv_chunking:
  assumes "raw_recv n conn = (r, bs, conn')"
  shows "(r = 1 \<longleftrightarrow> n \<le> length (stream (sockin conn)))
    \<and> (r = 1 \<longrightarrow> bs = take n (stream (sockin conn)) \<and> stream (sockin conn') = drop n (stream (sockin conn)))"
proof (cases "n \<le> length (stream (sockin conn))")
  case True
  with raw_recv_loop_stream [OF True, of True "[]"] assms show ?thesis by (auto simp: raw_recv_def)
next
  case False
  with raw_recv_loop_short [of "sockin conn" n True "[]"] assms show ?thesis
    by (auto simp: raw_recv_def split: prod.splits)
qed

theorem raw_recv_chunking_witness:
  "\<exists>bs conn'. raw_recv 3 (new_connection 0 [Rd [1, 2], RdIntr, Rd [3, 4]] [] :: nat connection) = (1, bs, conn') \<and> bs = [1, 2, 3]"
proof -
  let ?conn = "new_connection 0 [Rd [1, 2], RdIntr, Rd [3, 4]] [] :: nat connection"
  obtain r bs conn' where r: "raw_recv 3 ?conn = (r, bs, conn')" by (rule prod_cases3)
  with raw_recv_chunking [OF r] show ?thesis by (simp add: new_connection_def)
qed

text \<open>C29: What a send puts on the wire is a prefix of the buffer, all of it exactly when the send reports
  success.\<close>

theorem raw_send_prefix:
  "\<exists>sent rest. buf = sent @ rest \<and> sockout (snd (raw_send_socket buf conn)) = sockout conn @ sent
     \<and> (fst (raw_send_socket buf conn) = 0 \<longleftrightarrow> out_open conn \<and> rest = [])"
proof (cases "out_open conn")
  case True
  obtain s' sent rest where "raw_send_loop (sockout conn) buf (wscript conn)
      = (if rest = [] then 0 else - 1, sockout conn @ sent, s')" "buf = sent @ rest"
    using raw_send_loop_prefix by blast
  with True show ?thesis by (auto simp: raw_send_socket_def)
next
  case False
  then show ?thesis by (auto simp: raw_send_socket_def intro!: exI [of _ buf])
qed

end
