(* ===== verification/Plugins.thy ===== *)
theory Plugins
  imports Backend
begin

text \<open>
  The plugin layer of \<^verbatim>\<open>src/server/plugins.c\<close>: the innermost backend, which turns the
  optional callbacks of a \<^verbatim>\<open>struct nbdkit_plugin\<close> into the callbacks of a backend.  It supplies the
  defaults of missing callbacks, falls back to the version 1 callbacks, emulates FUA with a flush and
  unsupported zeroing with writes, and finds the error number of a failed callback.

  A plugin is the record of its callbacks; \<^term>\<open>None\<close> is a callback it does not have.  A callback
  works on the \<open>world\<close> of \<^verbatim>\<open>Backend\<close>.
\<close>

subsection \<open>Plugins\<close>

type_synonym 's p_query = "'s world \<Rightarrow> (int \<times> 's world) option"

record 's nbdkit_plugin =
  p_api_version :: int
  p_errno_is_preserved :: int
  p_thread_model0 :: int                  \<comment> \<open>\<^verbatim>\<open>_thread_model\<close>\<close>
  p_thread_model :: "int option"          \<comment> \<open>the answer of \<^verbatim>\<open>.thread_model\<close>\<close>
  p_preconnect :: "(bool \<Rightarrow> 's p_query) option"
  p_list_exports :: "(bool \<Rightarrow> bool \<Rightarrow> nbdkit_exports \<Rightarrow> 's world \<Rightarrow>
    (int \<times> nbdkit_exports \<times> 's world) option) option"
  p_default_export :: "(bool \<Rightarrow> bool \<Rightarrow> 's world \<Rightarrow> (cstring option \<times> 's world) option) option"
  p_open :: "'s world \<Rightarrow> bool \<Rightarrow> (bool \<times> 's world) option"
  p_close :: "('s world \<Rightarrow> 's world option) option"
  p_export_description :: "('s world \<Rightarrow> (cstring option \<times> 's world) option) option"
  p_get_size :: "'s world \<Rightarrow> (u64 \<times> 's world) option"
  p_block_size :: "('s world \<Rightarrow> (int \<times> (u32 \<times> u32 \<times> u32) \<times> 's world) option) option"
  p_can_write :: "'s p_query option"
  p_can_flush :: "'s p_query option"
  p_is_rotational :: "'s p_query option"
  p_can_trim :: "'s p_query option"
  p_can_zero :: "'s p_query option"
  p_can_fast_zero :: "'s p_query option"
  p_can_extents :: "'s p_query option"
  p_can_fua :: "'s p_query option"
  p_can_multi_conn :: "'s p_query option"
  p_can_cache :: "'s p_query option"
  p_pread :: "('s world \<Rightarrow> u32 \<Rightarrow> u64 \<Rightarrow> u32 \<Rightarrow> (int \<times> u8 list \<times> 's world) option) option"
  p_pwrite :: "('s world \<Rightarrow> u8 list \<Rightarrow> u32 \<Rightarrow> u64 \<Rightarrow> u32 \<Rightarrow> (int \<times> 's world) option) option"
  p_flush :: "('s world \<Rightarrow> u32 \<Rightarrow> (int \<times> 's world) option) option"
  p_trim :: "('s world \<Rightarrow> u32 \<Rightarrow> u64 \<Rightarrow> u32 \<Rightarrow> (int \<times> 's world) option) option"
  p_zero :: "('s world \<Rightarrow> u32 \<Rightarrow> u64 \<Rightarrow> u32 \<Rightarrow> (int \<times> 's world) option) option"
  p_extents :: "('s world \<Rightarrow> u32 \<Rightarrow> u64 \<Rightarrow> u32 \<Rightarrow> nbdkit_extents \<Rightarrow>
    (int \<times> nbdkit_extents \<times> 's world) option) option"
  p_cache :: "('s world \<Rightarrow> u32 \<Rightarrow> u64 \<Rightarrow> u32 \<Rightarrow> (int \<times> 's world) option) option"
  p_pread_v1 :: "('s world \<Rightarrow> u32 \<Rightarrow> u64 \<Rightarrow> (int \<times> u8 list \<times> 's world) option) option"
  p_pwrite_v1 :: "('s world \<Rightarrow> u8 list \<Rightarrow> u32 \<Rightarrow> u64 \<Rightarrow> (int \<times> 's world) option) option"
  p_flush_v1 :: "('s world \<Rightarrow> (int \<times> 's world) option) option"
  p_trim_v1 :: "('s world \<Rightarrow> u32 \<Rightarrow> u64 \<Rightarrow> (int \<times> 's world) option) option"
  p_zero_v1 :: "('s world \<Rightarrow> u32 \<Rightarrow> u64 \<Rightarrow> bool \<Rightarrow> (int \<times> 's world) option) option"

text \<open>Run a callback of the plugin on the world of a context.\<close>

definition on_inner :: "('s world \<Rightarrow> ('a \<times> 's world) option) \<Rightarrow> 's ctx \<Rightarrow> ('a \<times> 's ctx) option" where
  "on_inner f c = do { (x, w) \<leftarrow> f (inner c); Some (x, c\<lparr>inner := w\<rparr>) }"

definition plugin_thread_model :: "'s nbdkit_plugin \<Rightarrow> int option" where
  "plugin_thread_model p =
     (case p_thread_model p of
        None \<Rightarrow> Some (p_thread_model0 p)
      | Some r \<Rightarrow> if r = - 1 then None else Some (if r < p_thread_model0 p then r else p_thread_model0 p))"

definition plugin_preconnect :: "'s nbdkit_plugin \<Rightarrow> bool \<Rightarrow> 's world \<Rightarrow> (int \<times> 's world) option" where
  "plugin_preconnect p readonly w =
     (case p_preconnect p of None \<Rightarrow> Some (0, w) | Some f \<Rightarrow> f readonly w)"

definition plugin_list_exports :: "'s nbdkit_plugin \<Rightarrow> bool \<Rightarrow> bool \<Rightarrow> nbdkit_exports \<Rightarrow> 's world \<Rightarrow>
    (int \<times> nbdkit_exports \<times> 's world) option" where
  "plugin_list_exports p readonly is_tls exps w =
     (case p_list_exports p of
        None \<Rightarrow> (case nbdkit_use_default_export exps of (r, exps) \<Rightarrow> Some (r, exps, w))
      | Some f \<Rightarrow> f readonly is_tls exps w)"

definition plugin_default_export ::
  "'s nbdkit_plugin \<Rightarrow> bool \<Rightarrow> bool \<Rightarrow> 's world \<Rightarrow> (cstring option \<times> 's world) option" where
  "plugin_default_export p readonly is_tls w =
     (case p_default_export p of None \<Rightarrow> Some (Some [], w) | Some f \<Rightarrow> f readonly is_tls w)"

definition plugin_open ::
  "'s nbdkit_plugin \<Rightarrow> 's ctx \<Rightarrow> bool \<Rightarrow> cstring \<Rightarrow> bool \<Rightarrow> (bool \<times> 's ctx) option" where
  "plugin_open p c readonly exportname is_tls = do {
     c_assert (conn_exportname (inner c) = None);
     (h, w) \<leftarrow> p_open p ((inner c)\<lparr>conn_exportname := Some exportname\<rparr>) readonly;
     Some (h, c\<lparr>inner := if h then w else w\<lparr>conn_exportname := None\<rparr>\<rparr>)
   }"

definition plugin_prepare :: "'s ctx \<Rightarrow> bool \<Rightarrow> (int \<times> 's ctx) option" where
  "plugin_prepare c readonly = Some (0, c)"

definition plugin_finalize :: "'s query" where
  "plugin_finalize c = Some (0, c)"

definition plugin_close :: "'s nbdkit_plugin \<Rightarrow> 's ctx \<Rightarrow> 's world option" where
  "plugin_close p c = do {
     c_assert (handle c);
     w \<leftarrow> (case p_close p of None \<Rightarrow> Some (inner c) | Some f \<Rightarrow> f (inner c));
     Some (w\<lparr>conn_exportname := None\<rparr>)
   }"

definition plugin_export_description :: "'s nbdkit_plugin \<Rightarrow> 's ctx \<Rightarrow> (cstring option \<times> 's ctx) option" where
  "plugin_export_description p c =
     (case p_export_description p of None \<Rightarrow> Some (None, c) | Some f \<Rightarrow> on_inner f c)"

definition plugin_get_size :: "'s nbdkit_plugin \<Rightarrow> 's ctx \<Rightarrow> (u64 \<times> 's ctx) option" where
  "plugin_get_size p c = on_inner (p_get_size p) c"

definition block_sizes_valid :: "u32 \<Rightarrow> u32 \<Rightarrow> u32 \<Rightarrow> bool" where
  "block_sizes_valid minimum preferred maximum \<longleftrightarrow>
     (if minimum = 0 \<and> preferred = 0 \<and> maximum = 0 then True
      else if minimum < 1 \<or> minimum > 65536 then False
      else if \<not> is_power_of_2 (ucast minimum :: u64) then False
      else if \<not> is_power_of_2 (ucast preferred :: u64) then False
      else if preferred < 512 \<or> preferred > 32 * 1024 * 1024 then False
      else if maximum \<noteq> - 1 \<and> maximum mod minimum \<noteq> 0 then False
      else if minimum > preferred \<or> preferred > maximum then False
      else True)"

definition plugin_block_size :: "'s nbdkit_plugin \<Rightarrow> 's ctx \<Rightarrow> (int \<times> (u32 \<times> u32 \<times> u32) \<times> 's ctx) option" where
  "plugin_block_size p c =
     (case p_block_size p of
        None \<Rightarrow> Some (0, (0, 0, 0), c)
      | Some f \<Rightarrow> do {
          (r, (minimum, preferred, maximum), w) \<leftarrow> f (inner c);
          let c = c\<lparr>inner := w\<rparr>;
          (if r = - 1 then Some (- 1, (minimum, preferred, maximum), c)
           else if block_sizes_valid minimum preferred maximum
             then Some (0, (minimum, preferred, maximum), c)
             else Some (- 1, (minimum, preferred, maximum), c))
        })"

definition normalize_bool :: "int \<Rightarrow> int" where
  "normalize_bool value = (if value = - 1 \<or> value = 0 then value else 1)"

definition of_flag :: "bool \<Rightarrow> int" where
  "of_flag b = (if b then 1 else 0)"

text \<open>The common shape of a boolean query: the callback's answer made 0 or 1, or a default.\<close>

definition plugin_bool_query :: "'s p_query option \<Rightarrow> int \<Rightarrow> 's query" where
  "plugin_bool_query q dflt c =
     (case q of None \<Rightarrow> Some (dflt, c)
      | Some f \<Rightarrow> do { (r, c) \<leftarrow> on_inner f c; Some (normalize_bool r, c) })"

definition plugin_can_write :: "'s nbdkit_plugin \<Rightarrow> 's query" where
  "plugin_can_write p = plugin_bool_query (p_can_write p) (of_flag (p_pwrite p \<noteq> None \<or> p_pwrite_v1 p \<noteq> None))"

definition plugin_can_flush :: "'s nbdkit_plugin \<Rightarrow> 's query" where
  "plugin_can_flush p = plugin_bool_query (p_can_flush p) (of_flag (p_flush p \<noteq> None \<or> p_flush_v1 p \<noteq> None))"

definition plugin_is_rotational :: "'s nbdkit_plugin \<Rightarrow> 's query" where
  "plugin_is_rotational p = plugin_bool_query (p_is_rotational p) 0"

definition plugin_can_trim :: "'s nbdkit_plugin \<Rightarrow> 's query" where
  "plugin_can_trim p = plugin_bool_query (p_can_trim p) (of_flag (p_trim p \<noteq> None \<or> p_trim_v1 p \<noteq> None))"

definition plugin_can_zero :: "'s nbdkit_plugin \<Rightarrow> 's query" where
  "plugin_can_zero p c =
     (case p_can_zero p of
        Some f \<Rightarrow> do {
          (r, c) \<leftarrow> on_inner f c;
          Some (if r = - 1 then - 1 else if r \<noteq> 0 then NBDKIT_ZERO_NATIVE else NBDKIT_ZERO_EMULATE, c)
        }
      | None \<Rightarrow> Some (if p_zero p \<noteq> None \<or> p_zero_v1 p \<noteq> None then NBDKIT_ZERO_NATIVE
                     else NBDKIT_ZERO_EMULATE, c))"

definition plugin_can_extents :: "'s nbdkit_plugin \<Rightarrow> 's query" where
  "plugin_can_extents p = plugin_bool_query (p_can_extents p) (of_flag (p_extents p \<noteq> None))"

definition plugin_can_fua :: "'s nbdkit_plugin \<Rightarrow> 's query" where
  "plugin_can_fua p c =
     (case p_can_fua p of
        Some f \<Rightarrow> do {
          (r, c) \<leftarrow> on_inner f c;
          Some (if r > NBDKIT_FUA_EMULATE \<and> p_api_version p = 1 then NBDKIT_FUA_EMULATE else r, c)
        }
      | None \<Rightarrow> Some (if p_flush p \<noteq> None \<or> p_flush_v1 p \<noteq> None then NBDKIT_FUA_EMULATE
                     else NBDKIT_FUA_NONE, c))"

definition plugin_can_multi_conn :: "'s nbdkit_plugin \<Rightarrow> 's query" where
  "plugin_can_multi_conn p = plugin_bool_query (p_can_multi_conn p) 0"

definition plugin_can_cache :: "'s nbdkit_plugin \<Rightarrow> 's query" where
  "plugin_can_cache p c =
     (case p_can_cache p of
        Some f \<Rightarrow> on_inner f c
      | None \<Rightarrow> Some (if p_cache p \<noteq> None then NBDKIT_CACHE_NATIVE else NBDKIT_CACHE_NONE, c))"

definition plugin_caps :: "'s nbdkit_plugin \<Rightarrow> 's backend_caps" where
  "plugin_caps p =
     \<lparr>b_open = plugin_open p, b_prepare = plugin_prepare, b_finalize = plugin_finalize,
      b_close = plugin_close p, b_list_exports = plugin_list_exports p, b_default_export = plugin_default_export p,
      b_export_description = plugin_export_description p, b_get_size = plugin_get_size p,
      b_block_size = plugin_block_size p, b_can_write = plugin_can_write p,
      b_can_flush = plugin_can_flush p, b_is_rotational = plugin_is_rotational p,
      b_can_trim = plugin_can_trim p, b_can_zero = plugin_can_zero p,
      b_can_extents = plugin_can_extents p, b_can_fua = plugin_can_fua p,
      b_can_multi_conn = plugin_can_multi_conn p, b_can_cache = plugin_can_cache p\<rparr>"

definition plugin_can_fast_zero :: "'s nbdkit_plugin \<Rightarrow> 's query" where
  "plugin_can_fast_zero p c =
     (case p_can_fast_zero p of
        Some f \<Rightarrow> do { (r, c) \<leftarrow> on_inner f c; Some (normalize_bool r, c) }
      | None \<Rightarrow>
          if p_zero p = None then Some (1, c)
          else do {
            (r, c) \<leftarrow> backend_can_zero (plugin_caps p) c;
            Some (if r = - 1 then - 1 else of_flag (r = 0), c)
          })"

subsection \<open>Data operations\<close>

definition get_errno :: "'s nbdkit_plugin \<Rightarrow> 's world \<Rightarrow> int" where
  "get_errno p w =
     (let ret = tl_errno w;
          ret = (if ret = 0 \<and> p_errno_is_preserved p \<noteq> 0 then c_errno w else ret) in
      if ret \<noteq> 0 then ret else EIO)"

definition plugin_pread :: "'s nbdkit_plugin \<Rightarrow> 's ctx \<Rightarrow> u32 \<Rightarrow> u64 \<Rightarrow> u32 \<Rightarrow> int \<Rightarrow>
    (int \<times> u8 list \<times> int \<times> 's ctx) option" where
  "plugin_pread p c count off flags err = do {
     (r, buf, w) \<leftarrow>
       (case p_pread p of
          Some f \<Rightarrow> f (inner c) count off 0
        | None \<Rightarrow> (case p_pread_v1 p of Some f \<Rightarrow> f (inner c) count off | None \<Rightarrow> None));
     Some (r, buf, if r = - 1 then get_errno p w else err, c\<lparr>inner := w\<rparr>)
   }"

definition plugin_flush :: "'s nbdkit_plugin \<Rightarrow> 's ctx \<Rightarrow> u32 \<Rightarrow> int \<Rightarrow> (int \<times> int \<times> 's ctx) option" where
  "plugin_flush p c flags err =
     (let call = (\<lambda>res. do {
            (r, w) \<leftarrow> res;
            Some (r, if r = - 1 then get_errno p w else err, c\<lparr>inner := w\<rparr>) }) in
      case p_flush p of
        Some f \<Rightarrow> call (f (inner c) 0)
      | None \<Rightarrow> (case p_flush_v1 p of
          Some f \<Rightarrow> call (f (inner c))
        | None \<Rightarrow> Some (- 1, EINVAL, c)))"

text \<open>
  The shared tail of write, trim and zero: flush if FUA is emulated, and find an error number unless
  one was stored already.
\<close>

definition plugin_done :: "'s nbdkit_plugin \<Rightarrow> bool \<Rightarrow> int \<Rightarrow> int \<Rightarrow> 's ctx \<Rightarrow> (int \<times> int \<times> 's ctx) option" where
  "plugin_done p need_flush r err c = do {
     (r, err, c) \<leftarrow> (if r \<noteq> - 1 \<and> need_flush then plugin_flush p c 0 err else Some (r, err, c));
     Some (r, if r = - 1 \<and> err = 0 then get_errno p (inner c) else err, c)
   }"

text \<open>The test for emulated FUA: the flags without FUA and the need to flush.\<close>

definition plugin_fua :: "'s nbdkit_plugin \<Rightarrow> 's ctx \<Rightarrow> u32 \<Rightarrow> (u32 \<times> bool \<times> 's ctx) option" where
  "plugin_fua p c flags =
     (if has flags NBDKIT_FLAG_FUA then do {
        (r, c) \<leftarrow> backend_can_fua (plugin_caps p) c;
        Some (if r \<noteq> NBDKIT_FUA_NATIVE then (flags AND NOT NBDKIT_FLAG_FUA, True, c)
              else (flags, False, c)) }
      else Some (flags, False, c))"

definition plugin_pwrite :: "'s nbdkit_plugin \<Rightarrow> 's ctx \<Rightarrow> u8 list \<Rightarrow> u32 \<Rightarrow> u64 \<Rightarrow> u32 \<Rightarrow> int \<Rightarrow>
    (int \<times> int \<times> 's ctx) option" where
  "plugin_pwrite p c buf count off flags err = do {
     (flags, need_flush, c) \<leftarrow> plugin_fua p c flags;
     (case p_pwrite p of
        Some f \<Rightarrow> do {
          (r, w) \<leftarrow> f (inner c) buf count off flags;
          plugin_done p need_flush r err (c\<lparr>inner := w\<rparr>) }
      | None \<Rightarrow> (case p_pwrite_v1 p of
          Some f \<Rightarrow> do {
            (r, w) \<leftarrow> f (inner c) buf count off;
            plugin_done p need_flush r err (c\<lparr>inner := w\<rparr>) }
        | None \<Rightarrow> Some (- 1, EROFS, c)))
   }"

definition plugin_trim :: "'s nbdkit_plugin \<Rightarrow> 's io" where
  "plugin_trim p c count off flags err = do {
     (flags, need_flush, c) \<leftarrow> plugin_fua p c flags;
     (case p_trim p of
        Some f \<Rightarrow> do {
          (r, w) \<leftarrow> f (inner c) count off flags;
          plugin_done p need_flush r err (c\<lparr>inner := w\<rparr>) }
      | None \<Rightarrow> (case p_trim_v1 p of
          Some f \<Rightarrow> do {
            (r, w) \<leftarrow> f (inner c) count off;
            plugin_done p need_flush r err (c\<lparr>inner := w\<rparr>) }
        | None \<Rightarrow> Some (- 1, EINVAL, c)))
   }"

text \<open>
  The loop that emulates zeroing with writes.  Each round writes at the same \<open>off\<close>, as the code does:
  it reduces \<^verbatim>\<open>count\<close> but never advances \<^verbatim>\<open>offset\<close>.
\<close>

function plugin_zero_loop :: "'s nbdkit_plugin \<Rightarrow> 's ctx \<Rightarrow> u32 \<Rightarrow> u64 \<Rightarrow> u32 \<Rightarrow> int \<Rightarrow> int \<Rightarrow>
    (int \<times> int \<times> 's ctx) option" where
  "plugin_zero_loop p c count off flags r err =
     (if count = 0 then Some (r, err, c)
      else let limit = min count MAX_REQUEST_SIZE in do {
        (r, err, c) \<leftarrow> plugin_pwrite p c (zeroes (unat limit)) limit off flags err;
        (if r = - 1 then Some (- 1, err, c)
         else plugin_zero_loop p c (count - limit) off flags r err)
      })"
  by pat_completeness auto
termination
  by (relation "measure (\<lambda>(p, c, count, off, flags, r, err). unat count)")
    (auto simp: unat_sub word_le_nat_alt unat_gt_0 min_def)

declare plugin_zero_loop.simps [simp del]

text \<open>From the end of the native attempt: fail fast zeroes, else write zeroes.\<close>

definition plugin_zero_fallback :: "'s nbdkit_plugin \<Rightarrow> 's ctx \<Rightarrow> u32 \<Rightarrow> u64 \<Rightarrow> u32 \<Rightarrow> bool \<Rightarrow> int \<Rightarrow>
    (int \<times> int \<times> 's ctx) option" where
  "plugin_zero_fallback p c count off flags need_flush r =
     (if has flags NBDKIT_FLAG_FAST_ZERO then do {
        c_assert (r = - 1);
        plugin_done p need_flush r EOPNOTSUPP c }
      else do {
        let c = c\<lparr>inner := (inner c)\<lparr>tl_errno := 0\<rparr>\<rparr>;
        (r, err, c) \<leftarrow> plugin_zero_loop p c count off (flags AND NOT NBDKIT_FLAG_MAY_TRIM) r 0;
        plugin_done p need_flush r err c })"

definition plugin_zero :: "'s nbdkit_plugin \<Rightarrow> 's io" where
  "plugin_zero p c count off flags err = do {
     (flags, need_flush, c) \<leftarrow> plugin_fua p c flags;
     (if count = 0 then Some (0, err, c)
      else do {
        (cz, c) \<leftarrow> backend_can_zero (plugin_caps p) c;
        (if cz = NBDKIT_ZERO_NATIVE then
           let c = c\<lparr>inner := (inner c)\<lparr>c_errno := 0\<rparr>\<rparr>;
               attempt = (\<lambda>res. do {
                 (r, w) \<leftarrow> res;
                 let c = c\<lparr>inner := w\<rparr>;
                 let err = (if r = - 1 then get_errno p w else err);
                 (if r = 0 \<or> err \<noteq> EOPNOTSUPP \<and> err \<noteq> ENOTSUP
                  then plugin_done p need_flush r err c
                  else plugin_zero_fallback p c count off flags need_flush r) }) in
           (case p_zero p of
              Some f \<Rightarrow> attempt (f (inner c) count off flags)
            | None \<Rightarrow> (case p_zero_v1 p of
                Some f \<Rightarrow>
                  if has flags NBDKIT_FLAG_FAST_ZERO then Some (- 1, EOPNOTSUPP, c)
                  else attempt (f (inner c) count off (has flags NBDKIT_FLAG_MAY_TRIM))
              | None \<Rightarrow> plugin_zero_fallback p c count off flags need_flush (- 1)))
         else plugin_zero_fallback p c count off flags need_flush (- 1))
      })
   }"

definition plugin_extents :: "'s nbdkit_plugin \<Rightarrow> 's ctx \<Rightarrow> u32 \<Rightarrow> u64 \<Rightarrow> u32 \<Rightarrow> nbdkit_extents \<Rightarrow> int \<Rightarrow>
    (int \<times> int \<times> nbdkit_extents \<times> 's ctx) option" where
  "plugin_extents p c count off flags exts err =
     (case p_extents p of
        None \<Rightarrow> Some (- 1, EINVAL, exts, c)
      | Some f \<Rightarrow> do {
          (r, exts, w) \<leftarrow> f (inner c) count off flags exts;
          let bad = (r \<ge> 0 \<and> nbdkit_extents_count exts < 1);
          let w = (if bad then w\<lparr>tl_errno := EINVAL\<rparr> else w);
          let r = (if bad then - 1 else r);
          Some (r, if r = - 1 then get_errno p w else err, exts, c\<lparr>inner := w\<rparr>)
        })"

definition plugin_cache :: "'s nbdkit_plugin \<Rightarrow> 's io" where
  "plugin_cache p c count off flags err =
     (case p_cache p of
        None \<Rightarrow> Some (0, err, c)
      | Some f \<Rightarrow> do {
          (r, w) \<leftarrow> f (inner c) count off flags;
          Some (r, if r = - 1 then get_errno p w else err, c\<lparr>inner := w\<rparr>)
        })"

definition plugin_backend :: "'s nbdkit_plugin \<Rightarrow> 's backend" where
  "plugin_backend p = backend_caps.extend (plugin_caps p)
     (backend.fields (plugin_can_fast_zero p) (plugin_pread p) (plugin_pwrite p) (plugin_flush p)
       (plugin_trim p) (plugin_zero p) (plugin_extents p) (plugin_cache p))"

subsection \<open>Cached capabilities\<close>

lemma backend_can_fua_cached:
  "connected c \<Longrightarrow> c_can_fua c \<noteq> - 1 \<Longrightarrow> backend_can_fua b c = Some (c_can_fua c, c)"
  by (simp add: backend_can_fua_def)

lemma backend_can_zero_cached:
  "connected c \<Longrightarrow> c_can_zero c \<noteq> - 1 \<Longrightarrow> backend_can_zero b c = Some (c_can_zero c, c)"
  by (simp add: backend_can_zero_def)

lemma has_without_fua:
  "m AND NBDKIT_FLAG_FUA = 0 \<Longrightarrow> has (flags AND NOT NBDKIT_FLAG_FUA) m = has flags m"
  by (auto simp: has_def bit_eq_iff bit_simps)

lemma and_zero_mono: "f AND m = 0 \<Longrightarrow> (f AND x) AND m = 0" for f :: "'a::len word"
  by (metis and.assoc and.commute and_zero_eq)

lemma flags_rest:
  "f AND NOT (a OR b OR c) = 0 \<Longrightarrow> f AND c = 0 \<Longrightarrow> (f AND NOT a) AND NOT b = 0" for f :: "'a::len word"
  by (auto simp: bit_eq_iff bit_and_iff bit_or_iff bit_not_iff)

subsection \<open>The contract of a plugin that serves a disk\<close>

text \<open>A world with the plugin's invariant and error numbers as C has them: never negative.  A callback that wants
  \<^verbatim>\<open>ENOTSUP\<close> leaves it in \<^verbatim>\<open>errno\<close>, not with \<^verbatim>\<open>nbdkit_set_error\<close>.\<close>

definition world_ok :: "('s \<Rightarrow> bool) \<Rightarrow> 's world \<Rightarrow> bool" where
  "world_ok pinv w \<longleftrightarrow> pinv (priv w) \<and> tl_errno w \<ge> 0 \<and> tl_errno w \<noteq> ENOTSUP \<and> c_errno w \<ge> 0"

lemma get_errno_pos: "world_ok pinv w \<Longrightarrow> get_errno p w > 0"
  by (auto simp: get_errno_def world_ok_def Let_def)

lemma world_ok_upd [simp]:
  "e \<ge> 0 \<Longrightarrow> e \<noteq> ENOTSUP \<Longrightarrow> world_ok pinv w \<Longrightarrow> world_ok pinv (w\<lparr>tl_errno := e\<rparr>)"
  "e \<ge> 0 \<Longrightarrow> world_ok pinv w \<Longrightarrow> world_ok pinv (w\<lparr>c_errno := e\<rparr>)"
  by (auto simp: world_ok_def)

text \<open>The outcome of a plugin callback, in the style of \<^const>\<open>io_result\<close>.\<close>

definition cb_result :: "('s \<Rightarrow> bool) \<Rightarrow> ('s \<Rightarrow> disk) \<Rightarrow> 's world \<Rightarrow> nat \<Rightarrow> nat \<Rightarrow> (disk \<Rightarrow> bool) \<Rightarrow>
    ('s world \<Rightarrow> bool) \<Rightarrow> (int \<times> 's world) option \<Rightarrow> bool" where
  "cb_result pinv content w off n P E res \<longleftrightarrow>
     (case res of None \<Rightarrow> False
      | Some (r, w') \<Rightarrow> world_ok pinv w' \<and> same_outside off n (content (priv w)) (content (priv w'))
          \<and> (if r = - 1 then E w' else P (content (priv w'))))"

lemma cb_resultE:
  assumes "cb_result pinv content w off n P E res"
  obtains r w' where "res = Some (r, w')" "world_ok pinv w'"
    "same_outside off n (content (priv w)) (content (priv w'))"
    "if r = - 1 then E w' else P (content (priv w'))"
  using assms that by (auto simp: cb_result_def split: option.splits prod.splits)

text \<open>
  An error number with which a write or a flush may fail.  A plugin with a zero callback may not use \<open>ENOTSUP\<close> there:
  it would come out of the emulated zeroing, where \<^verbatim>\<open>backend_zero\<close> excludes it by an assertion.
\<close>

definition err_ok :: "'s nbdkit_plugin \<Rightarrow> int \<Rightarrow> bool" where
  "err_ok p e \<longleftrightarrow> (p_zero p \<noteq> None \<or> p_zero_v1 p \<noteq> None \<longrightarrow> e \<noteq> ENOTSUP)"

lemma err_okI: "e \<noteq> ENOTSUP \<Longrightarrow> err_ok p e"
  by (simp add: err_ok_def)

text \<open>
  The interface between \<^verbatim>\<open>plugins.c\<close> and a plugin with a disk: what each callback that the plugin
  has must do.  Any callback may fail.  Two laws restrict how: writes and flushes fail with an error number
  that is \<^const>\<open>err_ok\<close>, and a zero callback that declines with \<open>ENOTSUP\<close> does so only for
  requests of at most \<^term>\<open>MAX_REQUEST_SIZE\<close> bytes, because the emulation writes one piece.
\<close>

locale disk_plugin =
  fixes p :: "'s nbdkit_plugin"
    and pinv :: "'s \<Rightarrow> bool"
    and content :: "'s \<Rightarrow> disk"
    and sz :: nat
    and short :: bool
  assumes pread_some: "p_pread p \<noteq> None \<or> p_pread_v1 p \<noteq> None"
    and pread: "p_pread p = Some f \<Longrightarrow> world_ok pinv w \<Longrightarrow> 0 < unat count \<Longrightarrow> unat off + unat count \<le> sz \<Longrightarrow>
      \<exists>r buf w'. f w count off 0 = Some (r, buf, w') \<and> world_ok pinv w' \<and> content (priv w') = content (priv w)
        \<and> (r \<noteq> - 1 \<longrightarrow> buf = disk_read (content (priv w)) (unat off) (unat count))"
    and pread_v1: "p_pread_v1 p = Some g \<Longrightarrow> world_ok pinv w \<Longrightarrow> 0 < unat count \<Longrightarrow> unat off + unat count \<le> sz \<Longrightarrow>
      \<exists>r buf w'. g w count off = Some (r, buf, w') \<and> world_ok pinv w' \<and> content (priv w') = content (priv w)
        \<and> (r \<noteq> - 1 \<longrightarrow> buf = disk_read (content (priv w)) (unat off) (unat count))"
    and pwrite: "p_pwrite p = Some fw \<Longrightarrow> world_ok pinv w \<Longrightarrow> 0 < unat count \<Longrightarrow> unat off + unat count \<le> sz \<Longrightarrow>
      length buf = unat count \<Longrightarrow> flags AND NOT NBDKIT_FLAG_FUA = 0 \<Longrightarrow>
      cb_result pinv content w (unat off) (unat count) (\<lambda>d. d = disk_write (content (priv w)) (unat off) buf)
        (\<lambda>w. err_ok p (get_errno p w)) (fw w buf count off flags)"
    and pwrite_v1: "p_pwrite_v1 p = Some gw \<Longrightarrow> world_ok pinv w \<Longrightarrow> 0 < unat count \<Longrightarrow> unat off + unat count \<le> sz \<Longrightarrow>
      length buf = unat count \<Longrightarrow>
      cb_result pinv content w (unat off) (unat count) (\<lambda>d. d = disk_write (content (priv w)) (unat off) buf)
        (\<lambda>w. err_ok p (get_errno p w)) (gw w buf count off)"
    and flush: "p_flush p = Some ff \<Longrightarrow> world_ok pinv w \<Longrightarrow>
      cb_result pinv content w 0 0 (\<lambda>_. True) (\<lambda>w. err_ok p (get_errno p w)) (ff w 0)"
    and flush_v1: "p_flush_v1 p = Some gf \<Longrightarrow> world_ok pinv w \<Longrightarrow>
      cb_result pinv content w 0 0 (\<lambda>_. True) (\<lambda>w. err_ok p (get_errno p w)) (gf w)"
    and trim: "p_trim p = Some ft \<Longrightarrow> world_ok pinv w \<Longrightarrow> 0 < unat count \<Longrightarrow> unat off + unat count \<le> sz \<Longrightarrow>
      flags AND NOT NBDKIT_FLAG_FUA = 0 \<Longrightarrow>
      cb_result pinv content w (unat off) (unat count) (\<lambda>_. True) (\<lambda>_. True) (ft w count off flags)"
    and trim_v1: "p_trim_v1 p = Some gt \<Longrightarrow> world_ok pinv w \<Longrightarrow> 0 < unat count \<Longrightarrow> unat off + unat count \<le> sz \<Longrightarrow>
      cb_result pinv content w (unat off) (unat count) (\<lambda>_. True) (\<lambda>_. True) (gt w count off)"
    and zero: "p_zero p = Some fz \<Longrightarrow> world_ok pinv w \<Longrightarrow> 0 < unat count \<Longrightarrow> unat off + unat count \<le> sz \<Longrightarrow>
      flags AND NOT (NBDKIT_FLAG_MAY_TRIM OR NBDKIT_FLAG_FUA OR NBDKIT_FLAG_FAST_ZERO) = 0 \<Longrightarrow>
      cb_result pinv content w (unat off) (unat count)
        (\<lambda>d. d = disk_write (content (priv w)) (unat off) (zeroes (unat count)))
        (\<lambda>w. get_errno p w = ENOTSUP \<and> \<not> has flags NBDKIT_FLAG_FAST_ZERO \<longrightarrow> count \<le> MAX_REQUEST_SIZE)
        (fz w count off flags)"
    and zero_v1: "p_zero_v1 p = Some gz \<Longrightarrow> world_ok pinv w \<Longrightarrow> 0 < unat count \<Longrightarrow> unat off + unat count \<le> sz \<Longrightarrow>
      cb_result pinv content w (unat off) (unat count)
        (\<lambda>d. d = disk_write (content (priv w)) (unat off) (zeroes (unat count)))
        (\<lambda>w. get_errno p w = ENOTSUP \<longrightarrow> count \<le> MAX_REQUEST_SIZE) (gz w count off may_trim)"
    and extents: "p_extents p = Some fe \<Longrightarrow> world_ok pinv w \<Longrightarrow> 0 < unat count \<Longrightarrow> unat off + unat count \<le> sz \<Longrightarrow>
      wf_extents exts \<Longrightarrow> extents exts = [] \<Longrightarrow> x_start exts = off \<Longrightarrow> x_next exts = - 1 \<Longrightarrow>
      unat off + unat count \<le> unat (x_end exts) \<Longrightarrow> unat (x_end exts) \<le> sz \<Longrightarrow>
      \<exists>r exts' w'. fe w count off flags exts = Some (r, exts', w') \<and> world_ok pinv w'
        \<and> content (priv w') = content (priv w)
        \<and> (r = - 1 \<or> r \<ge> 0 \<and> wf_extents exts' \<and> x_start exts' = off \<and> x_end exts' = x_end exts
             \<and> (short \<longrightarrow> short_extents exts')
             \<and> (\<forall>i ty. status exts' i = Some ty \<and> has ty NBDKIT_EXTENT_ZERO \<longrightarrow> content (priv w) i = 0))"
    and cache: "p_cache p = Some fc \<Longrightarrow> world_ok pinv w \<Longrightarrow> 0 < unat count \<Longrightarrow> unat off + unat count \<le> sz \<Longrightarrow>
      cb_result pinv content w 0 0 (\<lambda>_. True) (\<lambda>_. True) (fc w count off 0)"
begin

abbreviation winv :: "'s world \<Rightarrow> bool" where "winv \<equiv> world_ok pinv"
abbreviation dsk :: "'s world \<Rightarrow> disk" where "dsk w \<equiv> content (priv w)"

lemma plugin_pread_ok:
  assumes "winv (inner c)" and "0 < unat count" and "unat off + unat count \<le> sz" and "err \<ge> 0"
  shows "read_result winv dsk c (unat off) (unat count) (plugin_pread p c count off 0 err)"
proof (cases "p_pread p")
  case (Some f)
  obtain r buf w' where "f (inner c) count off 0 = Some (r, buf, w')" "winv w'" "dsk w' = dsk (inner c)"
      "r \<noteq> - 1 \<longrightarrow> buf = disk_read (dsk (inner c)) (unat off) (unat count)"
    using pread [OF Some assms(1-3)] by blast
  then show ?thesis using Some assms(4) get_errno_pos [of pinv w' p] by (auto simp: plugin_pread_def)
next
  case None
  then obtain g where g: "p_pread_v1 p = Some g" using pread_some by auto
  obtain r buf w' where "g (inner c) count off = Some (r, buf, w')" "winv w'" "dsk w' = dsk (inner c)"
      "r \<noteq> - 1 \<longrightarrow> buf = disk_read (dsk (inner c)) (unat off) (unat count)"
    using pread_v1 [OF g assms(1-3)] by blast
  then show ?thesis using None g assms(4) get_errno_pos [of pinv w' p] by (auto simp: plugin_pread_def)
qed

lemma plugin_flush_ok:
  assumes "winv (inner c)" and "err \<ge> 0"
  shows "io_result winv dsk c 0 0 (\<lambda>_. True) (err_ok p) (plugin_flush p c 0 err)"
proof -
  have call: "io_result winv dsk c 0 0 (\<lambda>_. True) (err_ok p)
      (do { (r, w) \<leftarrow> res; Some (r, if r = - 1 then get_errno p w else err, c\<lparr>inner := w\<rparr>) })"
    if "cb_result pinv content (inner c) 0 0 (\<lambda>_. True) (\<lambda>w. err_ok p (get_errno p w)) res" for res
    using that assms(2) get_errno_pos [of pinv _ p] by (force elim!: cb_resultE split: if_splits)
  show ?thesis
    using assms flush [OF _ assms(1)] flush_v1 [OF _ assms(1)]
    by (auto simp: plugin_flush_def Let_def intro!: call err_okI split: option.splits)
qed

lemma plugin_done_ok:
  assumes w: "winv w" and so: "same_outside off n (dsk (inner c)) (dsk w)" and err: "err \<ge> 0"
    and ok: "r \<noteq> - 1 \<Longrightarrow> P (dsk w)"
    and fail: "r = - 1 \<Longrightarrow> (if err = 0 then E (get_errno p w) else E err)"
    and E: "\<And>e. err_ok p e \<Longrightarrow> E e"
  shows "io_result winv dsk c off n P E (plugin_done p nf r err (c\<lparr>inner := w\<rparr>))"
proof (cases "r \<noteq> - 1 \<and> nf")
  case True
  have "io_result winv dsk (c\<lparr>inner := w\<rparr>) 0 0 (\<lambda>_. True) (err_ok p) (plugin_flush p (c\<lparr>inner := w\<rparr>) 0 err)"
    using w err by (intro plugin_flush_ok) auto
  then show ?thesis using True so ok E by (auto simp: plugin_done_def elim!: io_resultE)
next
  case False
  then show ?thesis
    using w so err ok fail get_errno_pos [OF w, of p] by (auto simp: plugin_done_def split: if_splits)
qed

lemma plugin_fua_ok:
  assumes "negotiated sz c" and "c_can_fua c > 0 \<or> \<not> has flags NBDKIT_FLAG_FUA"
  obtains fl nf where "plugin_fua p c flags = Some (fl, nf, c)"
    "\<And>m. flags AND m = 0 \<Longrightarrow> fl AND m = 0" "\<And>m. m AND NBDKIT_FLAG_FUA = 0 \<Longrightarrow> has fl m = has flags m"
proof -
  have "connected c" "c_can_fua c \<noteq> - 1" using assms(1) by (auto simp: negotiated_def)
  then have "plugin_fua p c flags = Some (if has flags NBDKIT_FLAG_FUA \<and> c_can_fua c \<noteq> NBDKIT_FUA_NATIVE
      then (flags AND NOT NBDKIT_FLAG_FUA, True, c) else (flags, False, c))"
    by (simp add: plugin_fua_def backend_can_fua_cached)
  then show thesis
    using that [of "flags AND NOT NBDKIT_FLAG_FUA" True] that [of flags False] has_without_fua [of _ flags]
    by (auto intro: and_zero_mono split: if_splits)
qed

lemma cb_done_ok:
  assumes "cb_result pinv content (inner c) off n P E res" and "err \<ge> 0"
    and "err > 0 \<Longrightarrow> F err" and "\<And>w. E w \<Longrightarrow> F (get_errno p w)" and "\<And>e. err_ok p e \<Longrightarrow> F e"
  shows "io_result winv dsk c off n P F
    (do { (r, w) \<leftarrow> res; plugin_done p nf r err (c\<lparr>inner := w\<rparr>) })"
  using assms(1)
proof (rule cb_resultE)
  fix r w assume w: "res = Some (r, w)" "winv w" "same_outside off n (dsk (inner c)) (dsk w)"
    "if r = - 1 then E w else P (dsk w)"
  have "io_result winv dsk c off n P F (plugin_done p nf r err (c\<lparr>inner := w\<rparr>))"
    using w assms(2-5) by (intro plugin_done_ok) auto
  with w(1) show ?thesis by simp
qed

lemma plugin_pwrite_ok:
  assumes "negotiated sz c" and "winv (inner c)" and "0 < unat count" and "unat off + unat count \<le> sz"
    and "err \<ge> 0" and "c_can_fua c > 0 \<or> \<not> has flags NBDKIT_FLAG_FUA" and "length buf = unat count"
    and "flags AND NOT NBDKIT_FLAG_FUA = 0"
    and "err > 0 \<Longrightarrow> F err" and "\<And>e. err_ok p e \<Longrightarrow> F e"
  shows "io_result winv dsk c (unat off) (unat count) (\<lambda>d. d = disk_write (dsk (inner c)) (unat off) buf)
    F (plugin_pwrite p c buf count off flags err)"
proof -
  obtain fl nf where f: "plugin_fua p c flags = Some (fl, nf, c)" "fl AND NOT NBDKIT_FLAG_FUA = 0"
    using plugin_fua_ok [OF assms(1,6)] assms(8) by metis
  note fin = cb_done_ok [OF _ assms(5), where F = F]
  show ?thesis
    using pwrite [OF _ assms(2-4,7) f(2)] pwrite_v1 [OF _ assms(2-4,7)] assms(2,9,10) assms(10) [OF err_okI [of EROFS]]
    by (auto simp: plugin_pwrite_def f(1) intro!: fin split: option.splits)
qed

lemma plugin_trim_ok:
  assumes "negotiated sz c" and "winv (inner c)" and "0 < unat count" and "unat off + unat count \<le> sz"
    and "err \<ge> 0" and "c_can_fua c > 0 \<or> \<not> has flags NBDKIT_FLAG_FUA"
    and "flags AND NOT NBDKIT_FLAG_FUA = 0"
  shows "io_result winv dsk c (unat off) (unat count) (\<lambda>_. True) (\<lambda>_. True) (plugin_trim p c count off flags err)"
proof -
  obtain fl nf where f: "plugin_fua p c flags = Some (fl, nf, c)" "fl AND NOT NBDKIT_FLAG_FUA = 0"
    using plugin_fua_ok [OF assms(1,6)] assms(7) by metis
  note fin = cb_done_ok [OF _ assms(5), where F = "\<lambda>_. True"]
  show ?thesis
    using trim [OF _ assms(2-4) f(2)] trim_v1 [OF _ assms(2-4)] assms(2)
    by (auto simp: plugin_trim_def f(1) intro!: fin split: option.splits)
qed

lemma plugin_extents_ok:
  assumes "winv (inner c)" and "0 < unat count" and "unat off + unat count \<le> sz" and "err \<ge> 0"
    and "wf_extents exts" and "extents exts = []" and "x_start exts = off" and "x_next exts = - 1"
    and "unat off + unat count \<le> unat (x_end exts)" and "unat (x_end exts) \<le> sz"
  shows "extents_result short winv dsk c exts (plugin_extents p c count off flags exts err)"
proof (cases "p_extents p")
  case None
  with assms(1) show ?thesis by (simp add: plugin_extents_def extents_result_def)
next
  case (Some f)
  obtain r exts' w' where w: "f (inner c) count off flags exts = Some (r, exts', w')" "winv w'"
      "dsk w' = dsk (inner c)"
      "r = - 1 \<or> r \<ge> 0 \<and> wf_extents exts' \<and> x_start exts' = off \<and> x_end exts' = x_end exts
         \<and> (short \<longrightarrow> short_extents exts') \<and> (\<forall>i ty. status exts' i = Some ty \<and> has ty NBDKIT_EXTENT_ZERO \<longrightarrow> dsk (inner c) i = 0)"
    using extents [OF Some assms(1-3,5-10)] by blast
  have pos: "get_errno p w' > 0" "get_errno p (w'\<lparr>tl_errno := EINVAL\<rparr>) > 0"
    using w(2) get_errno_pos [of pinv _ p] by auto
  show ?thesis
    using w Some assms(4,7) pos
    by (auto simp: plugin_extents_def nbdkit_extents_count_def Let_def Suc_le_eq)
qed

lemma plugin_cache_ok:
  assumes "winv (inner c)" and "0 < unat count" and "unat off + unat count \<le> sz" and "err \<ge> 0"
  shows "io_result winv dsk c 0 0 (\<lambda>_. True) (\<lambda>_. True) (plugin_cache p c count off 0 err)"
proof (cases "p_cache p")
  case (Some f)
  show ?thesis
    using cache [OF Some assms(1-3)] assms(4) get_errno_pos [of pinv _ p] Some
    by (force simp: plugin_cache_def elim!: cb_resultE split: if_splits)
qed (use assms in \<open>simp add: plugin_cache_def\<close>)


lemma plugin_zero_fallback_ok:
  assumes nz: "p_zero p \<noteq> None \<or> p_zero_v1 p \<noteq> None" and "negotiated sz c" and w: "winv w" "same_outside (unat off) (unat count) (dsk (inner c)) (dsk w)"
    and "0 < unat count" and "unat off + unat count \<le> sz"
    and "c_can_fua c > 0 \<or> \<not> has flags NBDKIT_FLAG_FUA"
    and fl0: "flags AND NOT (NBDKIT_FLAG_MAY_TRIM OR NBDKIT_FLAG_FUA OR NBDKIT_FLAG_FAST_ZERO) = 0"
    and small: "\<not> has flags NBDKIT_FLAG_FAST_ZERO \<Longrightarrow> count \<le> MAX_REQUEST_SIZE"
  shows "io_result winv dsk c (unat off) (unat count)
    (\<lambda>d. d = disk_write (dsk (inner c)) (unat off) (zeroes (unat count)))
    (\<lambda>e. has flags NBDKIT_FLAG_FAST_ZERO \<or> e \<noteq> ENOTSUP)
    (plugin_zero_fallback p (c\<lparr>inner := w\<rparr>) count off flags nf (- 1))"
proof (cases "has flags NBDKIT_FLAG_FAST_ZERO")
  case True
  then show ?thesis using w by (simp add: plugin_zero_fallback_def) (rule plugin_done_ok; simp)
next
  case False
  define c0 where "c0 = c\<lparr>inner := w\<lparr>tl_errno := 0\<rparr>\<rparr>"
  define fl where "fl = flags AND NOT NBDKIT_FLAG_MAY_TRIM"
  have neg: "negotiated sz c0" and w0: "winv (inner c0)" "dsk (inner c0) = dsk w"
    using assms(2) w by (simp_all add: c0_def)
  have fl1: "fl AND NOT NBDKIT_FLAG_FUA = 0"
    unfolding fl_def by (rule flags_rest [OF fl0]) (use False in \<open>simp add: has_def\<close>)
  have "c_can_fua c0 > 0 \<or> \<not> has fl NBDKIT_FLAG_FUA"
    using assms(7) by (auto simp: c0_def fl_def has_def ac_simps)
  then have "io_result winv dsk c0 (unat off) (unat count)
      (\<lambda>d. d = disk_write (dsk (inner c0)) (unat off) (zeroes (unat count))) (\<lambda>e. e \<noteq> ENOTSUP)
      (plugin_pwrite p c0 (zeroes (unat count)) count off fl 0)"
    using neg w0(1) assms(5,6) fl1 by (intro plugin_pwrite_ok) (use nz in \<open>auto simp: err_ok_def\<close>)
  then obtain r err w1 where r: "plugin_pwrite p c0 (zeroes (unat count)) count off fl 0
        = Some (r, err, c0\<lparr>inner := w1\<rparr>)" "winv w1" "err \<ge> 0"
      "same_outside (unat off) (unat count) (dsk (inner c0)) (dsk w1)"
      "if r = - 1 then err > 0 \<and> err \<noteq> ENOTSUP else dsk w1 = disk_write (dsk (inner c0)) (unat off) (zeroes (unat count))"
    by (rule io_resultE)
  have lim: "min count MAX_REQUEST_SIZE = count" "count \<noteq> 0"
    using small [OF False] assms(5) by auto
  have c1: "c0\<lparr>inner := w1\<rparr> = c\<lparr>inner := w1\<rparr>" by (simp add: c0_def)
  have loop: "plugin_zero_loop p c0 count off fl (- 1) 0 = Some (r, err, c\<lparr>inner := w1\<rparr>)"
    using r(1) lim by (simp add: plugin_zero_loop.simps [of p _ count] plugin_zero_loop.simps [of p _ 0] c1)
  have "disk_write (dsk w) (unat off) (zeroes (unat count)) = disk_write (dsk (inner c)) (unat off) (zeroes (unat count))"
    using w(2) by (rule disk_write_same_outside) simp
  then have "io_result winv dsk c (unat off) (unat count)
      (\<lambda>d. d = disk_write (dsk (inner c)) (unat off) (zeroes (unat count))) (\<lambda>e. e \<noteq> ENOTSUP)
      (plugin_done p nf r err (c\<lparr>inner := w1\<rparr>))"
    using r w(2) w0(2) nz by (intro plugin_done_ok) (auto simp: same_outside_def err_ok_def split: if_splits)
  moreover have "flags AND - 2 = fl" by (simp add: fl_def)
  ultimately show ?thesis
    using False loop by (simp add: plugin_zero_fallback_def Let_def flip: c0_def)
qed

lemma plugin_zero_attempt_ok:
  assumes nz: "p_zero p \<noteq> None \<or> p_zero_v1 p \<noteq> None" and "negotiated sz c" and "winv (inner c)" and "0 < unat count" and "unat off + unat count \<le> sz"
    and "err \<ge> 0" and "err \<noteq> ENOTSUP" and "c_can_fua c > 0 \<or> \<not> has flags NBDKIT_FLAG_FUA"
    and "flags AND NOT (NBDKIT_FLAG_MAY_TRIM OR NBDKIT_FLAG_FUA OR NBDKIT_FLAG_FAST_ZERO) = 0"
    and "cb_result pinv content (inner c) (unat off) (unat count)
      (\<lambda>d. d = disk_write (dsk (inner c)) (unat off) (zeroes (unat count)))
      (\<lambda>w. get_errno p w = ENOTSUP \<and> \<not> has flags NBDKIT_FLAG_FAST_ZERO \<longrightarrow> count \<le> MAX_REQUEST_SIZE) res"
  shows "io_result winv dsk c (unat off) (unat count)
    (\<lambda>d. d = disk_write (dsk (inner c)) (unat off) (zeroes (unat count)))
    (\<lambda>e. has flags NBDKIT_FLAG_FAST_ZERO \<or> e \<noteq> ENOTSUP)
    (do {
       (r, w) \<leftarrow> res;
       let c = c\<lparr>inner := w\<rparr>;
       let err = (if r = - 1 then get_errno p w else err);
       (if r = 0 \<or> err \<noteq> EOPNOTSUPP \<and> err \<noteq> ENOTSUP
        then plugin_done p nf r err c
        else plugin_zero_fallback p c count off flags nf r) })"
  using assms(10)
proof (rule cb_resultE)
  fix r w assume w: "res = Some (r, w)" "winv w"
    "same_outside (unat off) (unat count) (dsk (inner c)) (dsk w)"
    "if r = - 1 then get_errno p w = ENOTSUP \<and> \<not> has flags NBDKIT_FLAG_FAST_ZERO \<longrightarrow> count \<le> MAX_REQUEST_SIZE
     else dsk w = disk_write (dsk (inner c)) (unat off) (zeroes (unat count))"
  show ?thesis
  proof (cases "r = - 1 \<and> get_errno p w = ENOTSUP")
    case True
    then have "io_result winv dsk c (unat off) (unat count)
        (\<lambda>d. d = disk_write (dsk (inner c)) (unat off) (zeroes (unat count)))
        (\<lambda>e. has flags NBDKIT_FLAG_FAST_ZERO \<or> e \<noteq> ENOTSUP)
        (plugin_zero_fallback p (c\<lparr>inner := w\<rparr>) count off flags nf (- 1))"
      using w assms by (intro plugin_zero_fallback_ok) auto
    with True w(1) show ?thesis by simp
  next
    case False
    define e where "e = (if r = - 1 then get_errno p w else err)"
    have e: "e \<noteq> ENOTSUP" "e \<ge> 0" "r = - 1 \<Longrightarrow> e > 0"
      using False assms(6,7) get_errno_pos [OF w(2), of p] by (auto simp: e_def)
    have "io_result winv dsk c (unat off) (unat count)
        (\<lambda>d. d = disk_write (dsk (inner c)) (unat off) (zeroes (unat count)))
        (\<lambda>e. has flags NBDKIT_FLAG_FAST_ZERO \<or> e \<noteq> ENOTSUP) (plugin_done p nf r e (c\<lparr>inner := w\<rparr>))"
      using w e nz by (intro plugin_done_ok) (auto simp: err_ok_def)
    with w(1) e(1) show ?thesis by (simp flip: e_def)
  qed
qed

lemma plugin_zero_ok:
  assumes "p_zero p \<noteq> None \<or> p_zero_v1 p \<noteq> None"
    and "negotiated sz c" and "winv (inner c)" and "0 < unat count" and "unat off + unat count \<le> sz"
    and "err \<ge> 0" and "err \<noteq> ENOTSUP" and "c_can_zero c = NBDKIT_ZERO_NATIVE"
    and "c_can_fua c > 0 \<or> \<not> has flags NBDKIT_FLAG_FUA"
    and "flags AND NOT (NBDKIT_FLAG_MAY_TRIM OR NBDKIT_FLAG_FUA OR NBDKIT_FLAG_FAST_ZERO) = 0"
  shows "io_result winv dsk c (unat off) (unat count)
    (\<lambda>d. d = disk_write (dsk (inner c)) (unat off) (zeroes (unat count)))
    (\<lambda>e. has flags NBDKIT_FLAG_FAST_ZERO \<or> e \<noteq> ENOTSUP) (plugin_zero p c count off flags err)"
proof -
  obtain fl nf where f': "plugin_fua p c flags = Some (fl, nf, c)"
    and mask: "\<And>m. flags AND m = 0 \<Longrightarrow> fl AND m = 0"
    and keep: "\<And>m. m AND NBDKIT_FLAG_FUA = 0 \<Longrightarrow> has fl m = has flags m"
    using plugin_fua_ok [OF assms(2,9)] by metis
  have fast: "has fl NBDKIT_FLAG_FAST_ZERO = has flags NBDKIT_FLAG_FAST_ZERO" by (rule keep) simp
  have fl0: "fl AND NOT (NBDKIT_FLAG_MAY_TRIM OR NBDKIT_FLAG_FUA OR NBDKIT_FLAG_FAST_ZERO) = 0"
    by (rule mask [OF assms(10)])
  have fua: "c_can_fua c > 0 \<or> \<not> has fl NBDKIT_FLAG_FUA"
    using assms(9) mask [of NBDKIT_FLAG_FUA] by (auto simp: has_def)
  define c0 where "c0 = c\<lparr>inner := (inner c)\<lparr>c_errno := 0\<rparr>\<rparr>"
  have c0: "negotiated sz c0" "winv (inner c0)" "dsk (inner c0) = dsk (inner c)" "c_can_fua c0 = c_can_fua c"
    using assms(2,3) by (simp_all add: c0_def)
  have res: "io_result winv dsk c off' n P E r" if "io_result winv dsk c0 off' n P E r" for off' n P E r
    using that by (auto simp: io_result_def c0_def split: option.splits prod.splits)
  have cz: "backend_can_zero (plugin_caps p) c = Some (NBDKIT_ZERO_NATIVE, c)"
    using negotiatedD [OF assms(2)] assms(8) by (simp add: backend_can_zero_cached)
  have v1: "io_result winv dsk c (unat off) (unat count)
    (\<lambda>d. d = disk_write (dsk (inner c)) (unat off) (zeroes (unat count)))
    (\<lambda>e. has flags NBDKIT_FLAG_FAST_ZERO \<or> e \<noteq> ENOTSUP) (Some (- 1, EOPNOTSUPP, c0))"
    if "has flags NBDKIT_FLAG_FAST_ZERO"
    using that c0 by (auto intro!: res)
  have cnt: "count \<noteq> 0" using assms(4) by auto
  note att = plugin_zero_attempt_ok [OF assms(1) c0(1,2) assms(4-7), of fl, unfolded c0(3,4) fast, OF fua fl0]
  show ?thesis
  proof (cases "p_zero p")
    case (Some fz)
    with res [OF att [OF zero [OF Some c0(2) assms(4,5) fl0, unfolded c0(3) fast], of nf]]
    show ?thesis
      using cnt by (simp add: plugin_zero_def f' cz Let_def c0_def cong: if_cong)
  next
    case None
    then obtain gz where gz: "p_zero_v1 p = Some gz" using assms(1) by auto
    show ?thesis
    proof (cases "has flags NBDKIT_FLAG_FAST_ZERO")
      case True
      with v1 None gz cnt fast show ?thesis by (simp add: plugin_zero_def f' cz Let_def c0_def cong: if_cong)
    next
      case False
      have "cb_result pinv content (inner c0) (unat off) (unat count)
          (\<lambda>d. d = disk_write (dsk (inner c)) (unat off) (zeroes (unat count)))
          (\<lambda>w. get_errno p w = ENOTSUP \<and> \<not> has flags NBDKIT_FLAG_FAST_ZERO \<longrightarrow> count \<le> MAX_REQUEST_SIZE)
          (gz (inner c0) count off (has fl NBDKIT_FLAG_MAY_TRIM))"
        using zero_v1 [OF gz c0(2) assms(4,5)] False c0(3) by simp
      from res [OF att [OF this, of nf]] False None gz cnt fast show ?thesis
        by (simp add: plugin_zero_def f' cz Let_def c0_def cong: if_cong)
    qed
  qed
qed

end

subsection \<open>The plugin layer keeps the contract of a backend\<close>

lemma plugin_backend_sel [simp]:
  "b_pread (plugin_backend p) = plugin_pread p" "b_pwrite (plugin_backend p) = plugin_pwrite p"
  "b_flush (plugin_backend p) = plugin_flush p" "b_trim (plugin_backend p) = plugin_trim p"
  "b_zero (plugin_backend p) = plugin_zero p" "b_extents (plugin_backend p) = plugin_extents p"
  "b_cache (plugin_backend p) = plugin_cache p" "b_can_fast_zero (plugin_backend p) = plugin_can_fast_zero p"
  "backend_caps.truncate (plugin_backend p) = plugin_caps p"
  by (simp_all add: plugin_backend_def plugin_caps_def backend.defs backend_caps.defs)

lemma zero_flags_fua: "zero_flags_ok c flags \<Longrightarrow> c_can_fua c > 0 \<or> \<not> has flags NBDKIT_FLAG_FUA"
  by (auto simp: zero_flags_ok_def)

lemma data_flags_fua: "data_flags_ok c flags \<Longrightarrow> c_can_fua c > 0 \<or> \<not> has flags NBDKIT_FLAG_FUA"
  by (auto simp: data_flags_ok_def)

sublocale disk_plugin \<subseteq> pb: disk_backend "plugin_backend p" "world_ok pinv" "\<lambda>w. content (priv w)" sz
  "p_zero p \<noteq> None \<or> p_zero_v1 p \<noteq> None" short
proof (unfold_locales, unfold plugin_backend_sel, goal_cases)
  case 1 then show ?case by simp
next
  case 2 then show ?case by (intro plugin_pread_ok)
next
  case 3 then show ?case by (intro plugin_pwrite_ok data_flags_fua) (auto simp: data_flags_ok_def)
next
  case (4 c err) then show ?case using plugin_flush_ok [of c err] by (auto elim!: io_resultE split: if_splits)
next
  case 5 then show ?case by (intro plugin_trim_ok data_flags_fua) (auto simp: data_flags_ok_def)
next
  case 6 then show ?case by (intro plugin_zero_ok zero_flags_fua) (auto simp: zero_flags_ok_def)
next
  case 7 then show ?case by (intro plugin_extents_ok)
next
  case 8 then show ?case by (intro plugin_cache_ok)
qed

subsection \<open>Properties\<close>

text \<open>C31: The block sizes a plugin's layer lets through are none at all, or a minimum that is a power of two
  between 1 and 64K, a preferred size that is a power of two between 512 and 32M, and a maximum that is
  a multiple of the minimum or unlimited, in ascending order.\<close>

theorem plugin_block_size_sane:
  assumes "plugin_block_size p c = Some (0, (minimum, preferred, maximum), c')"
  shows "minimum = 0 \<and> preferred = 0 \<and> maximum = 0
    \<or> (\<exists>j k. unat minimum = 2 ^ j \<and> j \<le> 16 \<and> unat preferred = 2 ^ k \<and> 9 \<le> k \<and> k \<le> 25)
      \<and> minimum \<le> preferred \<and> preferred \<le> maximum \<and> (maximum = - 1 \<or> unat minimum dvd unat maximum)"
proof -
  have v: "block_sizes_valid minimum preferred maximum"
  proof (cases "p_block_size p")
    case None
    with assms show ?thesis by (simp add: plugin_block_size_def block_sizes_valid_def)
  next
    case (Some f)
    with assms show ?thesis
      by (cases "f (inner c)") (auto simp: plugin_block_size_def Let_def split: if_splits)
  qed
  show ?thesis
  proof (cases "minimum = 0 \<and> preferred = 0 \<and> maximum = 0")
    case False
    with v have s: "minimum \<le> 65536" "is_power_of_2 minimum" "is_power_of_2 preferred" "512 \<le> preferred"
        "preferred \<le> 33554432" "maximum = - 1 \<or> maximum mod minimum = 0" "minimum \<le> preferred" "preferred \<le> maximum"
      by (auto simp: block_sizes_valid_def is_power_of_2_ucast not_less split: if_splits)
    obtain j k where jk: "unat minimum = 2 ^ j" "unat preferred = 2 ^ k"
      using s(2,3) by (auto simp: is_power_of_2_unat)
    have pw: "(2::nat) ^ j \<le> 2 ^ 16" "(2::nat) ^ 9 \<le> 2 ^ k" "(2::nat) ^ k \<le> 2 ^ 25"
      using s(1,4,5) jk by (simp_all add: word_le_nat_alt)
    have exp: "(2::nat) ^ m \<le> 2 ^ n \<Longrightarrow> m \<le> n" for m n by (rule power_le_imp_le_exp [of 2]) simp_all
    note exp [OF pw(1)] exp [OF pw(2)] exp [OF pw(3)]
    moreover have "maximum = - 1 \<or> unat minimum dvd unat maximum"
      using s(6) by (auto simp: unat_mod_distrib word_unat_eq_iff)
    ultimately show ?thesis using jk s(7,8) by blast
  qed blast
qed

end
