(* ===== verification/Protocol.thy ===== *)
theory Protocol
  imports Connections Plugins
begin

text \<open>
  The transmission phase, \<^verbatim>\<open>src/server/protocol.c\<close>: one round of receiving a request, validating
  it, running it on the top backend and sending the reply.

  The model follows one thread.  The data buffer and the extents list of a request are values; the
  buffer returned by \<open>handle_request\<close> is the data read.  Allocation is taken to succeed, and messages
  for the operator are left out.
\<close>

abbreviation (input) base_allocation_id :: u32 where "base_allocation_id \<equiv> 1"

subsection \<open>Validation\<close>

text \<open>\<^term>\<open>Some e\<close> is the error number stored when the request is refused, \<^term>\<open>None\<close> acceptance.\<close>

definition validate_range :: "'s ctx \<Rightarrow> u16 \<Rightarrow> u64 \<Rightarrow> u32 \<Rightarrow> int option option" where
  "validate_range c cmd off count =
     (if cmd \<in> {NBD_CMD_READ, NBD_CMD_CACHE, NBD_CMD_WRITE, NBD_CMD_TRIM, NBD_CMD_WRITE_ZEROES,
                NBD_CMD_BLOCK_STATUS} then do {
        ok \<leftarrow> backend_valid_range c off count;
        Some (if ok then None
              else Some (if cmd = NBD_CMD_WRITE \<or> cmd = NBD_CMD_WRITE_ZEROES then ENOSPC else EINVAL)) }
      else if cmd = NBD_CMD_FLUSH
        then Some (if off \<noteq> 0 \<or> count \<noteq> 0 then Some EINVAL else None)
      else Some (Some EINVAL))"

definition validate_flags :: "'s connection \<Rightarrow> u16 \<Rightarrow> u16 \<Rightarrow> int option" where
  "validate_flags conn cmd flags =
     (if flags AND NOT (NBD_CMD_FLAG_FUA OR NBD_CMD_FLAG_NO_HOLE OR NBD_CMD_FLAG_DF
                        OR NBD_CMD_FLAG_REQ_ONE OR NBD_CMD_FLAG_FAST_ZERO) \<noteq> 0 then Some EINVAL
      else if has flags NBD_CMD_FLAG_NO_HOLE \<and> cmd \<noteq> NBD_CMD_WRITE_ZEROES then Some EINVAL
      else if has flags NBD_CMD_FLAG_FAST_ZERO \<and> cmd \<noteq> NBD_CMD_WRITE_ZEROES then Some EINVAL
      else if has flags NBD_CMD_FLAG_DF \<and> cmd \<noteq> NBD_CMD_READ then Some EINVAL
      else if has flags NBD_CMD_FLAG_DF \<and> \<not> structured_replies conn then Some EINVAL
      else if has flags NBD_CMD_FLAG_REQ_ONE \<and> cmd \<noteq> NBD_CMD_BLOCK_STATUS then Some EINVAL
      else if has flags NBD_CMD_FLAG_FUA \<and> \<not> has (eflags conn) NBD_FLAG_SEND_FUA then Some EINVAL
      else None)"

definition validate_allowed :: "'s connection \<Rightarrow> u16 \<Rightarrow> u32 \<Rightarrow> int option" where
  "validate_allowed conn cmd count =
     (if (cmd = NBD_CMD_WRITE \<or> cmd = NBD_CMD_READ) \<and> count > MAX_REQUEST_SIZE then Some ENOMEM
      else if cmd = NBD_CMD_FLUSH \<and> \<not> has (eflags conn) NBD_FLAG_SEND_FLUSH then Some EINVAL
      else if cmd = NBD_CMD_TRIM \<and> \<not> has (eflags conn) NBD_FLAG_SEND_TRIM then Some EINVAL
      else if cmd = NBD_CMD_WRITE_ZEROES \<and> \<not> has (eflags conn) NBD_FLAG_SEND_WRITE_ZEROES then Some EINVAL
      else if cmd = NBD_CMD_CACHE \<and> \<not> has (eflags conn) NBD_FLAG_SEND_CACHE then Some EINVAL
      else if cmd = NBD_CMD_BLOCK_STATUS \<and> \<not> structured_replies conn then Some EINVAL
      else if cmd = NBD_CMD_BLOCK_STATUS \<and> \<not> meta_context_base_allocation conn then Some EINVAL
      else None)"

definition validate_request :: "'s connection \<Rightarrow> 's ctx \<Rightarrow> u16 \<Rightarrow> u16 \<Rightarrow> u64 \<Rightarrow> u32 \<Rightarrow> int option option" where
  "validate_request conn c cmd flags off count =
     (if has (eflags conn) NBD_FLAG_READ_ONLY
         \<and> (cmd = NBD_CMD_WRITE \<or> cmd = NBD_CMD_TRIM \<or> cmd = NBD_CMD_WRITE_ZEROES)
      then Some (Some EROFS)
      else do {
        e \<leftarrow> validate_range c cmd off count;
        Some (case e of Some e \<Rightarrow> Some e
              | None \<Rightarrow> (case validate_flags conn cmd flags of Some e \<Rightarrow> Some e
                         | None \<Rightarrow> validate_allowed conn cmd count))
      })"

subsection \<open>Execution\<close>

text \<open>The backend flags of a command's flags.\<close>

definition fua_flag :: "u16 \<Rightarrow> u32" where
  "fua_flag flags = (if has flags NBD_CMD_FLAG_FUA then NBDKIT_FLAG_FUA else 0)"

definition zero_flags :: "u16 \<Rightarrow> u32" where
  "zero_flags flags =
     (if \<not> has flags NBD_CMD_FLAG_NO_HOLE then NBDKIT_FLAG_MAY_TRIM else 0)
     OR (if has flags NBD_CMD_FLAG_FUA then NBDKIT_FLAG_FUA else 0)
     OR (if has flags NBD_CMD_FLAG_FAST_ZERO then NBDKIT_FLAG_FAST_ZERO else 0)"

definition extents_flag :: "u16 \<Rightarrow> u32" where
  "extents_flag flags = (if has flags NBD_CMD_FLAG_REQ_ONE then NBDKIT_FLAG_REQ_ONE else 0)"

text \<open>The error number (0 for success), the buffer, the extents list and the context afterwards.\<close>

definition handle_request :: "('s, 'x) backend_scheme \<Rightarrow> 's ctx \<Rightarrow> u16 \<Rightarrow> u16 \<Rightarrow> u64 \<Rightarrow> u32 \<Rightarrow> u8 list \<Rightarrow>
    nbdkit_extents option \<Rightarrow> (int \<times> u8 list \<times> nbdkit_extents option \<times> 's ctx) option" where
  "handle_request b c cmd flags off count buf exts = do {
     let c = c\<lparr>inner := (inner c)\<lparr>tl_errno := 0\<rparr>\<rparr>;
     let fin = (\<lambda>(r, err, c). Some (if r = - 1 then err else 0, buf, exts, c));
     (if cmd = NBD_CMD_READ then do {
        (r, buf, err, c) \<leftarrow> backend_pread b c count off 0 0;
        Some (if r = - 1 then err else 0, buf, exts, c) }
      else if cmd = NBD_CMD_WRITE then
        Option.bind (backend_pwrite b c buf count off (fua_flag flags) 0) fin
      else if cmd = NBD_CMD_FLUSH then
        Option.bind (backend_flush b c 0 0) fin
      else if cmd = NBD_CMD_TRIM then
        Option.bind (backend_trim b c count off (fua_flag flags) 0) fin
      else if cmd = NBD_CMD_CACHE then
        Option.bind (backend_cache b c count off 0 0) fin
      else if cmd = NBD_CMD_WRITE_ZEROES then
        Option.bind (backend_zero b c count off (zero_flags flags) 0) fin
      else if cmd = NBD_CMD_BLOCK_STATUS then do {
        exts \<leftarrow> exts;
        (r, err, exts, c) \<leftarrow> backend_extents b c count off (extents_flag flags) exts 0;
        Some (if r = - 1 then err else 0, buf, Some exts, c) }
      else None)
   }"

text \<open>
  \<^verbatim>\<open>skip_over_write_buffer\<close> reads from the socket in pieces and ignores the bytes.  It does not
  retry an interrupted \<^verbatim>\<open>read\<close>.  The pieces of at most \<open>BUFSIZ\<close> bytes are not visible in the result.
\<close>

fun skip_loop :: "nat \<Rightarrow> read_result list \<Rightarrow> int \<times> read_result list" where
  "skip_loop 0 s = (0, s)"
| "skip_loop (Suc n) [] = (- 1, [])"
| "skip_loop (Suc n) (RdIntr # s) = (- 1, s)"
| "skip_loop (Suc n) (RdErr # s) = (- 1, s)"
| "skip_loop (Suc n) (Rd bs # s) =
     (if bs = [] then (- 1, s)
      else if length bs \<le> Suc n then skip_loop (Suc n - length bs) s
      else (0, Rd (drop (Suc n) bs) # s))"

definition skip_over_write_buffer :: "u32 \<Rightarrow> 's connection \<Rightarrow> int \<times> 's connection" where
  "skip_over_write_buffer count conn =
     (if count > MAX_REQUEST_SIZE * 2 then (- 1, conn)
      else let (r, s) = skip_loop (unat count) (sockin conn) in (r, conn\<lparr>sockin := s\<rparr>))"

subsection \<open>Replies\<close>

definition nbd_errno :: "int \<Rightarrow> u16 \<Rightarrow> int" where
  "nbd_errno error flags =
     (if error = 0 then NBD_SUCCESS
      else if error = EROFS \<or> error = EPERM then NBD_EPERM
      else if error = EIO then NBD_EIO
      else if error = ENOMEM then NBD_ENOMEM
      else if error = EDQUOT \<or> error = EFBIG \<or> error = ENOSPC then NBD_ENOSPC
      else if error = ESHUTDOWN then NBD_ESHUTDOWN
      else if error = ENOTSUP \<or> error = EOPNOTSUPP
        then (if has flags NBD_CMD_FLAG_FAST_ZERO then NBD_ENOTSUP else NBD_EINVAL)
      else if error = EOVERFLOW
        then (if has flags NBD_CMD_FLAG_DF then NBD_EOVERFLOW else NBD_EINVAL)
      else NBD_EINVAL)"

text \<open>
  Every reply is a sequence of sends; the first that fails makes the connection dead.  The result is
  true if the caller should shut down.
\<close>

fun send_all :: "u8 list list \<Rightarrow> 's connection \<Rightarrow> bool \<times> 's connection" where
  "send_all [] conn = (False, conn)"
| "send_all (buf # bufs) conn =
     (case raw_send_socket buf conn of
        (r, conn) \<Rightarrow> if r = - 1 then connection_set_status STATUS_DEAD conn else send_all bufs conn)"

declare send_all.simps [simp del]

definition send_simple_reply :: "u64 \<Rightarrow> u16 \<Rightarrow> u16 \<Rightarrow> u8 list \<Rightarrow> int \<Rightarrow> 's connection \<Rightarrow> bool \<times> 's connection" where
  "send_simple_reply cookie cmd flags buf error conn =
     send_all (enc_simple_reply \<lparr>sr_magic = NBD_SIMPLE_REPLY_MAGIC,
                 sr_error = word_of_int (nbd_errno error flags), sr_cookie = cookie\<rparr>
               # (if cmd = NBD_CMD_READ \<and> error = 0 then [buf] else [])) conn"

definition structured_reply :: "u64 \<Rightarrow> u16 \<Rightarrow> u32 \<Rightarrow> nbd_structured_reply" where
  "structured_reply cookie type len =
     \<lparr>st_magic = NBD_STRUCTURED_REPLY_MAGIC, st_flags = NBD_REPLY_FLAG_DONE, st_type = type,
      st_cookie = cookie, st_length = len\<rparr>"

definition send_structured_reply_read :: "u64 \<Rightarrow> u16 \<Rightarrow> u8 list \<Rightarrow> u32 \<Rightarrow> u64 \<Rightarrow> 's connection \<Rightarrow>
    (bool \<times> 's connection) option" where
  "send_structured_reply_read cookie cmd buf count off conn = do {
     c_assert (cmd = NBD_CMD_READ);
     Some (send_all [enc_structured_reply (structured_reply cookie NBD_REPLY_TYPE_OFFSET_DATA (count + 8)),
                     be64 off, buf] conn)
   }"

text \<open>The descriptors of the extents from index \<open>i\<close> on, starting at position \<open>pos\<close>.\<close>

fun block_descriptors :: "u64 \<Rightarrow> u32 \<Rightarrow> bool \<Rightarrow> u64 \<Rightarrow> nbdkit_extent list \<Rightarrow> nbd_block_descriptor_32 list option"
where
  "block_descriptors off count first pos [] = Some []"
| "block_descriptors off count first pos (e # es) = do {
     c_assert (first \<longrightarrow> ext_offset e = off);
     let len = min (ext_length e) 0xffffffff;
     let blk = \<lparr>bd_length = ucast len, bd_status_flags = ext_type e AND 3\<rparr>;
     let pos = pos + len;
     (if pos > off + ucast count then Some [blk]
      else do {
        c_assert (ext_length e \<le> len);
        blks \<leftarrow> block_descriptors off count False pos es;
        Some (blk # blks)
      })
   }"

definition extents_to_block_descriptors :: "nbdkit_extents \<Rightarrow> u16 \<Rightarrow> u32 \<Rightarrow> u64 \<Rightarrow>
    nbd_block_descriptor_32 list option" where
  "extents_to_block_descriptors exts flags count off = do {
     c_assert (nbdkit_extents_count exts \<ge> 1);
     (if has flags NBD_CMD_FLAG_REQ_ONE then do {
        e \<leftarrow> nbdkit_get_extent exts 0;
        c_assert (ext_length e > 0);
        Some [\<lparr>bd_length = ucast (min (ext_length e) (ucast count)), bd_status_flags = ext_type e AND 3\<rparr>] }
      else block_descriptors off count True off (extents exts))
   }"

definition send_structured_reply_block_status :: "u64 \<Rightarrow> u16 \<Rightarrow> u16 \<Rightarrow> u32 \<Rightarrow> u64 \<Rightarrow> nbdkit_extents \<Rightarrow>
    's connection \<Rightarrow> (bool \<times> 's connection) option" where
  "send_structured_reply_block_status cookie cmd flags count off exts conn = do {
     c_assert (meta_context_base_allocation conn);
     c_assert (cmd = NBD_CMD_BLOCK_STATUS);
     blocks \<leftarrow> extents_to_block_descriptors exts flags count off;
     Some (send_all (enc_structured_reply (structured_reply cookie NBD_REPLY_TYPE_BLOCK_STATUS
                       (of_nat (4 + length blocks * 8)))
                     # be32 base_allocation_id
                     # map enc_block_descriptor_32 blocks) conn)
   }"

definition send_structured_reply_error :: "u64 \<Rightarrow> u16 \<Rightarrow> u16 \<Rightarrow> int \<Rightarrow> 's connection \<Rightarrow> bool \<times> 's connection" where
  "send_structured_reply_error cookie cmd flags error conn =
     send_all [enc_structured_reply (structured_reply cookie NBD_REPLY_TYPE_ERROR 6),
               enc_chunk_error (word_of_int (nbd_errno error flags)) 0] conn"

subsection \<open>One round of the protocol\<close>

text \<open>From the label \<^verbatim>\<open>send_reply\<close> on.\<close>

definition send_reply :: "nbd_request \<Rightarrow> int \<Rightarrow> u8 list \<Rightarrow> nbdkit_extents option \<Rightarrow> 's connection \<Rightarrow>
    (bool \<times> 's connection) option" where
  "send_reply request error buf exts conn =
     (let cmd = rq_type request; flags = rq_flags request in
      if connection_get_status conn < STATUS_CLIENT_DONE then Some (False, conn)
      else if \<not> structured_replies conn \<or> cmd \<noteq> NBD_CMD_READ \<and> cmd \<noteq> NBD_CMD_BLOCK_STATUS
        then Some (send_simple_reply (rq_cookie request) cmd flags buf error conn)
      else if error \<noteq> 0
        then Some (send_structured_reply_error (rq_cookie request) cmd flags error conn)
      else if cmd = NBD_CMD_READ
        then send_structured_reply_read (rq_cookie request) cmd buf (rq_count request) (rq_offset request) conn
      else do {
        exts \<leftarrow> exts;
        send_structured_reply_block_status (rq_cookie request) cmd flags (rq_count request)
          (rq_offset request) exts conn
      })"

text \<open>
  The part between validation and reply: the extents list, the payload of a write, and the request
  itself.  \<open>quit\<close> is the server's global flag, \<open>cs\<close> the status read after the request arrived.
\<close>

definition perform_request :: "('s, 'x) backend_scheme \<Rightarrow> bool \<Rightarrow> conn_status \<Rightarrow> nbd_request \<Rightarrow> 's ctx \<Rightarrow>
    's connection \<Rightarrow> (bool \<times> 's connection) option" where
  "perform_request b quit cs request c conn = do {
     let cmd = rq_type request;
     let off = rq_offset request;
     let count = rq_count request;
     (exts, c) \<leftarrow>
       (if cmd = NBD_CMD_BLOCK_STATUS then do {
          (size, c) \<leftarrow> backend_get_size b c;
          Some (nbdkit_extents_new off size, c) }
        else Some (Inl 0, c));
     let conn = conn\<lparr>top_context := Some c\<rparr>;
     (if cmd = NBD_CMD_BLOCK_STATUS \<and> isl exts then send_reply request ENOMEM [] None conn
      else
        let (r, buf, conn) = (if cmd = NBD_CMD_WRITE then raw_recv (unat count) conn
                              else (1, [], conn));
            exts = (case exts of Inl _ \<Rightarrow> None | Inr x \<Rightarrow> Some x) in
        if r \<noteq> 1 then Some (connection_set_status STATUS_DEAD conn)
        else if quit \<or> cs < STATUS_ACTIVE then send_reply request ESHUTDOWN buf exts conn
        else do {
          (error, buf, exts, c) \<leftarrow> handle_request b c cmd (rq_flags request) off count buf exts;
          c_assert (error \<ge> 0);
          send_reply request error buf exts (conn\<lparr>top_context := Some c\<rparr>)
        })
   }"

definition protocol_recv_request_send_reply :: "('s, 'x) backend_scheme \<Rightarrow> bool \<Rightarrow> 's connection \<Rightarrow>
    (bool \<times> 's connection) option" where
  "protocol_recv_request_send_reply b quit conn =
     (let (r, bytes, conn) = raw_recv 28 conn;
          cs = connection_get_status conn;
          request = dec_request bytes;
          cmd = rq_type request in
      if cs \<le> STATUS_CLIENT_DONE then Some (False, conn)
      else if r = - 1 then Some (connection_set_status STATUS_DEAD conn)
      else if r = 0 then Some (connection_set_status STATUS_CLIENT_DONE conn)
      else if rq_magic request \<noteq> NBD_REQUEST_MAGIC then Some (connection_set_status STATUS_DEAD conn)
      else if cmd = NBD_CMD_DISC then Some (connection_set_status STATUS_CLIENT_DONE conn)
      else do {
        c \<leftarrow> top_context conn;
        e \<leftarrow> validate_request conn c cmd (rq_flags request) (rq_offset request) (rq_count request);
        (case e of
           Some error \<Rightarrow>
             if cmd = NBD_CMD_WRITE then
               (case skip_over_write_buffer (rq_count request) conn of
                  (r, conn) \<Rightarrow> if r < 0 then Some (connection_set_status STATUS_DEAD conn)
                              else send_reply request error [] None conn)
             else send_reply request error [] None conn
         | None \<Rightarrow> perform_request b quit cs request c conn)
      })"

text \<open>The serial loop of \<^verbatim>\<open>handle_single_connection\<close> in \<^verbatim>\<open>src/server/connections.c\<close>.\<close>

partial_function (option) process_requests :: "('s, 'x) backend_scheme \<Rightarrow> bool \<Rightarrow> 's connection \<Rightarrow> 's connection option"
where
  "process_requests b quit conn =
     (if \<not> quit \<and> connection_get_status conn > STATUS_CLIENT_DONE then
        Option.bind (protocol_recv_request_send_reply b quit conn)
          (\<lambda>(stop, conn). process_requests b quit (if stop then raw_close_wr conn else conn))
      else Some conn)"

subsection \<open>Accepted requests\<close>

text \<open>The flags sent to the client promise only what the context can do.\<close>

definition advertised :: "'s connection \<Rightarrow> 's ctx \<Rightarrow> bool" where
  "advertised conn c \<longleftrightarrow>
     (\<not> has (eflags conn) NBD_FLAG_READ_ONLY \<longrightarrow> c_can_write c = 1)
     \<and> (has (eflags conn) NBD_FLAG_SEND_FLUSH \<longrightarrow> c_can_flush c = 1)
     \<and> (has (eflags conn) NBD_FLAG_SEND_FUA \<longrightarrow> c_can_fua c > 0)
     \<and> (has (eflags conn) NBD_FLAG_SEND_TRIM \<longrightarrow> c_can_trim c = 1)
     \<and> (has (eflags conn) NBD_FLAG_SEND_WRITE_ZEROES \<longrightarrow> c_can_zero c > 0)
     \<and> (has (eflags conn) NBD_FLAG_SEND_CACHE \<longrightarrow> c_can_cache c > 0)"

lemma validate_request_accepted:
  assumes "validate_request conn c cmd flags off count = Some None" and "negotiated sz c"
    and "advertised conn c"
  shows "cmd \<in> {NBD_CMD_READ, NBD_CMD_WRITE, NBD_CMD_FLUSH, NBD_CMD_TRIM, NBD_CMD_CACHE,
                NBD_CMD_WRITE_ZEROES, NBD_CMD_BLOCK_STATUS}"
    and "cmd \<noteq> NBD_CMD_FLUSH \<Longrightarrow> 0 < unat count \<and> unat off + unat count \<le> sz"
    and "cmd \<in> {NBD_CMD_WRITE, NBD_CMD_TRIM, NBD_CMD_WRITE_ZEROES} \<Longrightarrow> c_can_write c = 1"
    and "has flags NBD_CMD_FLAG_FUA \<Longrightarrow> c_can_fua c > 0"
    and "has flags NBD_CMD_FLAG_FAST_ZERO \<Longrightarrow> cmd = NBD_CMD_WRITE_ZEROES"
    and "cmd = NBD_CMD_FLUSH \<Longrightarrow> c_can_flush c = 1"
    and "cmd = NBD_CMD_TRIM \<Longrightarrow> c_can_trim c = 1"
    and "cmd = NBD_CMD_WRITE_ZEROES \<Longrightarrow> c_can_zero c > 0"
    and "cmd = NBD_CMD_CACHE \<Longrightarrow> c_can_cache c > 0"
    and "cmd = NBD_CMD_BLOCK_STATUS \<Longrightarrow> structured_replies conn \<and> meta_context_base_allocation conn"
proof -
  have sz: "unat (exportsize c) = sz" "sz < 2 ^ 63" using negotiatedD [OF assms(2)] by auto
  have ro: "\<not> (has (eflags conn) NBD_FLAG_READ_ONLY
      \<and> (cmd = NBD_CMD_WRITE \<or> cmd = NBD_CMD_TRIM \<or> cmd = NBD_CMD_WRITE_ZEROES))"
    and rg: "validate_range c cmd off count = Some None"
    and fl: "validate_flags conn cmd flags = None" and al: "validate_allowed conn cmd count = None"
    using assms(1) by (auto simp: validate_request_def split: if_splits option.splits bind_splits)
  show "cmd \<in> {NBD_CMD_READ, NBD_CMD_WRITE, NBD_CMD_FLUSH, NBD_CMD_TRIM, NBD_CMD_CACHE,
                NBD_CMD_WRITE_ZEROES, NBD_CMD_BLOCK_STATUS}"
    using rg by (auto simp: validate_range_def split: if_splits)
  show "0 < unat count \<and> unat off + unat count \<le> sz" if "cmd \<noteq> NBD_CMD_FLUSH"
    using rg that sz
    by (auto simp: validate_range_def backend_valid_range_iff simp del: insert_iff split: if_splits)
  show "c_can_write c = 1" if "cmd \<in> {NBD_CMD_WRITE, NBD_CMD_TRIM, NBD_CMD_WRITE_ZEROES}"
    using ro that assms(3) by (auto simp: advertised_def)
  show "has flags NBD_CMD_FLAG_FUA \<Longrightarrow> c_can_fua c > 0"
    and "has flags NBD_CMD_FLAG_FAST_ZERO \<Longrightarrow> cmd = NBD_CMD_WRITE_ZEROES"
    using fl assms(3) by (auto simp: validate_flags_def advertised_def split: if_splits)
  show "cmd = NBD_CMD_FLUSH \<Longrightarrow> c_can_flush c = 1"
    and "cmd = NBD_CMD_TRIM \<Longrightarrow> c_can_trim c = 1"
    and "cmd = NBD_CMD_WRITE_ZEROES \<Longrightarrow> c_can_zero c > 0"
    and "cmd = NBD_CMD_CACHE \<Longrightarrow> c_can_cache c > 0"
    and "cmd = NBD_CMD_BLOCK_STATUS \<Longrightarrow> structured_replies conn \<and> meta_context_base_allocation conn"
    using al assms(3) by (auto simp: validate_allowed_def advertised_def split: if_splits)
qed

text \<open>What a successful request does to the disk \<open>d\<close> and which data it returns.\<close>

definition request_effect :: "u16 \<Rightarrow> nat \<Rightarrow> nat \<Rightarrow> u8 list \<Rightarrow> disk \<Rightarrow> disk \<Rightarrow> u8 list \<Rightarrow> bool" where
  "request_effect cmd off n buf d d' buf' \<longleftrightarrow>
     (if cmd = NBD_CMD_READ then d' = d \<and> buf' = disk_read d off n
      else if cmd = NBD_CMD_WRITE then d' = disk_write d off buf
      else if cmd = NBD_CMD_WRITE_ZEROES then d' = disk_write d off (zeroes n)
      else if cmd = NBD_CMD_TRIM then same_outside off n d d'
      else d' = d)"

definition extents_true :: "disk \<Rightarrow> nbdkit_extents \<Rightarrow> nbdkit_extents \<Rightarrow> bool" where
  "extents_true d exts exts' \<longleftrightarrow>
     wf_extents exts' \<and> extents exts' \<noteq> [] \<and> x_start exts' = x_start exts \<and> x_end exts' = x_end exts
     \<and> (\<forall>i ty. status exts' i = Some ty \<and> has ty NBDKIT_EXTENT_ZERO \<longrightarrow> d i = 0)"

definition handled :: "('s world \<Rightarrow> bool) \<Rightarrow> ('s world \<Rightarrow> disk) \<Rightarrow> 's ctx \<Rightarrow> u16 \<Rightarrow> nat \<Rightarrow> nat \<Rightarrow> u8 list \<Rightarrow>
    nbdkit_extents option \<Rightarrow> (int \<times> u8 list \<times> nbdkit_extents option \<times> 's ctx) option \<Rightarrow> bool" where
  "handled winv dsk c cmd off n buf exts res \<longleftrightarrow>
     (case res of None \<Rightarrow> False
      | Some (error, buf', exts', c') \<Rightarrow>
          c' = c\<lparr>inner := inner c'\<rparr> \<and> winv (inner c') \<and> error \<ge> 0
          \<and> same_outside off n (dsk (inner c)) (dsk (inner c'))
          \<and> (error = 0 \<longrightarrow> request_effect cmd off n buf (dsk (inner c)) (dsk (inner c')) buf'
               \<and> (cmd = NBD_CMD_BLOCK_STATUS \<longrightarrow>
                    (\<exists>x x'. exts = Some x \<and> exts' = Some x' \<and> extents_true (dsk (inner c)) x x'))))"

lemma zero_flags_zero_ok:
  "(has flags NBD_CMD_FLAG_FUA \<longrightarrow> c_can_fua c > 0) \<Longrightarrow>
     (has flags NBD_CMD_FLAG_FAST_ZERO \<longrightarrow> c_can_fast_zero c = 1) \<Longrightarrow> zero_flags_ok c (zero_flags flags)"
  by (auto simp: zero_flags_ok_def zero_flags_def has_def)

lemma fua_flag_ok:
  "(has flags NBD_CMD_FLAG_FUA \<longrightarrow> c_can_fua c > 0) \<Longrightarrow> data_flags_ok c (fua_flag flags)"
  by (auto simp: data_flags_ok_def fua_flag_def has_def)

context disk_backend
begin

lemma handled_io:
  assumes "io_result winv dsk (c\<lparr>inner := (inner c)\<lparr>tl_errno := 0\<rparr>\<rparr>) off n P E res" and "winv (inner c)"
    and "\<And>d. P d \<Longrightarrow> same_outside off n (dsk (inner c)) d \<Longrightarrow> request_effect cmd off n buf (dsk (inner c)) d buf"
    and "cmd \<noteq> NBD_CMD_BLOCK_STATUS"
  shows "handled winv dsk c cmd off n buf exts
    (Option.bind res (\<lambda>(r, err, c). Some (if r = - 1 then err else 0, buf, exts, c)))"
  using assms(1)
  by (rule io_resultE) (use assms(2-4) clear_errno in \<open>auto simp: handled_def\<close>)

lemma request_extents_ok:
  assumes "negotiated sz c" and "winv (inner c)" and "advertised conn c"
    and "validate_request conn c NBD_CMD_BLOCK_STATUS flags off count = Some None"
    and "wf_extents x" and "extents x = []" and "x_start x = off" and "x_next x = - 1" and "unat (x_end x) = sz"
  shows "extents_result short winv dsk (c\<lparr>inner := (inner c)\<lparr>tl_errno := 0\<rparr>\<rparr>) x
    (backend_extents b (c\<lparr>inner := (inner c)\<lparr>tl_errno := 0\<rparr>\<rparr>) count off (extents_flag flags) x 0)"
  using validate_request_accepted(2) [OF assms(4,1,3)] clear_errno [OF assms(2)] assms
  by (intro backend_extents_ok) (auto simp: extents_flag_def)

text \<open>The extents of a successful answer are short where the layer below promises it.\<close>

lemma handle_request_short:
  assumes "negotiated sz c" and "winv (inner c)" and "advertised conn c"
    and "validate_request conn c NBD_CMD_BLOCK_STATUS flags off count = Some None"
    and "wf_extents x" and "extents x = []" and "x_start x = off" and "x_next x = - 1" and "unat (x_end x) = sz"
    and "handle_request b c NBD_CMD_BLOCK_STATUS flags off count buf (Some x) = Some (0, buf', Some x', c')" and short
  shows "short_extents x'"
  using request_extents_ok [OF assms(1-9)] assms(10,11)
  by (auto simp: handle_request_def Let_def elim!: extents_resultE split: if_splits)

lemma handle_request_ok:
  assumes neg: "negotiated sz c" and w: "winv (inner c)" and adv: "advertised conn c"
    and val: "validate_request conn c cmd flags off count = Some None"
    and fast: "has flags NBD_CMD_FLAG_FAST_ZERO \<longrightarrow> c_can_fast_zero c = 1"
    and nz: "c_can_zero c = NBDKIT_ZERO_NATIVE \<longrightarrow> native_zero"
    and buf: "cmd = NBD_CMD_WRITE \<longrightarrow> length buf = unat count"
    and exts: "cmd = NBD_CMD_BLOCK_STATUS \<longrightarrow> (\<exists>x. exts = Some x \<and> wf_extents x \<and> extents x = []
      \<and> x_start x = off \<and> x_next x = - 1 \<and> unat (x_end x) = sz)"
  shows "handled winv dsk c cmd (unat off) (unat count) buf exts
    (handle_request b c cmd flags off count buf exts)"
proof -
  note acc = validate_request_accepted [OF val neg adv]
  define c0 where "c0 = c\<lparr>inner := (inner c)\<lparr>tl_errno := 0\<rparr>\<rparr>"
  have c0: "negotiated sz c0" "winv (inner c0)" "dsk (inner c0) = dsk (inner c)"
    using neg w clear_errno by (simp_all add: c0_def)
  have fl: "data_flags_ok c0 (fua_flag flags)" "zero_flags_ok c0 (zero_flags flags)"
    using acc(4) fast by (auto intro!: fua_flag_ok zero_flags_zero_ok simp: c0_def)
  note io = handled_io [OF _ w, folded c0_def]
  consider "cmd = NBD_CMD_READ" | "cmd = NBD_CMD_WRITE" | "cmd = NBD_CMD_FLUSH" | "cmd = NBD_CMD_TRIM"
    | "cmd = NBD_CMD_CACHE" | "cmd = NBD_CMD_WRITE_ZEROES" | "cmd = NBD_CMD_BLOCK_STATUS"
    using acc(1) by auto
  then show ?thesis
  proof cases
    case 1
    have "read_result winv dsk c0 (unat off) (unat count) (backend_pread b c0 count off 0 0)"
      using c0 acc(2) 1 by (intro backend_pread_ok) auto
    then show ?thesis
      using 1 c0(3) by (auto simp: handle_request_def handled_def request_effect_def c0_def Let_def
          elim!: read_resultE split: if_splits)
  next
    case 2
    have "io_result winv dsk c0 (unat off) (unat count) (\<lambda>d. d = disk_write (dsk (inner c0)) (unat off) buf)
        (\<lambda>_. True) (backend_pwrite b c0 buf count off (fua_flag flags) 0)"
      using c0 acc(2,3) 2 buf fl by (intro backend_pwrite_ok) (auto simp: c0_def)
    from io [OF this, of cmd buf exts] show ?thesis
      using 2 c0(3) by (simp add: handle_request_def Let_def request_effect_def flip: c0_def)
  next
    case 3
    have "io_result winv dsk c0 0 0 (\<lambda>_. True) (\<lambda>_. True) (backend_flush b c0 0 0)"
      using c0 acc(6) 3 by (intro backend_flush_ok) (auto simp: c0_def)
    from io [OF this, of cmd buf exts] show ?thesis
      using 3 c0(3)
      by (simp add: handle_request_def Let_def request_effect_def flip: c0_def)
        (auto simp: handled_def request_effect_def split: option.splits)
  next
    case 4
    have "io_result winv dsk c0 (unat off) (unat count) (\<lambda>_. True) (\<lambda>_. True)
        (backend_trim b c0 count off (fua_flag flags) 0)"
      using c0 acc(2,3,7) 4 fl by (intro backend_trim_ok) (auto simp: c0_def)
    from io [OF this, of cmd buf exts] show ?thesis
      using 4 c0(3) by (simp add: handle_request_def Let_def request_effect_def flip: c0_def)
  next
    case 5
    have "io_result winv dsk c0 0 0 (\<lambda>_. True) (\<lambda>_. True) (backend_cache b c0 count off 0 0)"
      using c0 acc(2,9) 5 by (intro backend_cache_ok) (auto simp: c0_def)
    from io [OF this, of cmd buf exts] show ?thesis
      using 5 c0(3)
      by (simp add: handle_request_def Let_def request_effect_def flip: c0_def)
        (auto simp: handled_def request_effect_def split: option.splits)
  next
    case 6
    have "io_result winv dsk c0 (unat off) (unat count)
        (\<lambda>d. d = disk_write (dsk (inner c0)) (unat off) (zeroes (unat count))) (\<lambda>_. True)
        (backend_zero b c0 count off (zero_flags flags) 0)"
      using c0 acc(2,3,8) 6 fl nz by (intro backend_zero_ok) (auto simp: c0_def)
    from io [OF this, of cmd buf exts] show ?thesis
      using 6 c0(3) by (simp add: handle_request_def Let_def request_effect_def flip: c0_def)
  next
    case 7
    then obtain x where x: "exts = Some x" "wf_extents x" "extents x = []" "x_start x = off"
        "x_next x = - 1" "unat (x_end x) = sz"
      using exts by auto
    have "extents_result short winv dsk c0 x (backend_extents b c0 count off (extents_flag flags) x 0)"
      unfolding c0_def using request_extents_ok [OF neg w adv _ x(2-6)] val 7 by blast
    then show ?thesis
      using 7 x(1) c0(3)
      by (auto simp: handle_request_def handled_def request_effect_def extents_true_def c0_def Let_def
          elim!: extents_resultE split: if_splits)
  qed
qed

end

subsection \<open>Block descriptors\<close>

definition descriptor :: "nbdkit_extent \<Rightarrow> nbd_block_descriptor_32" where
  "descriptor e = \<lparr>bd_length = ucast (min (ext_length e) 0xffffffff), bd_status_flags = ext_type e AND 3\<rparr>"

lemma block_descriptors_ok:
  "contiguous (unat pos) es \<Longrightarrow> unat pos + span es < 2 ^ 63 \<Longrightarrow> (first \<longrightarrow> pos = off) \<Longrightarrow>
     unat pos \<le> unat off + unat count \<Longrightarrow> unat off + unat count < 2 ^ 63 \<Longrightarrow> unat off \<le> unat pos \<Longrightarrow>
     unat count < 0xffffffff \<or> (\<forall>e \<in> set es. ext_length e \<le> 0xffffffff) \<Longrightarrow>
     \<exists>n \<le> length es. block_descriptors off count first pos es = Some (map descriptor (take n es))
       \<and> (es \<noteq> [] \<longrightarrow> 0 < n) \<and> unat pos + span (take (n - 1) es) \<le> unat off + unat count
       \<and> (n < length es \<longrightarrow> unat off + unat count < unat pos + span (take n es))"
proof (induction es arbitrary: pos first)
  case Nil
  then show ?case by simp
next
  case (Cons e es)
  have e: "unat (ext_offset e) = unat pos" "contiguous (unat pos + unat (ext_length e)) es"
    using Cons.prems(1) by auto
  have first: "first \<longrightarrow> ext_offset e = off" using Cons.prems(3) e(1) by (auto simp: word_unat_eq_iff)
  have pos: "unat (pos + ext_length e) = unat pos + unat (ext_length e)"
    using Cons.prems(2) by (simp add: unat_word_ariths)
  have fin: "unat (off + ucast count) = unat off + unat count"
    using Cons.prems(5) by (simp add: unat_word_ariths unat_ucast_up)
  have last: ?case if "pos + min (ext_length e) 0xffffffff > off + ucast count" "unat off + unat count < unat pos + unat (ext_length e)"
    using that first Cons.prems(4) by (intro exI [of _ 1]) (simp add: descriptor_def)
  show ?case
  proof (cases "ext_length e \<le> 0xffffffff")
    case False
    then have l: "0xffffffff < unat (ext_length e)" "min (ext_length e) 0xffffffff = 0xffffffff"
      by (simp_all add: word_le_nat_alt min_def)
    have "unat count < 0xffffffff" using Cons.prems(7) False by auto
    moreover have "unat (pos + 0xffffffff) = unat pos + 0xffffffff"
      using Cons.prems(2) l(1) by (simp add: unat_word_ariths)
    ultimately show ?thesis using Cons.prems(6) l fin by (intro last) (simp_all add: word_less_nat_alt)
  next
    case True
    then have len: "min (ext_length e) 0xffffffff = ext_length e" by (simp add: min_def)
    show ?thesis
    proof (cases "pos + ext_length e > off + ucast count")
      case True
      then show ?thesis using len by (intro last) (simp_all add: word_less_nat_alt pos fin)
    next
      case False
      then have "\<exists>n \<le> length es. block_descriptors off count False (pos + ext_length e) es
            = Some (map descriptor (take n es))
         \<and> (es \<noteq> [] \<longrightarrow> 0 < n) \<and> unat (pos + ext_length e) + span (take (n - 1) es) \<le> unat off + unat count
         \<and> (n < length es \<longrightarrow> unat off + unat count < unat (pos + ext_length e) + span (take n es))"
        using Cons.prems e(2) by (intro Cons.IH) (auto simp: pos fin word_less_nat_alt)
      then obtain n where n: "n \<le> length es" "block_descriptors off count False (pos + ext_length e) es
            = Some (map descriptor (take n es))" "es \<noteq> [] \<longrightarrow> 0 < n"
          "unat pos + unat (ext_length e) + span (take (n - 1) es) \<le> unat off + unat count"
          "n < length es \<longrightarrow> unat off + unat count < unat pos + unat (ext_length e) + span (take n es)"
        by (auto simp: pos)
      have "span (take n (e # es)) \<le> unat (ext_length e) + span (take (n - 1) es)"
        by (cases n) auto
      moreover have "n = 0 \<longrightarrow> es = []" using n(3) by auto
      ultimately show ?thesis
        using n False first len Cons.prems(4)
        by (intro exI [of _ "Suc n"]) (auto simp: descriptor_def add.assoc)
    qed
  qed
qed

subsection \<open>No request aborts the server\<close>

text \<open>The parts of a connection that negotiation fixes.\<close>

definition same_session :: "'s connection \<Rightarrow> 's connection \<Rightarrow> bool" where
  "same_session conn conn' \<longleftrightarrow> top_context conn' = top_context conn \<and> eflags conn' = eflags conn
     \<and> structured_replies conn' = structured_replies conn
     \<and> meta_context_base_allocation conn' = meta_context_base_allocation conn"

lemma same_session_refl [simp]: "same_session conn conn"
  by (simp add: same_session_def)

lemma same_session_trans: "same_session a b \<Longrightarrow> same_session b c \<Longrightarrow> same_session a c"
  by (simp add: same_session_def)

lemma set_status_session [simp]: "same_session conn (snd (connection_set_status s conn))"
  by (simp add: same_session_def connection_set_status_def Let_def)

lemma raw_send_session: "raw_send_socket buf conn = (r, conn') \<Longrightarrow> same_session conn conn'"
  by (auto simp: raw_send_socket_def same_session_def split: if_splits prod.splits)

lemma raw_recv_session: "raw_recv n conn = (r, bs, conn') \<Longrightarrow> same_session conn conn'"
  by (auto simp: raw_recv_def same_session_def split: prod.splits)

lemma skip_session: "skip_over_write_buffer n conn = (r, conn') \<Longrightarrow> same_session conn conn'"
  by (auto simp: skip_over_write_buffer_def same_session_def split: if_splits prod.splits)

lemma send_all_session: "same_session conn (snd (send_all bufs conn))"
proof (induction bufs arbitrary: conn)
  case (Cons buf bufs)
  obtain r conn1 where s: "raw_send_socket buf conn = (r, conn1)" by force
  from raw_send_session [OF s] Cons.IH [of conn1] set_status_session [of conn1 STATUS_DEAD]
  show ?case by (auto simp: s send_all.simps intro: same_session_trans)
qed (simp add: send_all.simps)

definition status_list_ok :: "nbd_request \<Rightarrow> nat \<Rightarrow> nbdkit_extents \<Rightarrow> bool" where
  "status_list_ok request sz x \<longleftrightarrow> wf_extents x \<and> extents x \<noteq> [] \<and> x_start x = rq_offset request
     \<and> unat (x_end x) = sz \<and> unat (rq_offset request) + unat (rq_count request) \<le> sz"

lemma span_member: "e \<in> set es \<Longrightarrow> unat (ext_length e) \<le> span es"
  by (induction es) auto

lemma extents_to_block_descriptors_ok:
  assumes "wf_extents x" and "extents x \<noteq> []" and "x_start x = off"
    and "unat off + unat count \<le> unat (x_end x)" and "unat (x_end x) < 2 ^ 63"
    and "unat (x_end x) < 2 ^ 32 \<or> short_extents x"
  shows "\<exists>blocks. extents_to_block_descriptors x flags count off = Some blocks"
proof -
  have wf: "contiguous (unat off) (extents x)" "unat off + span (extents x) \<le> unat (x_end x)"
    using assms(1,3) by (auto simp: wf_extents_def covered_def)
  have "ext_length e \<le> 0xffffffff" if "e \<in> set (extents x)" for e
    using span_member [OF that] wf(2) assms(6) that by (auto simp: short_extents_def word_le_nat_alt)
  moreover obtain e es where "extents x = e # es" using assms(2) by (cases "extents x") auto
  ultimately show ?thesis
    using block_descriptors_ok [of off "extents x" True off count] wf assms(4,5)
    by (auto simp: extents_to_block_descriptors_def nbdkit_extents_count_def nbdkit_get_extent_def
        word_less_nat_alt)
qed

lemma send_reply_ok:
  assumes "error = 0 \<and> rq_type request = NBD_CMD_BLOCK_STATUS \<and> structured_replies conn \<Longrightarrow>
      meta_context_base_allocation conn \<and> sz < 2 ^ 63
      \<and> (\<exists>x. exts = Some x \<and> status_list_ok request sz x \<and> (sz < 2 ^ 32 \<or> short_extents x))"
  shows "\<exists>stop conn'. send_reply request error buf exts conn = Some (stop, conn') \<and> same_session conn conn'"
proof -
  have snd: "\<exists>stop conn'. Some (send_all bufs conn) = Some (stop, conn') \<and> same_session conn conn'" for bufs
    using send_all_session [of conn bufs] by (metis prod.collapse)
  show ?thesis
  proof (cases "error = 0 \<and> rq_type request = NBD_CMD_BLOCK_STATUS \<and> structured_replies conn")
    case True
    then obtain x where x: "exts = Some x" "status_list_ok request sz x" "meta_context_base_allocation conn"
        "sz < 2 ^ 63" "sz < 2 ^ 32 \<or> short_extents x"
      using assms by auto
    obtain blocks where bl: "extents_to_block_descriptors x (rq_flags request) (rq_count request)
        (rq_offset request) = Some blocks"
      using extents_to_block_descriptors_ok [of x "rq_offset request" "rq_count request" "rq_flags request"] x(2,4,5)
      by (auto simp: status_list_ok_def)
    show ?thesis
      using True x snd by (auto simp: send_reply_def Let_def send_structured_reply_block_status_def bl)
  next
    case False
    with snd show ?thesis
      by (auto simp: send_reply_def Let_def send_simple_reply_def send_structured_reply_error_def
          send_structured_reply_read_def)
  qed
qed

text \<open>
  The invariant of a connection in the transmission phase.  Two of its parts exclude requests the
  server does not survive: \<open>FAST_ZERO\<close> where it was not offered, and block status of
  \<open>2 ^ 32 - 1\<close> bytes in a longer extent, which a disk of 4 GiB or more can have unless the layers below report only
  short ones.
\<close>

definition session_ok :: "('s world \<Rightarrow> bool) \<Rightarrow> nat \<Rightarrow> bool \<Rightarrow> bool \<Rightarrow> 's connection \<Rightarrow> bool" where
  "session_ok winv sz native_zero short conn \<longleftrightarrow>
     (case top_context conn of None \<Rightarrow> False
      | Some c \<Rightarrow> negotiated sz c \<and> winv (inner c) \<and> advertised conn c
          \<and> (c_can_fast_zero c = 1 \<or> c_can_zero c = 0)
          \<and> (c_can_zero c = NBDKIT_ZERO_NATIVE \<longrightarrow> native_zero)
          \<and> (meta_context_base_allocation conn \<longrightarrow> sz < 2 ^ 32 \<or> short))"

lemma session_ok_cong:
  "same_session conn conn' \<Longrightarrow> session_ok winv sz nz sh conn \<Longrightarrow> session_ok winv sz nz sh conn'"
  by (auto simp: same_session_def session_ok_def advertised_def split: option.splits)

lemma session_ok_inner:
  assumes "session_ok winv sz nz sh conn" and "top_context conn = Some c" and "winv w"
  shows "session_ok winv sz nz sh (conn\<lparr>top_context := Some (c\<lparr>inner := w\<rparr>)\<rparr>)"
  using assms by (auto simp: session_ok_def advertised_def)

lemma nbdkit_extents_new_ok:
  assumes "unat off \<le> unat fin" and "unat fin < 2 ^ 63"
  shows "nbdkit_extents_new off fin = Inr \<lparr>extents = [], x_start = off, x_end = fin, x_next = - 1\<rparr>"
  using assms by (auto simp: nbdkit_extents_new_def word_le_nat_alt word_less_nat_alt)

lemma backend_get_size_cached:
  "negotiated sz c \<Longrightarrow> backend_get_size b c = Some (exportsize c, c)"
  using negotiatedD [of sz c] by (cases "exportsize c = - 1") (auto simp: backend_get_size_def unat_u64_minus_1)

lemma raw_recv_loop_length:
  "raw_recv_loop n first acc s = (1, bs, s') \<Longrightarrow> length bs = length acc + n"
  by (induction n first acc s rule: raw_recv_loop.induct) (auto split: if_splits)

lemma raw_recv_length: "raw_recv n conn = (1, bs, conn') \<Longrightarrow> length bs = n"
  by (auto simp: raw_recv_def split: prod.splits dest: raw_recv_loop_length)

lemma validate_request_cong:
  "same_session conn conn' \<Longrightarrow> validate_request conn' = validate_request conn"
proof -
  assume s: "same_session conn conn'"
  have "validate_flags conn' = validate_flags conn" "validate_allowed conn' = validate_allowed conn"
    using s by (simp_all add: fun_eq_iff same_session_def validate_flags_def validate_allowed_def)
  with s show ?thesis by (intro ext) (auto simp: same_session_def validate_request_def cong: option.case_cong)
qed

context disk_backend
begin

lemma run_request_ok:
  assumes ok: "session_ok winv sz native_zero short conn" and top: "top_context conn = Some c"
    and val: "validate_request conn c (rq_type request) (rq_flags request) (rq_offset request)
                (rq_count request) = Some None"
    and buf: "rq_type request = NBD_CMD_WRITE \<longrightarrow> length buf = unat (rq_count request)"
    and exts: "rq_type request = NBD_CMD_BLOCK_STATUS \<longrightarrow> exts =
      Some \<lparr>extents = [], x_start = rq_offset request, x_end = exportsize c, x_next = - 1\<rparr>"
  shows "\<exists>stop conn'. (do {
       (error, buf, exts, c) \<leftarrow> handle_request b c (rq_type request) (rq_flags request)
          (rq_offset request) (rq_count request) buf exts;
       c_assert (error \<ge> 0);
       send_reply request error buf exts (conn\<lparr>top_context := Some c\<rparr>)
     }) = Some (stop, conn') \<and> session_ok winv sz native_zero short conn'"
proof -
  have c: "negotiated sz c" "winv (inner c)" "advertised conn c"
      "c_can_fast_zero c = 1 \<or> c_can_zero c = 0" "c_can_zero c = NBDKIT_ZERO_NATIVE \<longrightarrow> native_zero"
      "meta_context_base_allocation conn \<longrightarrow> sz < 2 ^ 32 \<or> short"
    using ok top by (auto simp: session_ok_def)
  note acc = validate_request_accepted [OF val c(1,3)]
  have fast: "has (rq_flags request) NBD_CMD_FLAG_FAST_ZERO \<longrightarrow> c_can_fast_zero c = 1"
    using acc(5,8) c(4) by auto
  have size: "unat (exportsize c) = sz" "sz < 2 ^ 63" using negotiatedD [OF c(1)] by auto
  have ex: "rq_type request = NBD_CMD_BLOCK_STATUS \<longrightarrow> (\<exists>x. exts = Some x \<and> wf_extents x \<and> extents x = []
      \<and> x_start x = rq_offset request \<and> x_next x = - 1 \<and> unat (x_end x) = sz)"
    using exts acc(2) size nbdkit_extents_new_wf [OF nbdkit_extents_new_ok [of "rq_offset request" "exportsize c"]]
    by auto
  have "handled winv dsk c (rq_type request) (unat (rq_offset request)) (unat (rq_count request)) buf exts
      (handle_request b c (rq_type request) (rq_flags request) (rq_offset request) (rq_count request) buf exts)"
    by (rule handle_request_ok [OF c(1-3) val fast c(5) buf ex])
  then obtain error buf' exts' w where h: "handle_request b c (rq_type request) (rq_flags request)
          (rq_offset request) (rq_count request) buf exts = Some (error, buf', exts', c\<lparr>inner := w\<rparr>)"
      "winv w" "error \<ge> 0"
      "error = 0 \<and> rq_type request = NBD_CMD_BLOCK_STATUS \<longrightarrow>
         (\<exists>x x'. exts = Some x \<and> exts' = Some x' \<and> extents_true (dsk (inner c)) x x')"
    by (auto simp: handled_def split: option.splits)
  have sh: "sz < 2 ^ 32 \<or> short_extents x'"
    if "error = 0" "rq_type request = NBD_CMD_BLOCK_STATUS" "exts = Some x" "exts' = Some x'" for x x'
    using that h(1) ex acc(10) c(6) val handle_request_short [OF c(1-3), of "rq_flags request" "rq_offset request" "rq_count request" x]
    by auto
  let ?conn = "conn\<lparr>top_context := Some (c\<lparr>inner := w\<rparr>)\<rparr>"
  have ok': "session_ok winv sz native_zero short ?conn" using ok top h(2) by (rule session_ok_inner)
  obtain stop conn' where "send_reply request error buf' exts' ?conn = Some (stop, conn')"
      "same_session ?conn conn'"
    using send_reply_ok [of error request ?conn sz exts' buf'] h(4) acc(2,10) sh size ex exts
    by (auto simp: status_list_ok_def extents_true_def)
  with h(1,3) session_ok_cong [OF _ ok'] show ?thesis by auto
qed

lemma perform_request_ok:
  assumes ok: "session_ok winv sz native_zero short conn" and top: "top_context conn = Some c"
    and val: "validate_request conn c (rq_type request) (rq_flags request) (rq_offset request)
                (rq_count request) = Some None"
  shows "\<exists>stop conn'. perform_request b quit cs request c conn = Some (stop, conn')
    \<and> session_ok winv sz native_zero short conn'"
proof -
  have c: "negotiated sz c" "winv (inner c)" "advertised conn c"
      "c_can_fast_zero c = 1 \<or> c_can_zero c = 0" "c_can_zero c = NBDKIT_ZERO_NATIVE \<longrightarrow> native_zero"
      "meta_context_base_allocation conn \<longrightarrow> sz < 2 ^ 32 \<or> short"
    using ok top by (auto simp: session_ok_def)
  note acc = validate_request_accepted [OF val c(1,3)]
  have fast: "has (rq_flags request) NBD_CMD_FLAG_FAST_ZERO \<longrightarrow> c_can_fast_zero c = 1"
    using acc(5,8) c(4) by auto
  define x where "x = \<lparr>extents = [], x_start = rq_offset request, x_end = exportsize c, x_next = - 1\<rparr>"
  have size: "unat (exportsize c) = sz" "sz < 2 ^ 63" using negotiatedD [OF c(1)] by auto
  have new: "nbdkit_extents_new (rq_offset request) (exportsize c) = Inr x"
    if "rq_type request = NBD_CMD_BLOCK_STATUS"
    unfolding x_def using acc(2) that size by (intro nbdkit_extents_new_ok) auto
  define exts where "exts = (if rq_type request = NBD_CMD_BLOCK_STATUS then Some x else None)"
  obtain r buf conn1 where recv: "(if rq_type request = NBD_CMD_WRITE then raw_recv (unat (rq_count request)) conn
      else (1, [], conn)) = (r, buf, conn1)"
    using prod_cases3 by blast
  have s1: "same_session conn conn1"
    using recv raw_recv_session by (auto split: if_splits)
  have dead: "\<exists>stop conn'. Some (connection_set_status STATUS_DEAD conn1) = Some (stop, conn')
      \<and> session_ok winv sz native_zero short conn'"
    using session_ok_cong [OF same_session_trans [OF s1 set_status_session] ok] by (metis prod.collapse)
  have conn: "conn\<lparr>top_context := Some c\<rparr> = conn" "conn1\<lparr>top_context := Some c\<rparr> = conn1"
    using top s1 by (simp_all add: same_session_def)
  have shape: "perform_request b quit cs request c conn =
      (if r \<noteq> 1 then Some (connection_set_status STATUS_DEAD conn1)
       else if quit \<or> cs < STATUS_ACTIVE then send_reply request ESHUTDOWN buf exts conn1
       else do {
         (error, buf, exts, c) \<leftarrow> handle_request b c (rq_type request) (rq_flags request)
            (rq_offset request) (rq_count request) buf exts;
         c_assert (error \<ge> 0);
         send_reply request error buf exts (conn1\<lparr>top_context := Some c\<rparr>)
       })"
    using recv new backend_get_size_cached [OF c(1), of b]
    by (cases "rq_type request = NBD_CMD_BLOCK_STATUS")
      (simp_all add: perform_request_def exts_def conn Let_def cong: if_cong)
  have down: "\<exists>stop conn'. send_reply request ESHUTDOWN buf exts conn1 = Some (stop, conn')
      \<and> session_ok winv sz native_zero short conn'"
    using send_reply_ok [of ESHUTDOWN request conn1 sz exts buf] session_ok_cong [OF same_session_trans [OF s1] ok]
    by auto
  have run: "\<exists>stop conn'. (do {
         (error, buf, exts, c) \<leftarrow> handle_request b c (rq_type request) (rq_flags request)
            (rq_offset request) (rq_count request) buf exts;
         c_assert (error \<ge> 0);
         send_reply request error buf exts (conn1\<lparr>top_context := Some c\<rparr>)
       }) = Some (stop, conn') \<and> session_ok winv sz native_zero short conn'" if "r = 1"
  proof (rule run_request_ok [OF session_ok_cong [OF s1 ok]])
    show "top_context conn1 = Some c" using s1 top by (simp add: same_session_def)
    show "validate_request conn1 c (rq_type request) (rq_flags request) (rq_offset request)
        (rq_count request) = Some None" using val by (simp add: validate_request_cong [OF s1])
    show "rq_type request = NBD_CMD_WRITE \<longrightarrow> length buf = unat (rq_count request)"
      using recv that raw_recv_length by auto
  qed (simp add: exts_def x_def)
  show ?thesis unfolding shape using dead down run by auto
qed


lemma protocol_round_ok:
  assumes ok: "session_ok winv sz native_zero short conn"
  shows "\<exists>stop conn'. protocol_recv_request_send_reply b quit conn = Some (stop, conn')
    \<and> session_ok winv sz native_zero short conn'"
proof -
  obtain r bytes conn1 where recv: "raw_recv 28 conn = (r, bytes, conn1)" using prod_cases3 by blast
  have s1: "same_session conn conn1" by (rule raw_recv_session [OF recv])
  have ok1: "session_ok winv sz native_zero short conn1" by (rule session_ok_cong [OF s1 ok])
  obtain c where c: "top_context conn1 = Some c" "negotiated sz c"
    using ok1 by (auto simp: session_ok_def split: option.splits)
  have st: "\<exists>stop conn'. Some (connection_set_status s conn2) = Some (stop, conn')
      \<and> session_ok winv sz native_zero short conn'" if "same_session conn1 conn2" for s conn2
    using session_ok_cong [OF same_session_trans [OF that set_status_session] ok1] by (metis prod.collapse)
  have rep: "\<exists>stop conn'. send_reply request error buf None conn2 = Some (stop, conn')
      \<and> session_ok winv sz native_zero short conn'"
    if "same_session conn1 conn2" "error \<noteq> 0" for request error buf conn2
    using send_reply_ok [of error request conn2 sz None buf] that session_ok_cong [OF same_session_trans [OF that(1)] ok1]
    by auto
  define request where "request = dec_request bytes"
  have "\<exists>e. validate_request conn1 c (rq_type request) (rq_flags request) (rq_offset request)
      (rq_count request) = Some e \<and> (\<forall>err. e = Some err \<longrightarrow> err \<noteq> 0)"
    using negotiatedD [OF c(2)]
    by (auto simp: validate_request_def validate_range_def validate_flags_def validate_allowed_def
        backend_valid_range_iff split: option.splits if_splits)
  then obtain e where e: "validate_request conn1 c (rq_type request) (rq_flags request) (rq_offset request)
      (rq_count request) = Some e" "\<And>err. e = Some err \<Longrightarrow> err \<noteq> 0" by auto
  show ?thesis
  proof (cases e)
    case None
    with e(1) have "\<exists>stop conn'. perform_request b quit cs request c conn1 = Some (stop, conn')
        \<and> session_ok winv sz native_zero short conn'" for cs
      by (intro perform_request_ok [OF ok1 c(1)]) simp
    with None show ?thesis
      using st [OF same_session_refl] e(1) c(1)
      by (auto simp: protocol_recv_request_send_reply_def recv Let_def ok1 simp flip: request_def)
  next
    case (Some err)
    obtain r2 conn2 where sk: "skip_over_write_buffer (rq_count request) conn1 = (r2, conn2)" by force
    show ?thesis
      using Some st [OF same_session_refl] st [OF skip_session [OF sk]] e c(1)
        rep [OF same_session_refl e(2)] rep [OF skip_session [OF sk] e(2)]
      by (auto simp: protocol_recv_request_send_reply_def recv Let_def ok1 sk simp flip: request_def)
  qed
qed

end

subsection \<open>Replies\<close>

text \<open>An active connection whose sends succeed.\<close>

definition ready :: "'s connection \<Rightarrow> bool" where
  "ready conn \<longleftrightarrow> conn_status conn = STATUS_ACTIVE \<and> out_open conn \<and> wscript conn = []"

text \<open>The bytes of the reply to a request other than a block status with structured replies.\<close>

definition reply_bytes :: "bool \<Rightarrow> nbd_request \<Rightarrow> int \<Rightarrow> u8 list \<Rightarrow> u8 list" where
  "reply_bytes structured request error data =
     (let code = word_of_int (nbd_errno error (rq_flags request)) :: u32 in
      if structured \<and> rq_type request = NBD_CMD_READ then
        (if error = 0
         then enc_structured_reply (structured_reply (rq_cookie request) NBD_REPLY_TYPE_OFFSET_DATA
                (rq_count request + 8)) @ be64 (rq_offset request) @ data
         else enc_structured_reply (structured_reply (rq_cookie request) NBD_REPLY_TYPE_ERROR 6)
                @ enc_chunk_error code 0)
      else enc_simple_reply \<lparr>sr_magic = NBD_SIMPLE_REPLY_MAGIC, sr_error = code, sr_cookie = rq_cookie request\<rparr>
             @ (if rq_type request = NBD_CMD_READ \<and> error = 0 then data else []))"

lemma raw_recv_stream:
  assumes "n \<le> length (stream (sockin conn))"
  obtains s' where "raw_recv n conn = (1, take n (stream (sockin conn)), conn\<lparr>sockin := s'\<rparr>)"
    "stream s' = drop n (stream (sockin conn))"
  using raw_recv_loop_stream [OF assms, of True "[]"] by (auto simp: raw_recv_def)

lemma raw_send_ready:
  "ready conn \<Longrightarrow> raw_send_socket buf conn = (0, conn\<lparr>sockout := sockout conn @ buf, wscript := []\<rparr>)"
  by (cases buf) (auto simp: ready_def raw_send_socket_def)

lemma send_all_ready:
  "ready conn \<Longrightarrow> send_all bufs conn = (False, conn\<lparr>sockout := sockout conn @ concat bufs\<rparr>)"
proof (induction bufs arbitrary: conn)
  case Nil
  then show ?case by (simp add: send_all.simps)
next
  case (Cons buf bufs)
  have r: "ready (conn\<lparr>sockout := sockout conn @ buf, wscript := []\<rparr>)"
    using Cons.prems by (simp add: ready_def)
  have "conn\<lparr>sockout := s, wscript := []\<rparr> = conn\<lparr>sockout := s\<rparr>" for s
    using Cons.prems by (simp add: ready_def)
  with Cons.IH [OF r] raw_send_ready [OF Cons.prems] show ?case by (simp add: send_all.simps)
qed

lemma send_reply_ready:
  assumes "ready conn"
    and "rq_type request = NBD_CMD_BLOCK_STATUS \<longrightarrow> \<not> structured_replies conn"
  shows "send_reply request error data exts conn
    = Some (False, conn\<lparr>sockout := sockout conn @ reply_bytes (structured_replies conn) request error data\<rparr>)"
proof -
  have "\<not> connection_get_status conn < STATUS_CLIENT_DONE"
    using assms(1) by (simp add: ready_def connection_get_status_def)
  with assms(2) show ?thesis
    using send_all_ready [OF assms(1)]
    by (auto simp: send_reply_def reply_bytes_def send_simple_reply_def send_structured_reply_error_def
        send_structured_reply_read_def Let_def)
qed

context disk_backend
begin

lemma perform_request_reply:
  assumes ok: "session_ok winv sz native_zero short conn" and rdy: "ready conn"
    and top: "top_context conn = Some c" and inp: "stream (sockin conn) = payload @ rest"
    and pay: "length payload = (if rq_type request = NBD_CMD_WRITE then unat (rq_count request) else 0)"
    and nst: "rq_type request = NBD_CMD_BLOCK_STATUS \<longrightarrow> \<not> structured_replies conn"
    and val: "validate_request conn c (rq_type request) (rq_flags request) (rq_offset request)
                (rq_count request) = Some None"
  shows "\<exists>error data w s. perform_request b False STATUS_ACTIVE request c conn
      = Some (False, conn\<lparr>top_context := Some (c\<lparr>inner := w\<rparr>), sockin := s,
          sockout := sockout conn @ reply_bytes (structured_replies conn) request error data\<rparr>)
    \<and> stream s = rest \<and> winv w \<and> error \<ge> 0
    \<and> same_outside (unat (rq_offset request)) (unat (rq_count request)) (dsk (inner c)) (dsk w)
    \<and> (error = 0 \<longrightarrow> request_effect (rq_type request) (unat (rq_offset request)) (unat (rq_count request))
          payload (dsk (inner c)) (dsk w) data)"
proof -
  have c: "negotiated sz c" "winv (inner c)" "advertised conn c"
      "c_can_fast_zero c = 1 \<or> c_can_zero c = 0" "c_can_zero c = NBDKIT_ZERO_NATIVE \<longrightarrow> native_zero"
    using ok top by (auto simp: session_ok_def)
  note acc = validate_request_accepted [OF val c(1,3)]
  have fast: "has (rq_flags request) NBD_CMD_FLAG_FAST_ZERO \<longrightarrow> c_can_fast_zero c = 1"
    using acc(5,8) c(4) by auto
  have nbs: "rq_type request \<noteq> NBD_CMD_BLOCK_STATUS" using acc(10) nst by auto
  have conn: "conn\<lparr>top_context := Some c\<rparr> = conn" using top by simp
  obtain s where r: "(if rq_type request = NBD_CMD_WRITE then raw_recv (unat (rq_count request)) conn
      else (1, [], conn)) = (1, payload, conn\<lparr>sockin := s\<rparr>)" "stream s = rest"
  proof (cases "rq_type request = NBD_CMD_WRITE")
    case True
    then have len: "length payload = unat (rq_count request)" using pay by simp
    then have "unat (rq_count request) \<le> length (stream (sockin conn))" by (simp add: inp)
    then obtain s where "raw_recv (unat (rq_count request)) conn = (1, payload, conn\<lparr>sockin := s\<rparr>)"
        "stream s = rest"
      by (rule raw_recv_stream) (simp add: inp len)
    with True that show ?thesis by auto
  next
    case False
    with pay inp that [of "sockin conn"] show ?thesis by simp
  qed
  have "handled winv dsk c (rq_type request) (unat (rq_offset request)) (unat (rq_count request)) payload None
      (handle_request b c (rq_type request) (rq_flags request) (rq_offset request) (rq_count request) payload None)"
    using pay nbs by (intro handle_request_ok [OF c(1-3) val fast c(5)]) auto
  then obtain error buf' exts' w where h: "handle_request b c (rq_type request) (rq_flags request)
          (rq_offset request) (rq_count request) payload None = Some (error, buf', exts', c\<lparr>inner := w\<rparr>)"
      "winv w" "error \<ge> 0"
      "same_outside (unat (rq_offset request)) (unat (rq_count request)) (dsk (inner c)) (dsk w)"
      "error = 0 \<longrightarrow> request_effect (rq_type request) (unat (rq_offset request)) (unat (rq_count request))
          payload (dsk (inner c)) (dsk w) buf'"
    by (auto simp: handled_def split: option.splits)
  have "ready (conn\<lparr>sockin := s, top_context := Some (c\<lparr>inner := w\<rparr>)\<rparr>)" using rdy by (simp add: ready_def)
  then have "perform_request b False STATUS_ACTIVE request c conn
      = Some (False, conn\<lparr>sockin := s, top_context := Some (c\<lparr>inner := w\<rparr>),
          sockout := sockout conn @ reply_bytes (structured_replies conn) request error buf'\<rparr>)"
    using h(1,3) nbs send_reply_ready [of "conn\<lparr>sockin := s, top_context := Some (c\<lparr>inner := w\<rparr>)\<rparr>" request
        error buf' exts']
    by (simp add: perform_request_def Let_def conn r(1) cong: if_cong split del: if_split)
  with r(2) h(2-5) show ?thesis by (intro exI [of _ error] exI [of _ buf'] exI [of _ w] exI [of _ s]) simp
qed

lemma protocol_round_reply:
  assumes ok: "session_ok winv sz native_zero short conn" and rdy: "ready conn"
    and top: "top_context conn = Some c"
    and inp: "stream (sockin conn) = enc_request request @ payload @ rest"
    and pay: "length payload = (if rq_type request = NBD_CMD_WRITE then unat (rq_count request) else 0)"
    and magic: "rq_magic request = NBD_REQUEST_MAGIC"
    and nst: "rq_type request = NBD_CMD_BLOCK_STATUS \<longrightarrow> \<not> structured_replies conn"
    and val: "validate_request conn c (rq_type request) (rq_flags request) (rq_offset request)
                (rq_count request) = Some None"
  shows "\<exists>error data w s. protocol_recv_request_send_reply b False conn
      = Some (False, conn\<lparr>top_context := Some (c\<lparr>inner := w\<rparr>), sockin := s,
          sockout := sockout conn @ reply_bytes (structured_replies conn) request error data\<rparr>)
    \<and> stream s = rest \<and> winv w \<and> error \<ge> 0
    \<and> same_outside (unat (rq_offset request)) (unat (rq_count request)) (dsk (inner c)) (dsk w)
    \<and> (error = 0 \<longrightarrow> request_effect (rq_type request) (unat (rq_offset request)) (unat (rq_count request))
          payload (dsk (inner c)) (dsk w) data)"
proof -
  have c: "negotiated sz c" "advertised conn c" using ok top by (auto simp: session_ok_def)
  have ndisc: "rq_type request \<noteq> NBD_CMD_DISC" using validate_request_accepted(1) [OF val c] by auto
  have "28 \<le> length (stream (sockin conn))" by (simp add: inp)
  then obtain s1 where r1: "raw_recv 28 conn = (1, enc_request request, conn\<lparr>sockin := s1\<rparr>)"
      "stream s1 = payload @ rest"
    by (rule raw_recv_stream) (simp add: inp)
  define conn1 where "conn1 = conn\<lparr>sockin := s1\<rparr>"
  have s1: "same_session conn conn1" by (simp add: conn1_def same_session_def)
  have conn1: "top_context conn1 = Some c" "ready conn1" "stream (sockin conn1) = payload @ rest"
      "structured_replies conn1 = structured_replies conn" "sockout conn1 = sockout conn"
    using top rdy r1(2) by (simp_all add: conn1_def ready_def)
  have cs: "connection_get_status conn1 = STATUS_ACTIVE"
    using conn1(2) by (simp add: ready_def connection_get_status_def)
  have "protocol_recv_request_send_reply b False conn = perform_request b False STATUS_ACTIVE request c conn1"
    using ndisc magic val cs conn1(1)
    by (simp add: protocol_recv_request_send_reply_def r1(1) Let_def validate_request_cong [OF s1] flip: conn1_def)
  with perform_request_reply [OF session_ok_cong [OF s1 ok] conn1(2,1,3) pay] nst val show ?thesis
    by (simp add: conn1(4,5) validate_request_cong [OF s1]) (simp add: conn1_def)
qed

end

subsection \<open>The request loop ends\<close>

fun script_size :: "read_result list \<Rightarrow> nat" where
  "script_size [] = 0"
| "script_size (Rd bs # s) = Suc (length bs + script_size s)"
| "script_size (RdIntr # s) = Suc (script_size s)"
| "script_size (RdErr # s) = Suc (script_size s)"

lemma raw_recv_loop_size:
  "raw_recv_loop n first acc s = (r, bs, s') \<Longrightarrow> script_size s' \<le> script_size s \<and> (r = 1 \<and> 0 < n \<longrightarrow> script_size s' < script_size s)"
proof (induction n first acc s rule: raw_recv_loop.induct)
  case (5 len first acc bs' s)
  show ?case
  proof (cases "bs' \<noteq> [] \<and> length bs' \<le> Suc len")
    case True
    with 5 show ?thesis by (auto simp: Suc_diff_le)
  next
    case False
    with 5(2) show ?thesis by (auto split: if_splits)
  qed
qed (auto split: if_splits)

lemma skip_loop_size: "skip_loop n s = (r, s') \<Longrightarrow> script_size s' \<le> script_size s"
proof (induction n s rule: skip_loop.induct)
  case (5 n bs s)
  show ?case
  proof (cases "bs \<noteq> [] \<and> length bs \<le> Suc n")
    case True
    with 5 show ?thesis by auto
  next
    case False
    with 5(2) show ?thesis by (auto split: if_splits)
  qed
qed (auto split: if_splits)

lemma set_status_in [simp]: "sockin (snd (connection_set_status v conn)) = sockin conn"
  by (simp add: connection_set_status_def Let_def)

lemma set_status_le: "conn_status (snd (connection_set_status v conn)) \<le> v"
  by (auto simp: connection_set_status_def Let_def)

lemma raw_send_in: "raw_send_socket buf conn = (r, conn') \<Longrightarrow> sockin conn' = sockin conn"
  by (auto simp: raw_send_socket_def split: if_splits prod.splits)

lemma send_all_in [simp]: "sockin (snd (send_all bufs conn)) = sockin conn"
  by (induction bufs arbitrary: conn)
    (auto simp: send_all.simps dest!: raw_send_in split: prod.splits)

lemma send_reply_in: "send_reply request error buf exts conn = Some (stop, conn') \<Longrightarrow> sockin conn' = sockin conn"
proof -
  have "sockin conn' = sockin conn" if "Some (send_all bufs conn) = Some (stop, conn')" for bufs
    using that send_all_in [of bufs conn] by (simp del: send_all_in)
  then show "send_reply request error buf exts conn = Some (stop, conn') \<Longrightarrow> sockin conn' = sockin conn"
    by (auto simp: send_reply_def Let_def send_simple_reply_def send_structured_reply_error_def
        send_structured_reply_read_def send_structured_reply_block_status_def bind_eq_Some_conv split: if_splits)
qed

lemma raw_recv_size:
  "raw_recv n conn = (r, bs, conn') \<Longrightarrow>
     script_size (sockin conn') \<le> script_size (sockin conn)
     \<and> (r = 1 \<and> 0 < n \<longrightarrow> script_size (sockin conn') < script_size (sockin conn))"
  by (auto simp: raw_recv_def split: prod.splits dest: raw_recv_loop_size)

lemma skip_size:
  "skip_over_write_buffer n conn = (r, conn') \<Longrightarrow> script_size (sockin conn') \<le> script_size (sockin conn)"
  by (auto simp: skip_over_write_buffer_def split: if_splits prod.splits dest: skip_loop_size)

lemma raw_recv_code: "raw_recv n conn = (r, bs, conn') \<Longrightarrow> r = 1 \<or> r = 0 \<or> r = - 1"
proof -
  have "fst (raw_recv_loop n first acc s) \<in> {1, 0, - 1}" for first acc s
    by (induction n first acc s rule: raw_recv_loop.induct) auto
  from this [of True "[]" "sockin conn"]
  show "raw_recv n conn = (r, bs, conn') \<Longrightarrow> r = 1 \<or> r = 0 \<or> r = - 1"
    by (auto simp: raw_recv_def split: prod.splits)
qed

lemma perform_request_size:
  assumes "perform_request b quit cs request c conn = Some (stop, conn')"
  shows "script_size (sockin conn') \<le> script_size (sockin conn)"
proof -
  have dead: "sockin conn2 = sockin conn1" if "connection_set_status STATUS_DEAD conn1 = (stop, conn2)" for conn1 conn2
    using set_status_in [of STATUS_DEAD conn1] that by simp
  show ?thesis
    using assms
    by (auto simp: perform_request_def Let_def bind_eq_Some_conv dest!: send_reply_in dead raw_recv_size
        split: if_splits prod.splits)
qed

lemma protocol_round_progress:
  assumes "protocol_recv_request_send_reply b quit conn = Some (stop, conn')"
    and "conn_status conn > STATUS_CLIENT_DONE"
  shows "conn_status conn' \<le> STATUS_CLIENT_DONE \<or> script_size (sockin conn') < script_size (sockin conn)"
proof -
  obtain r bytes conn1 where recv: "raw_recv 28 conn = (r, bytes, conn1)" using prod_cases3 by blast
  have st: "conn_status conn1 = conn_status conn"
    using recv by (auto simp: raw_recv_def split: prod.splits)
  have sz: "r = 1 \<Longrightarrow> script_size (sockin conn1) < script_size (sockin conn)"
    using raw_recv_size [OF recv] by auto
  have r: "r = 1 \<or> r = 0 \<or> r = - 1"
    using recv raw_recv_code by blast
  have low: "conn_status conn2 \<le> STATUS_CLIENT_DONE"
    if "connection_set_status v conn3 = (stop, conn2)" "v = STATUS_DEAD \<or> v = STATUS_CLIENT_DONE" for v conn3 conn2
    using set_status_le [of v conn3] that by auto
  define request where "request = dec_request bytes"
  note round = assms(1) [unfolded protocol_recv_request_send_reply_def recv Let_def prod.case
      connection_get_status_def st, folded request_def]
  have "conn_status conn' \<le> STATUS_CLIENT_DONE \<or> r = 1 \<and> script_size (sockin conn') \<le> script_size (sockin conn1)"
  proof (cases "r = 1 \<and> rq_magic request = NBD_REQUEST_MAGIC \<and> rq_type request \<noteq> NBD_CMD_DISC")
    case False
    with round r assms(2) show ?thesis
      using low by (auto simp: not_le [symmetric] simp del: conn_status_order split: if_splits)
  next
    case True
    with round assms(2) obtain c e where "top_context conn1 = Some c"
        and e: "validate_request conn1 c (rq_type request) (rq_flags request) (rq_offset request)
           (rq_count request) = Some e"
        and tail: "(case e of
           Some error \<Rightarrow>
             if rq_type request = NBD_CMD_WRITE then
               (case skip_over_write_buffer (rq_count request) conn1 of
                  (r, conn) \<Rightarrow> if r < 0 then Some (connection_set_status STATUS_DEAD conn)
                              else send_reply request error [] None conn)
             else send_reply request error [] None conn1
         | None \<Rightarrow> perform_request b quit (conn_status conn) request c conn1) = Some (stop, conn')"
      by (auto simp: bind_eq_Some_conv not_le [symmetric] simp del: conn_status_order split: if_splits)
    from tail show ?thesis
    proof (cases e)
      case None
      with tail have "perform_request b quit (conn_status conn) request c conn1 = Some (stop, conn')" by simp
      from perform_request_size [OF this] True show ?thesis by simp
    next
      case (Some error)
      obtain r2 conn2 where sk: "skip_over_write_buffer (rq_count request) conn1 = (r2, conn2)" by force
      from Some tail True skip_size [OF sk] low [of STATUS_DEAD conn2] show ?thesis
        by (auto simp: sk simp del: conn_status_order dest!: send_reply_in split: if_splits)
    qed
  qed
  with sz show ?thesis by auto
qed

lemma raw_close_session [simp]: "same_session conn (raw_close_wr conn)"
  by (simp add: same_session_def raw_close_wr_def)

context disk_backend
begin

lemma process_requests_ok:
  "session_ok winv sz native_zero short conn \<Longrightarrow>
     \<exists>conn'. process_requests b False conn = Some conn' \<and> session_ok winv sz native_zero short conn'
       \<and> conn_status conn' \<le> STATUS_CLIENT_DONE"
proof (induction "script_size (sockin conn)" arbitrary: conn rule: less_induct)
  case less
  show ?case
  proof (cases "connection_get_status conn > STATUS_CLIENT_DONE")
    case False
    with less.prems show ?thesis
      by (auto simp: process_requests.simps [of b False conn] connection_get_status_def)
  next
    case True
    obtain stop conn1 where r: "protocol_recv_request_send_reply b False conn = Some (stop, conn1)"
        "session_ok winv sz native_zero short conn1"
      using protocol_round_ok [OF less.prems] by blast
    define conn2 where "conn2 = (if stop then raw_close_wr conn1 else conn1)"
    have eq: "process_requests b False conn = process_requests b False conn2"
      using True r(1) by (subst process_requests.simps) (simp add: conn2_def)
    have ok2: "session_ok winv sz native_zero short conn2"
      using session_ok_cong [OF raw_close_session r(2)] r(2) by (simp add: conn2_def)
    have same: "sockin conn2 = sockin conn1" "conn_status conn2 = conn_status conn1"
      by (simp_all add: conn2_def raw_close_wr_def)
    from protocol_round_progress [OF r(1)] True
    consider "conn_status conn2 \<le> STATUS_CLIENT_DONE" | "script_size (sockin conn2) < script_size (sockin conn)"
      by (auto simp: same connection_get_status_def)
    then show ?thesis
    proof cases
      case 1
      then have "process_requests b False conn2 = Some conn2"
        by (subst process_requests.simps) (simp add: connection_get_status_def)
      with 1 eq ok2 show ?thesis by auto
    next
      case 2
      from less.hyps [OF this ok2] eq show ?thesis by simp
    qed
  qed
qed

end

subsection \<open>A write followed by a read\<close>

lemma validate_request_inner:
  "validate_request conn (c\<lparr>inner := w\<rparr>) = validate_request conn c"
  by (simp add: fun_eq_iff validate_request_def validate_range_def backend_valid_range_def)

lemma validate_request_io:
  "validate_request (conn\<lparr>top_context := t, sockin := s, sockout := out\<rparr>) = validate_request conn"
proof -
  let ?conn = "conn\<lparr>top_context := t, sockin := s, sockout := out\<rparr>"
  have "validate_flags ?conn = validate_flags conn" "validate_allowed ?conn = validate_allowed conn"
    by (simp_all add: fun_eq_iff validate_flags_def validate_allowed_def)
  then show ?thesis by (simp add: fun_eq_iff validate_request_def cong: option.case_cong if_cong)
qed

text \<open>The server answers two requests in a row.\<close>

definition two_rounds :: "('s, 'x) backend_scheme \<Rightarrow> 's connection \<Rightarrow> 's connection option" where
  "two_rounds b conn = do {
     (_, conn) \<leftarrow> protocol_recv_request_send_reply b False conn;
     (_, conn) \<leftarrow> protocol_recv_request_send_reply b False conn;
     Some conn }"

context disk_backend
begin

lemma two_rounds_ok:
  assumes ok: "session_ok winv sz native_zero short conn" and rdy: "ready conn" and top: "top_context conn = Some c"
    and inp: "stream (sockin conn) = enc_request wr @ data @ enc_request rd @ rest"
    and wr: "rq_type wr = NBD_CMD_WRITE" "rq_magic wr = NBD_REQUEST_MAGIC" "length data = unat (rq_count wr)"
    and rd: "rq_type rd = NBD_CMD_READ" "rq_magic rd = NBD_REQUEST_MAGIC"
      "rq_offset rd = rq_offset wr" "rq_count rd = rq_count wr"
    and vw: "validate_request conn c (rq_type wr) (rq_flags wr) (rq_offset wr) (rq_count wr) = Some None"
    and vr: "validate_request conn c (rq_type rd) (rq_flags rd) (rq_offset rd) (rq_count rd) = Some None"
  shows "\<exists>conn' e1 d1 e2 d2. two_rounds b conn = Some conn' \<and> stream (sockin conn') = rest
    \<and> sockout conn' = sockout conn @ reply_bytes (structured_replies conn) wr e1 d1
        @ reply_bytes (structured_replies conn) rd e2 d2
    \<and> (e1 = 0 \<and> e2 = 0 \<longrightarrow> d2 = data)"
proof -
  obtain e1 d1 w1 s1 where 1: "protocol_recv_request_send_reply b False conn
      = Some (False, conn\<lparr>top_context := Some (c\<lparr>inner := w1\<rparr>), sockin := s1,
          sockout := sockout conn @ reply_bytes (structured_replies conn) wr e1 d1\<rparr>)"
      "stream s1 = enc_request rd @ rest" "winv w1"
      "e1 = 0 \<longrightarrow> dsk w1 = disk_write (dsk (inner c)) (unat (rq_offset wr)) data"
    using protocol_round_reply [OF ok rdy top, of wr data "enc_request rd @ rest"] inp wr vw
    by (auto simp: request_effect_def)
  let ?c = "c\<lparr>inner := w1\<rparr>"
  let ?conn = "conn\<lparr>top_context := Some ?c, sockin := s1,
     sockout := sockout conn @ reply_bytes (structured_replies conn) wr e1 d1\<rparr>"
  have "session_ok winv sz native_zero short (conn\<lparr>top_context := Some ?c\<rparr>)"
    by (rule session_ok_inner [OF ok top 1(3)])
  then have ok2: "session_ok winv sz native_zero short ?conn"
    by (rule session_ok_cong [rotated]) (simp add: same_session_def)
  have rdy2: "ready ?conn" using rdy by (simp add: ready_def)
  obtain e2 d2 w2 s2 where 2: "protocol_recv_request_send_reply b False ?conn
      = Some (False, ?conn\<lparr>top_context := Some (?c\<lparr>inner := w2\<rparr>), sockin := s2,
          sockout := sockout ?conn @ reply_bytes (structured_replies ?conn) rd e2 d2\<rparr>)"
      "stream s2 = rest"
      "e2 = 0 \<longrightarrow> d2 = disk_read (dsk w1) (unat (rq_offset rd)) (unat (rq_count rd))"
    using protocol_round_reply [OF ok2 rdy2, of ?c rd "[]" rest] 1(2) rd vr
    by (auto simp: request_effect_def validate_request_io validate_request_inner)
  have "two_rounds b conn = Some (?conn\<lparr>top_context := Some (?c\<lparr>inner := w2\<rparr>), sockin := s2,
          sockout := sockout ?conn @ reply_bytes (structured_replies ?conn) rd e2 d2\<rparr>)"
    using 1(1) 2(1) by (simp add: two_rounds_def)
  moreover have "e1 = 0 \<and> e2 = 0 \<longrightarrow> d2 = data"
    using 1(4) 2(3) rd(3,4) by (simp flip: wr(3))
  ultimately show ?thesis using 2(2) by auto
qed

end

subsection \<open>Properties\<close>

text \<open>C27: A block status reply describes the extents from the request's offset on.  Unless the client asked for one extent
  only, there is one descriptor for each extent, in order, each with the length of the extent or \<^verbatim>\<open>UINT32_MAX\<close> if that
  is less, cut off after the first extent that reaches beyond the request.  With \<^verbatim>\<open>REQ_ONE\<close> there is one descriptor, of the first
  extent cut at the end of the request.  The request has less than \<^verbatim>\<open>UINT32_MAX\<close> bytes or no extent is longer than that: the
  one remaining case is the failing assertion below.\<close>

theorem block_status_descriptors:
  assumes "wf_extents x" and "extents x \<noteq> []" and "x_start x = off" and "unat off + unat count < 2 ^ 63"
    and "unat count < 0xffffffff \<or> list_all (\<lambda>e. ext_length e \<le> 0xffffffff) (extents x)"
  shows "if has flags NBD_CMD_FLAG_REQ_ONE
    then extents_to_block_descriptors x flags count off
      = Some [\<lparr>bd_length = of_nat (min (unat (ext_length (hd (extents x)))) (unat count)), bd_status_flags = ext_type (hd (extents x)) AND 3\<rparr>]
    else \<exists>n. 0 < n \<and> extents_to_block_descriptors x flags count off = Some (map descriptor (take n (extents x)))
      \<and> span (take (n - 1) (extents x)) \<le> unat count
      \<and> (n < length (extents x) \<longrightarrow> unat count < span (take n (extents x)))"
proof -
  have c: "contiguous (unat off) (extents x)" "unat off + span (extents x) < 2 ^ 63"
    using assms(1,3) by (auto simp: wf_extents_def covered_def)
  from block_descriptors_ok [OF this, of True off count] assms(2,4,5)
  obtain n where n: "block_descriptors off count True off (extents x) = Some (map descriptor (take n (extents x)))"
      "0 < n" "unat off + span (take (n - 1) (extents x)) \<le> unat off + unat count"
      "n < length (extents x) \<longrightarrow> unat off + unat count < unat off + span (take n (extents x))"
    by (auto simp: list_all_iff)
  obtain e es where e: "extents x = e # es" using assms(2) by (cases "extents x") auto
  have "ext_length e > 0" using c(1) e by (simp add: word_gt_0 unat_gt_0 [symmetric])
  moreover have "(ucast (ucast count :: u64) :: u32) = count" by (rule bit_word_eqI) (simp add: bit_simps)
  then have "ucast (min (ext_length e) (ucast count)) = (of_nat (min (unat (ext_length e)) (unat count)) :: u32)"
    by (simp add: min_def word_le_nat_alt unat_ucast_up)
  ultimately show ?thesis
    using n assms(2) e
    by (auto simp: extents_to_block_descriptors_def nbdkit_extents_count_def nbdkit_get_extent_def Suc_le_eq)
qed

text \<open>
  The test \<^verbatim>\<open>pos > offset + count\<close> misses a block that ends exactly at the end of the request: with an extent longer than
  \<^verbatim>\<open>UINT32_MAX\<close> and a request of \<^verbatim>\<open>UINT32_MAX\<close> bytes the assertion after it fails.
\<close>

theorem block_status_assertion_fails:
  "extents_to_block_descriptors \<lparr>extents = [\<lparr>ext_offset = 0, ext_length = 0x100000000, ext_type = 0\<rparr>], x_start = 0,
     x_end = 0x200000000, x_next = - 1\<rparr> 0 0xffffffff 0 = None"
  by (simp add: extents_to_block_descriptors_def nbdkit_extents_count_def min_def)

end
