(* ===== verification/Handshake.thy ===== *)
theory Handshake
  imports Protocol
begin

text \<open>
  The handshake, \<^verbatim>\<open>src/server/protocol-handshake.c\<close>, \<^verbatim>\<open>src/server/protocol-handshake-oldstyle.c\<close> and
  \<^verbatim>\<open>src/server/protocol-handshake-newstyle.c\<close>: the options a client sends, the opening of the backend
  and the export flags the server promises.

  While no context is open the callbacks' \<open>world\<close> is passed along as \<open>w\<close>; once
  \<^verbatim>\<open>conn->top_context\<close> is set the world is the \<open>inner\<close> part of that context and \<open>w\<close> is not looked at.
  Every read of the option's data is checked against its length, and one that is out of bounds aborts.
\<close>

subsection \<open>The server\<close>

text \<open>
  The top backend with the operations of the layers below it, the command line settings, and three
  parameters: \<open>last_error\<close> is the text of the thread's last error when a reply is sent,
  \<open>crypto_negotiate_tls\<close> runs the TLS handshake on the two ends of the connection, which afterwards
  carry the plain text, and \<open>have_gnutls\<close> is \<^verbatim>\<open>HAVE_GNUTLS\<close>.
\<close>

type_synonym transport = "Connections.read_result list \<times> u8 list \<times> write_result list"

record 's server =
  top :: "'s backend"
  close_next :: "('s ctx \<Rightarrow> 's world option) option"
  prepare_next :: "'s query option"
  finalize_next :: "'s query option"
  close_rest :: "('s world \<Rightarrow> 's world option) option"
  forget_exportnames :: "'s world \<Rightarrow> 's world"
  preconnect :: "bool \<Rightarrow> 's world \<Rightarrow> (int \<times> 's world) option"
  read_only :: bool
  tls :: nat
  newstyle :: bool
  no_sr :: bool
  no_mc :: bool
  mask_handshake :: u32
  thread_model :: int
  have_gnutls :: bool
  last_error :: "'s connection \<Rightarrow> cstring option"
  crypto_negotiate_tls :: "transport \<Rightarrow> int \<times> transport"

abbreviation (input) MAX_NR_OPTIONS :: nat where "MAX_NR_OPTIONS \<equiv> 32"
abbreviation (input) NBDKIT_THREAD_MODEL_SERIALIZE_CONNECTIONS :: int where
  "NBDKIT_THREAD_MODEL_SERIALIZE_CONNECTIONS \<equiv> 0"

subsection \<open>Opening the backend\<close>

text \<open>
  One query of \<^verbatim>\<open>protocol_common_open\<close>: \<^term>\<open>None\<close> for the flags once a query has failed.
\<close>

definition open_flag :: "'s query \<Rightarrow> (int \<Rightarrow> bool) \<Rightarrow> u16 \<Rightarrow> u16 option \<times> 's ctx \<Rightarrow> (u16 option \<times> 's ctx) option" where
  "open_flag q adv flag s =
     (case s of
        (None, c) \<Rightarrow> Some (None, c)
      | (Some e, c) \<Rightarrow> do {
          (fl, c) \<leftarrow> q c;
          Some (if fl = - 1 then None else Some (if adv fl then e OR flag else e), c)
        })"

definition open_flags :: "'s server \<Rightarrow> bool \<Rightarrow> 's ctx \<Rightarrow> (u16 option \<times> 's ctx) option" where
  "open_flags srv sr c = (let b = top srv in do {
     s \<leftarrow> open_flag (backend_can_write b) (\<lambda>fl. fl = 0) NBD_FLAG_READ_ONLY (Some NBD_FLAG_HAS_FLAGS, c);
     s \<leftarrow> open_flag (backend_can_zero b) (\<lambda>fl. fl \<noteq> 0) NBD_FLAG_SEND_WRITE_ZEROES s;
     s \<leftarrow> open_flag (backend_can_fast_zero b) (\<lambda>fl. fl \<noteq> 0) NBD_FLAG_SEND_FAST_ZERO s;
     s \<leftarrow> open_flag (backend_can_trim b) (\<lambda>fl. fl \<noteq> 0) NBD_FLAG_SEND_TRIM s;
     s \<leftarrow> open_flag (backend_can_fua b) (\<lambda>fl. fl \<noteq> 0) NBD_FLAG_SEND_FUA s;
     s \<leftarrow> open_flag (backend_can_flush b) (\<lambda>fl. fl \<noteq> 0) NBD_FLAG_SEND_FLUSH s;
     s \<leftarrow> open_flag (backend_is_rotational b) (\<lambda>fl. fl \<noteq> 0) NBD_FLAG_ROTATIONAL s;
     s \<leftarrow> open_flag (backend_can_multi_conn b)
            (\<lambda>fl. fl \<noteq> 0 \<and> thread_model srv > NBDKIT_THREAD_MODEL_SERIALIZE_CONNECTIONS)
            NBD_FLAG_CAN_MULTI_CONN s;
     s \<leftarrow> open_flag (backend_can_cache b) (\<lambda>fl. fl \<noteq> 0) NBD_FLAG_SEND_CACHE s;
     (e, c) \<leftarrow> open_flag (backend_can_extents b) (\<lambda>_. False) 0 s;
     Some (case e of None \<Rightarrow> None | Some e \<Rightarrow> Some (if sr then e OR NBD_FLAG_SEND_DF else e), c)
   })"

text \<open>The result is \<^term>\<open>None\<close> for \<^verbatim>\<open>-1\<close>, else the export size and flags.\<close>

definition protocol_common_open :: "'s server \<Rightarrow> cstring \<Rightarrow> 's world \<Rightarrow> 's connection \<Rightarrow>
    ((u64 \<times> u16) option \<times> 's world \<times> 's connection) option" where
  "protocol_common_open srv exportname w conn = do {
     (cached, res) \<leftarrow> backend_open (top srv) (close_next srv) (read_only srv) exportname (using_tls conn)
        (top_context conn = None) (default_exportname conn) w;
     let conn = conn\<lparr>default_exportname := cached\<rparr>;
     (case res of
        Inl w \<Rightarrow> Some (None, w, conn\<lparr>top_context := None\<rparr>)
      | Inr c \<Rightarrow> do {
          (r, c) \<leftarrow> backend_prepare (top srv) (prepare_next srv) c;
          (if r = - 1 then Some (None, w, conn\<lparr>top_context := Some c\<rparr>)
           else do {
             (sz, c) \<leftarrow> backend_get_size (top srv) c;
             (if sz > INT64_MAX then Some (None, w, conn\<lparr>top_context := Some c\<rparr>)
              else do {
                (e, c) \<leftarrow> open_flags srv (structured_replies conn) c;
                Some (case e of None \<Rightarrow> None | Some e \<Rightarrow> Some (sz, e), w,
                      conn\<lparr>top_context := Some c\<rparr>)
              })
           })
        })
   }"

subsection \<open>The oldstyle handshake\<close>

definition protocol_handshake_oldstyle :: "'s server \<Rightarrow> 's world \<Rightarrow> 's connection \<Rightarrow>
    (int \<times> 's world \<times> 's connection) option" where
  "protocol_handshake_oldstyle srv w conn = do {
     c_assert (tls srv \<noteq> 2);
     (res, w, conn) \<leftarrow> protocol_common_open srv [] w conn;
     Some (case res of
         None \<Rightarrow> (- 1, w, conn)
       | Some (sz, e) \<Rightarrow>
           (case raw_send_socket (enc_old_handshake
               \<lparr>oh_nbdmagic = NBD_MAGIC, oh_version = NBD_OLD_VERSION, oh_exportsize = sz,
                oh_gflags = 0, oh_eflags = e\<rparr>) conn of
              (r, conn) \<Rightarrow> (if r = - 1 then - 1 else 0, w, conn)))
   }"

subsection \<open>Option replies\<close>

text \<open>Send the buffers one after the other, stopping at a failure.\<close>

fun send_bufs :: "u8 list list \<Rightarrow> 's connection \<Rightarrow> int \<times> 's connection" where
  "send_bufs [] conn = (0, conn)"
| "send_bufs (buf # bufs) conn =
     (case raw_send_socket buf conn of (r, conn) \<Rightarrow> if r = - 1 then (- 1, conn) else send_bufs bufs conn)"

declare send_bufs.simps [simp del]

definition option_reply :: "u32 \<Rightarrow> u32 \<Rightarrow> u32 \<Rightarrow> u8 list" where
  "option_reply option reply replylen = enc_fixed_new_option_reply
     \<lparr>fr_magic = NBD_REP_MAGIC, fr_option = option, fr_reply = reply, fr_replylen = replylen\<rparr>"

definition send_newstyle_option_reply :: "'s server \<Rightarrow> u32 \<Rightarrow> u32 \<Rightarrow> 's connection \<Rightarrow> int \<times> 's connection" where
  "send_newstyle_option_reply srv option reply conn =
     (let err = (if has reply 0x80000000 then last_error srv conn else None);
          msg = (case err of None \<Rightarrow> [] | Some e \<Rightarrow> if length e \<le> NBD_MAX_STRING then e else []) in
      send_bufs (option_reply option reply (of_nat (length msg)) # (if length msg > 0 then [msg] else [])) conn)"

fun send_exports :: "u32 \<Rightarrow> nbdkit_export list \<Rightarrow> 's connection \<Rightarrow> int \<times> 's connection" where
  "send_exports option [] conn = (0, conn)"
| "send_exports option (e # es) conn =
     (let desc = (case e_description e of None \<Rightarrow> [] | Some d \<Rightarrow> d) in
      case send_bufs [option_reply option NBD_REP_SERVER (of_nat (length (e_name e) + 4 + length desc)),
             be32 (of_nat (length (e_name e))), e_name e, desc] conn of
        (r, conn) \<Rightarrow> if r = - 1 then (- 1, conn) else send_exports option es conn)"

text \<open>The first result is the return code, the second the growth of \<^verbatim>\<open>nr_options\<close>.\<close>

definition send_newstyle_option_reply_exportnames :: "'s server \<Rightarrow> u32 \<Rightarrow> 's world \<Rightarrow> 's connection \<Rightarrow>
    (int \<times> nat \<times> 's world \<times> 's connection) option" where
  "send_newstyle_option_reply_exportnames srv option w conn = do {
     (r, exps, cached, w) \<leftarrow> backend_list_exports (top srv) (read_only srv) (using_tls conn)
        (top_context conn = None) (default_exportname conn) nbdkit_exports_new w;
     let conn = conn\<lparr>default_exportname := cached\<rparr>;
     (if r = - 1
      then (case send_newstyle_option_reply srv option NBD_REP_ERR_PLATFORM conn of (r, conn) \<Rightarrow> Some (r, 0, w, conn))
      else (case send_exports option (exps_list exps) conn of (r, conn) \<Rightarrow>
        if r = - 1 then Some (- 1, MAX_NR_OPTIONS * nbdkit_exports_count exps, w, conn)
        else (case send_newstyle_option_reply srv option NBD_REP_ACK conn of (r, conn) \<Rightarrow>
          Some (r, MAX_NR_OPTIONS * nbdkit_exports_count exps, w, conn))))
   }"

definition send_newstyle_option_reply_info_export :: "u32 \<Rightarrow> u32 \<Rightarrow> u64 \<Rightarrow> 's connection \<Rightarrow> int \<times> 's connection" where
  "send_newstyle_option_reply_info_export option reply sz conn =
     send_bufs [option_reply option reply 12, enc_info_export sz (eflags conn)] conn"

definition send_newstyle_option_reply_info_str :: "u32 \<Rightarrow> u32 \<Rightarrow> u16 \<Rightarrow> cstring \<Rightarrow> 's connection \<Rightarrow>
    (int \<times> 's connection) option" where
  "send_newstyle_option_reply_info_str option reply info str conn = do {
     c_assert (length str \<le> NBD_MAX_STRING);
     Some (send_bufs [option_reply option reply (of_nat (2 + length str)), be16 info, str] conn)
   }"

definition send_newstyle_option_reply_info_block_size :: "u32 \<Rightarrow> u32 \<Rightarrow> u32 \<times> u32 \<times> u32 \<Rightarrow> 's connection \<Rightarrow>
    int \<times> 's connection" where
  "send_newstyle_option_reply_info_block_size option reply sizes conn =
     (case sizes of (minimum, preferred, maximum) \<Rightarrow>
        send_bufs [option_reply option reply 14, enc_info_block_size minimum preferred maximum] conn)"

text \<open>\<^verbatim>\<open>"base:allocation"\<close> and its prefix \<^verbatim>\<open>"base:"\<close>.\<close>

definition base_colon :: cstring where
  "base_colon = [0x62, 0x61, 0x73, 0x65, 0x3a]"

definition base_allocation :: cstring where
  "base_allocation = base_colon @ [0x61, 0x6c, 0x6c, 0x6f, 0x63, 0x61, 0x74, 0x69, 0x6f, 0x6e]"

definition send_newstyle_option_reply_meta_context :: "u32 \<Rightarrow> u32 \<Rightarrow> u32 \<Rightarrow> cstring \<Rightarrow> 's connection \<Rightarrow>
    int \<times> 's connection" where
  "send_newstyle_option_reply_meta_context option reply context_id name conn =
     send_bufs [option_reply option reply (of_nat (4 + length name)), be32 context_id, name] conn"

definition conn_recv_full :: "nat \<Rightarrow> 's connection \<Rightarrow> int \<times> u8 list \<times> 's connection" where
  "conn_recv_full len conn =
     (case raw_recv len conn of (r, bs, conn) \<Rightarrow> (if r = - 1 \<or> r = 0 then - 1 else r, bs, conn))"

subsection \<open>Options\<close>

text \<open>How the handling of an option ends: \<^verbatim>\<open>return -1\<close>, the next round of the loop, or its end.\<close>

datatype opt_end = OptFail | OptNext | OptDone

type_synonym 's opt_result = "(opt_end \<times> 's world \<times> 's connection) option"

definition and_then :: "'s world \<Rightarrow> int \<times> 's connection \<Rightarrow> ('s connection \<Rightarrow> 's opt_result) \<Rightarrow> 's opt_result" where
  "and_then w x k = (case x of (r, conn) \<Rightarrow> if r = - 1 then Some (OptFail, w, conn) else k conn)"

definition reply_next :: "'s server \<Rightarrow> u32 \<Rightarrow> u32 \<Rightarrow> 's world \<Rightarrow> 's connection \<Rightarrow> 's opt_result" where
  "reply_next srv option reply w conn =
     and_then w (send_newstyle_option_reply srv option reply conn) (\<lambda>conn. Some (OptNext, w, conn))"

definition recv_then :: "nat \<Rightarrow> 's world \<Rightarrow> 's connection \<Rightarrow> (u8 list \<Rightarrow> 's connection \<Rightarrow> 's opt_result) \<Rightarrow> 's opt_result" where
  "recv_then len w conn k =
     (case conn_recv_full len conn of (r, data, conn) \<Rightarrow> if r = - 1 then Some (OptFail, w, conn) else k data conn)"

text \<open>Reply first, then read and drop the payload.\<close>

definition reply_skip :: "'s server \<Rightarrow> u32 \<Rightarrow> u32 \<Rightarrow> nat \<Rightarrow> 's world \<Rightarrow> 's connection \<Rightarrow> 's opt_result" where
  "reply_skip srv option reply optlen w conn =
     and_then w (send_newstyle_option_reply srv option reply conn)
       (\<lambda>conn. recv_then optlen w conn (\<lambda>_ conn. Some (OptNext, w, conn)))"

definition data_at :: "u8 list \<Rightarrow> nat \<Rightarrow> nat \<Rightarrow> u8 list option" where
  "data_at data i n = do { c_assert (i + n \<le> length data); Some (take n (drop i data)) }"

definition check_string :: "u8 list \<Rightarrow> nat \<Rightarrow> nat \<Rightarrow> nat \<Rightarrow> bool option" where
  "check_string data i len maxlen =
     (if len > NBD_MAX_STRING \<or> len > maxlen then Some False
      else do { s \<leftarrow> data_at data i len; Some (0 \<notin> set s) })"

definition finish_newstyle_options :: "'s server \<Rightarrow> u8 list \<Rightarrow> 's world \<Rightarrow> 's connection \<Rightarrow>
    (u64 option \<times> 's world \<times> 's connection) option" where
  "finish_newstyle_options srv name w conn =
     (let exportname = takeWhile (\<lambda>b. b \<noteq> 0) name;
          conn = (case exportname_from_set_meta_context conn of
              None \<Rightarrow> conn
            | Some n \<Rightarrow> if n \<noteq> exportname then conn\<lparr>meta_context_base_allocation := False\<rparr> else conn) in do {
     (res, w, conn) \<leftarrow> protocol_common_open srv exportname w conn;
     Some (case res of
         None \<Rightarrow> (None, w, conn)
       | Some (sz, e) \<Rightarrow> (Some sz, w, conn\<lparr>eflags := e\<rparr>))
   })"

definition opt_export_name :: "'s server \<Rightarrow> nat \<Rightarrow> 's world \<Rightarrow> 's connection \<Rightarrow> 's opt_result" where
  "opt_export_name srv optlen w conn =
     recv_then optlen w conn (\<lambda>data conn. do {
       ok \<leftarrow> check_string data 0 optlen optlen;
       (if \<not> ok then Some (OptFail, w, conn)
        else do {
          (res, w, conn) \<leftarrow> finish_newstyle_options srv (take optlen data) w conn;
          (case res of
             None \<Rightarrow> Some (OptFail, w, conn)
           | Some sz \<Rightarrow>
               let reply = enc_export_name_option_reply \<lparr>en_exportsize = sz, en_eflags = eflags conn\<rparr> in
               and_then w (raw_send_socket (if has (cflags conn) 2 then take 10 reply else reply) conn)
                 (\<lambda>conn. Some (OptDone, w, conn)))
        })
     })"

definition opt_list :: "'s server \<Rightarrow> nat \<Rightarrow> bool \<Rightarrow> 's world \<Rightarrow> 's connection \<Rightarrow>
    (opt_end \<times> nat \<times> bool \<times> 's world \<times> 's connection) option" where
  "opt_list srv optlen list_seen w conn =
     (if optlen \<noteq> 0 then do {
        (e, w, conn) \<leftarrow> reply_skip srv NBD_OPT_LIST NBD_REP_ERR_INVALID optlen w conn;
        Some (e, 0, list_seen, w, conn) }
      else if list_seen then do {
        (e, w, conn) \<leftarrow> reply_next srv NBD_OPT_LIST NBD_REP_ERR_INVALID w conn;
        Some (e, 0, list_seen, w, conn) }
      else do {
        (r, more, w, conn) \<leftarrow> send_newstyle_option_reply_exportnames srv NBD_OPT_LIST w conn;
        Some (if r = - 1 then (OptFail, more, list_seen, w, conn) else (OptNext, more, True, w, conn)) })"

definition opt_starttls :: "'s server \<Rightarrow> nat \<Rightarrow> 's world \<Rightarrow> 's connection \<Rightarrow> 's opt_result" where
  "opt_starttls srv optlen w conn =
     (if optlen \<noteq> 0 then reply_skip srv NBD_OPT_STARTTLS NBD_REP_ERR_INVALID optlen w conn
      else if tls srv = 0 then
        reply_next srv NBD_OPT_STARTTLS (if have_gnutls srv then NBD_REP_ERR_POLICY else NBD_REP_ERR_UNSUP) w conn
      else if using_tls conn then reply_next srv NBD_OPT_STARTTLS NBD_REP_ERR_INVALID w conn
      else and_then w (send_newstyle_option_reply srv NBD_OPT_STARTTLS NBD_REP_ACK conn) (\<lambda>conn.
        case crypto_negotiate_tls srv (sockin conn, sockout conn, wscript conn) of (r, i, out, s) \<Rightarrow>
          let conn = conn\<lparr>sockin := i, sockout := out, wscript := s\<rparr> in
          if r = - 1 then Some (OptFail, w, conn)
          else Some (OptNext, forget_exportnames srv w,
            conn\<lparr>using_tls := True, structured_replies := False, exportname_from_set_meta_context := None,
                 meta_context_base_allocation := False, default_exportname := None\<rparr>)))"

text \<open>\<^verbatim>\<open>backend_finalize\<close> and \<^verbatim>\<open>backend_close\<close> of the top context, as the handshake calls them.\<close>

definition close_top :: "'s server \<Rightarrow> 's ctx \<Rightarrow> 's world \<Rightarrow> 's connection \<Rightarrow> (int \<times> 's world \<times> 's connection) option" where
  "close_top srv c w conn = do {
     (r, c) \<leftarrow> backend_finalize (top srv) (finalize_next srv) c;
     (if r = - 1 then Some (- 1, w, conn\<lparr>top_context := Some c\<rparr>)
      else do {
        w \<leftarrow> backend_close (top srv) (close_rest srv) c;
        Some (0, w, conn\<lparr>top_context := None\<rparr>) })
   }"

text \<open>
  The replies to the information requests of \<^verbatim>\<open>NBD_OPT_INFO\<close> and \<^verbatim>\<open>NBD_OPT_GO\<close>, one definition per case
  of the \<^verbatim>\<open>switch\<close>; \<open>name\<close> is the export name and \<open>c\<close> is \<^verbatim>\<open>conn->top_context\<close>.
\<close>

definition info_str :: "u32 \<Rightarrow> u16 \<Rightarrow> cstring option \<Rightarrow> 's world \<Rightarrow> 's connection \<Rightarrow> 's opt_result" where
  "info_str option info s w conn =
     (case s of None \<Rightarrow> Some (OptNext, w, conn)
      | Some s \<Rightarrow> do {
          x \<leftarrow> send_newstyle_option_reply_info_str option NBD_REP_INFO info s conn;
          and_then w x (\<lambda>conn. Some (OptNext, w, conn)) })"

definition info_name :: "'s server \<Rightarrow> u32 \<Rightarrow> u8 list \<Rightarrow> 's world \<Rightarrow> 's ctx \<Rightarrow> 's connection \<Rightarrow> 's opt_result" where
  "info_name srv option name w c conn =
     (if name = [] then do {
        (s, cached, w') \<leftarrow> backend_default_export (top srv) (read_only srv) (using_tls conn) False
           (default_exportname conn) (inner c);
        info_str option NBD_INFO_NAME s w
          (conn\<lparr>default_exportname := cached, top_context := Some (c\<lparr>inner := w'\<rparr>)\<rparr>) }
      else info_str option NBD_INFO_NAME (Some name) w conn)"

definition info_description :: "'s server \<Rightarrow> u32 \<Rightarrow> 's world \<Rightarrow> 's ctx \<Rightarrow> 's connection \<Rightarrow> 's opt_result" where
  "info_description srv option w c conn = do {
     (s, c) \<leftarrow> backend_export_description (top srv) c;
     info_str option NBD_INFO_DESCRIPTION s w (conn\<lparr>top_context := Some c\<rparr>)
   }"

definition info_block_size :: "'s server \<Rightarrow> u32 \<Rightarrow> 's world \<Rightarrow> 's ctx \<Rightarrow> 's connection \<Rightarrow> 's opt_result" where
  "info_block_size srv option w c conn = do {
     (r, sizes, c) \<leftarrow> backend_block_size (top srv) c;
     let conn = conn\<lparr>top_context := Some c\<rparr>;
     (if r = - 1 then Some (OptFail, w, conn)
      else if fst sizes = 0 then Some (OptNext, w, conn)
      else and_then w (send_newstyle_option_reply_info_block_size option NBD_REP_INFO sizes conn)
             (\<lambda>conn. Some (OptNext, w, conn)))
   }"

definition info_reply :: "'s server \<Rightarrow> u32 \<Rightarrow> u8 list \<Rightarrow> u16 \<Rightarrow> 's world \<Rightarrow> 's connection \<Rightarrow> 's opt_result" where
  "info_reply srv option name info w conn =
     (case top_context conn of None \<Rightarrow> None
      | Some c \<Rightarrow>
          if info = NBD_INFO_NAME then info_name srv option name w c conn
          else if info = NBD_INFO_DESCRIPTION then info_description srv option w c conn
          else if info = NBD_INFO_BLOCK_SIZE then info_block_size srv option w c conn
          else Some (OptNext, w, conn))"

fun info_replies :: "'s server \<Rightarrow> u32 \<Rightarrow> u8 list \<Rightarrow> nat \<Rightarrow> nat \<Rightarrow> u8 list \<Rightarrow> 's world \<Rightarrow> 's connection \<Rightarrow> 's opt_result" where
  "info_replies srv option data i 0 name w conn = Some (OptNext, w, conn)"
| "info_replies srv option data i (Suc n) name w conn = do {
     info \<leftarrow> data_at data i 2;
     (e, w, conn) \<leftarrow> info_reply srv option name (be_dec info) w conn;
     (if e = OptFail then Some (OptFail, w, conn)
      else info_replies srv option data (i + 2) n name w conn)
   }"

text \<open>After the payload is validated: open the export, answer, and close it again for \<^verbatim>\<open>NBD_OPT_INFO\<close>.\<close>

definition info_go_open :: "'s server \<Rightarrow> u32 \<Rightarrow> u8 list \<Rightarrow> nat \<Rightarrow> nat \<Rightarrow> 's world \<Rightarrow> 's connection \<Rightarrow> 's opt_result" where
  "info_go_open srv option data len nrinfos w conn = do {
     name \<leftarrow> data_at data 4 len;
     (res, w, conn) \<leftarrow> finish_newstyle_options srv name w conn;
     (case res of
        None \<Rightarrow> do {
          (r, w, conn) \<leftarrow> (case top_context conn of None \<Rightarrow> Some (0, w, conn) | Some c \<Rightarrow> close_top srv c w conn);
          (if r = - 1 then Some (OptFail, w, conn)
           else reply_next srv option NBD_REP_ERR_UNKNOWN w conn) }
      | Some sz \<Rightarrow> do {
          c_assert (top_context conn \<noteq> None);
          and_then w (send_newstyle_option_reply_info_export option NBD_REP_INFO sz conn) (\<lambda>conn. do {
            (e, w, conn) \<leftarrow> info_replies srv option data (4 + len + 2) nrinfos name w conn;
            (if e = OptFail then Some (OptFail, w, conn)
             else and_then w (send_newstyle_option_reply srv option NBD_REP_ACK conn) (\<lambda>conn.
               if option = NBD_OPT_INFO
               then (case top_context conn of None \<Rightarrow> None
                     | Some c \<Rightarrow> do {
                         (r, w, conn) \<leftarrow> close_top srv c w conn;
                         Some (if r = - 1 then OptFail else OptNext, w, conn) })
               else Some (OptDone, w, conn))) }) })
   }"

definition opt_info_go :: "'s server \<Rightarrow> u32 \<Rightarrow> nat \<Rightarrow> 's world \<Rightarrow> 's connection \<Rightarrow> 's opt_result" where
  "opt_info_go srv option optlen w conn =
     recv_then optlen w conn (\<lambda>data conn.
       if optlen < 6 then reply_next srv option NBD_REP_ERR_INVALID w conn
       else do {
         lenb \<leftarrow> data_at data 0 4;
         let len = unat (be_dec lenb :: u32);
         (if len > optlen - 6 then reply_next srv option NBD_REP_ERR_INVALID w conn
          else do {
            nrb \<leftarrow> data_at data (len + 4) 2;
            let nrinfos = unat (be_dec nrb :: u16);
            (if optlen \<noteq> 4 + len + 2 + 2 * nrinfos then reply_next srv option NBD_REP_ERR_INVALID w conn
             else do {
               ok \<leftarrow> check_string data 4 len (optlen - 6);
               (if \<not> ok then reply_next srv option NBD_REP_ERR_INVALID w conn
                else info_go_open srv option data len nrinfos w conn) }) }) })"

definition opt_structured_reply :: "'s server \<Rightarrow> nat \<Rightarrow> 's world \<Rightarrow> 's connection \<Rightarrow> 's opt_result" where
  "opt_structured_reply srv optlen w conn =
     (if optlen \<noteq> 0 then reply_skip srv NBD_OPT_STRUCTURED_REPLY NBD_REP_ERR_INVALID optlen w conn
      else if no_sr srv then reply_next srv NBD_OPT_STRUCTURED_REPLY NBD_REP_ERR_UNSUP w conn
      else if structured_replies conn then reply_next srv NBD_OPT_STRUCTURED_REPLY NBD_REP_ERR_INVALID w conn
      else and_then w (send_newstyle_option_reply srv NBD_OPT_STRUCTURED_REPLY NBD_REP_ACK conn)
             (\<lambda>conn. Some (OptNext, w, conn\<lparr>structured_replies := True\<rparr>)))"

text \<open>The queries of a meta context option from \<open>opt_index\<close> on.\<close>

fun meta_queries :: "'s server \<Rightarrow> u32 \<Rightarrow> nat \<Rightarrow> u8 list \<Rightarrow> nat \<Rightarrow> nat \<Rightarrow> 's world \<Rightarrow> 's connection \<Rightarrow> 's opt_result" where
  "meta_queries srv option optlen data 0 opt_index w conn = reply_next srv option NBD_REP_ACK w conn"
| "meta_queries srv option optlen data (Suc n) opt_index w conn =
     (if opt_index + 4 > optlen then reply_next srv option NBD_REP_ERR_INVALID w conn
      else do {
        qlb \<leftarrow> data_at data opt_index 4;
        let querylen = unat (be_dec qlb :: u32);
        let opt_index = opt_index + 4;
        ok \<leftarrow> check_string data opt_index querylen (optlen - opt_index);
        (if \<not> ok then reply_next srv option NBD_REP_ERR_INVALID w conn
         else do {
           query \<leftarrow> data_at data opt_index querylen;
           (if option = NBD_OPT_LIST_META_CONTEXT \<and> query = base_colon
            then and_then w (send_newstyle_option_reply_meta_context option NBD_REP_META_CONTEXT 0 base_allocation conn)
              (meta_queries srv option optlen data n (opt_index + querylen) w)
            else if query = base_allocation
            then and_then w (send_newstyle_option_reply_meta_context option NBD_REP_META_CONTEXT
                (if option = NBD_OPT_SET_META_CONTEXT then base_allocation_id else 0) base_allocation conn)
              (\<lambda>conn. meta_queries srv option optlen data n (opt_index + querylen) w
                 (if option = NBD_OPT_SET_META_CONTEXT then conn\<lparr>meta_context_base_allocation := True\<rparr> else conn))
            else meta_queries srv option optlen data n (opt_index + querylen) w conn) }) })"

definition opt_meta_context :: "'s server \<Rightarrow> u32 \<Rightarrow> nat \<Rightarrow> 's world \<Rightarrow> 's connection \<Rightarrow> 's opt_result" where
  "opt_meta_context srv option optlen w conn =
     recv_then optlen w conn (\<lambda>data conn.
       if no_mc srv then reply_next srv option NBD_REP_ERR_UNSUP w conn
       else if option = NBD_OPT_SET_META_CONTEXT \<and> \<not> structured_replies conn
         then reply_next srv option NBD_REP_ERR_INVALID w conn
       else if optlen < 8 then reply_next srv option NBD_REP_ERR_INVALID w conn
       else do {
         lenb \<leftarrow> data_at data 0 4;
         let len = unat (be_dec lenb :: u32);
         ok \<leftarrow> check_string data 4 len (optlen - 8);
         (if \<not> ok then reply_next srv option NBD_REP_ERR_INVALID w conn
          else do {
            name \<leftarrow> data_at data 4 len;
            let conn = (if option = NBD_OPT_SET_META_CONTEXT
                        then conn\<lparr>exportname_from_set_meta_context := Some (takeWhile (\<lambda>b. b \<noteq> 0) name)\<rparr> else conn);
            let opt_index = 4 + len;
            (if opt_index + 4 > optlen then reply_next srv option NBD_REP_ERR_INVALID w conn
             else do {
               nqb \<leftarrow> data_at data opt_index 4;
               let nr_queries = unat (be_dec nqb :: u32);
               let conn = (if option = NBD_OPT_SET_META_CONTEXT
                           then conn\<lparr>meta_context_base_allocation := False\<rparr> else conn);
               (if nr_queries = 0 \<and> option = NBD_OPT_LIST_META_CONTEXT
                then and_then w (send_newstyle_option_reply_meta_context option NBD_REP_META_CONTEXT 0 base_allocation conn)
                       (reply_next srv option NBD_REP_ACK w)
                else meta_queries srv option optlen data nr_queries (opt_index + 4) w conn) }) }) })"

text \<open>
  One round of the option loop; the second component is the growth of \<^verbatim>\<open>nr_options\<close> and the third the
  new \<^verbatim>\<open>list_seen\<close>.
\<close>

definition negotiate_option :: "'s server \<Rightarrow> bool \<Rightarrow> 's world \<Rightarrow> 's connection \<Rightarrow>
    (opt_end \<times> nat \<times> bool \<times> 's world \<times> 's connection) option" where
  "negotiate_option srv list_seen w conn =
     (case conn_recv_full 16 conn of (r, bs, conn) \<Rightarrow>
        let new_option = dec_new_option bs; option = no_option new_option;
            optlen = unat (no_optlen new_option);
            simple = (\<lambda>res. do { (e, w, conn) \<leftarrow> res; Some (e, 0, list_seen, w, conn) }) in
        if r = - 1 then Some (OptFail, 0, list_seen, w, conn)
        else if no_version new_option \<noteq> NBD_NEW_VERSION then Some (OptFail, 0, list_seen, w, conn)
        else if no_optlen new_option > MAX_REQUEST_SIZE then Some (OptFail, 0, list_seen, w, conn)
        else if \<not> has (cflags conn) 1 \<and> option \<noteq> NBD_OPT_EXPORT_NAME
          then simple (reply_next srv option NBD_REP_ERR_INVALID w conn)
        else if tls srv = 2 \<and> \<not> using_tls conn \<and> \<not> (option = NBD_OPT_ABORT \<or> option = NBD_OPT_STARTTLS) then
          (if option = NBD_OPT_EXPORT_NAME then Some (OptFail, 0, list_seen, w, conn)
           else simple (reply_skip srv option NBD_REP_ERR_TLS_REQD optlen w conn))
        else if option = NBD_OPT_EXPORT_NAME then simple (opt_export_name srv optlen w conn)
        else if option = NBD_OPT_ABORT then
          simple (and_then w (send_newstyle_option_reply srv option NBD_REP_ACK conn) (\<lambda>conn. Some (OptFail, w, conn)))
        else if option = NBD_OPT_LIST then opt_list srv optlen list_seen w conn
        else if option = NBD_OPT_STARTTLS then simple (opt_starttls srv optlen w conn)
        else if option = NBD_OPT_INFO \<or> option = NBD_OPT_GO then simple (opt_info_go srv option optlen w conn)
        else if option = NBD_OPT_STRUCTURED_REPLY then simple (opt_structured_reply srv optlen w conn)
        else if option = NBD_OPT_LIST_META_CONTEXT \<or> option = NBD_OPT_SET_META_CONTEXT
          then simple (opt_meta_context srv option optlen w conn)
        else simple (reply_skip srv option NBD_REP_ERR_UNSUP optlen w conn))"

partial_function (option) negotiate_handshake_newstyle_options :: "'s server \<Rightarrow> nat \<Rightarrow> bool \<Rightarrow> 's world \<Rightarrow> 's connection \<Rightarrow>
    (int \<times> 's world \<times> 's connection) option" where
  "negotiate_handshake_newstyle_options srv nr_options list_seen w conn =
     (if nr_options = 0 then Some (- 1, w, conn)
      else Option.bind (negotiate_option srv list_seen w conn) (\<lambda>(e, more, list_seen, w, conn).
        if e = OptFail then Some (- 1, w, conn)
        else if e = OptNext then
          negotiate_handshake_newstyle_options srv (nr_options + more - 1) list_seen w conn
        else if tls srv = 2 \<and> \<not> using_tls conn then Some (- 1, w, conn)
        else Some (0, w, conn)))"

definition protocol_handshake_newstyle :: "'s server \<Rightarrow> 's world \<Rightarrow> 's connection \<Rightarrow>
    (int \<times> 's world \<times> 's connection) option" where
  "protocol_handshake_newstyle srv w conn =
     (let gflags = ucast ((ucast (NBD_FLAG_FIXED_NEWSTYLE OR NBD_FLAG_NO_ZEROES) :: u32) AND mask_handshake srv) :: u16 in
      case raw_send_socket (enc_new_handshake
        \<lparr>nh_nbdmagic = NBD_MAGIC, nh_version = NBD_NEW_VERSION, nh_gflags = gflags\<rparr>) conn of (r, conn) \<Rightarrow>
      if r = - 1 then Some (- 1, w, conn)
      else case conn_recv_full 4 conn of (r, bs, conn) \<Rightarrow>
        if r = - 1 then Some (- 1, w, conn)
        else let conn = conn\<lparr>cflags := be_dec bs\<rparr> in
          if cflags conn AND NOT (ucast gflags) \<noteq> 0 then Some (- 1, w, conn)
          else negotiate_handshake_newstyle_options srv MAX_NR_OPTIONS False w conn)"

definition protocol_handshake :: "'s server \<Rightarrow> 's world \<Rightarrow> 's connection \<Rightarrow>
    (int \<times> 's world \<times> 's connection) option" where
  "protocol_handshake srv w conn =
     (if \<not> newstyle srv then protocol_handshake_oldstyle srv w conn
      else protocol_handshake_newstyle srv w conn)"

end
