(* ===== verification/Negotiation.thy ===== *)
theory Negotiation
  imports Handshake
begin

text \<open>
  Correctness of the handshake.  The locale \<open>export_server\<close> is the contract between the handshake and
  the backend it opens; under it every handshake ends, without an abort and whatever the client sends,
  either with a failure that leaves a state in which the connection can be closed, or with an open export whose
  flags promise exactly what the backend can do.
\<close>

subsection \<open>What an exchange of messages leaves alone\<close>

definition io_only :: "'s connection \<Rightarrow> 's connection \<Rightarrow> bool" where
  "io_only conn conn' \<longleftrightarrow> (\<exists>i out s. conn' = conn\<lparr>sockin := i, sockout := out, wscript := s\<rparr>)"

lemma io_onlyD:
  assumes "io_only conn conn'"
  shows "top_context conn' = top_context conn" "default_exportname conn' = default_exportname conn"
    "using_tls conn' = using_tls conn" "eflags conn' = eflags conn" "cflags conn' = cflags conn"
    "structured_replies conn' = structured_replies conn" "conn_status conn' = conn_status conn"
    "meta_context_base_allocation conn' = meta_context_base_allocation conn"
    "out_open conn' = out_open conn" "nworkers conn' = nworkers conn"
  using assms by (auto simp: io_only_def)

lemma io_only_upd [simp]:
  "io_only conn (conn\<lparr>sockin := i, sockout := out, wscript := s\<rparr>)"
  "io_only conn (conn\<lparr>sockout := out, wscript := s\<rparr>)"
  "io_only conn (conn\<lparr>sockin := i\<rparr>)"
  "io_only conn conn"
proof -
  show all: "io_only conn (conn\<lparr>sockin := i, sockout := out, wscript := s\<rparr>)" for i out s
    by (auto simp: io_only_def)
  show "io_only conn (conn\<lparr>sockout := out, wscript := s\<rparr>)"
    using all [of s out "sockin conn"] by simp
  show "io_only conn (conn\<lparr>sockin := i\<rparr>)"
    using all [of "wscript conn" "sockout conn" i] by simp
  show "io_only conn conn"
    using all [of "wscript conn" "sockout conn" "sockin conn"] by simp
qed

lemma io_only_trans: "io_only a b \<Longrightarrow> io_only b c \<Longrightarrow> io_only a c"
  unfolding io_only_def by fastforce

lemma raw_send_io: "raw_send_socket buf conn = (r, conn') \<Longrightarrow> io_only conn conn'"
  by (auto simp: raw_send_socket_def Let_def split: if_splits prod.splits)

lemma raw_recv_io: "raw_recv n conn = (r, bs, conn') \<Longrightarrow> io_only conn conn'"
  by (auto simp: raw_recv_def split: prod.splits)

lemma send_bufs_io: "send_bufs bufs conn = (r, conn') \<Longrightarrow> io_only conn conn'"
proof (induction bufs arbitrary: conn)
  case (Cons buf bufs)
  then show ?case using raw_send_io io_only_trans by (fastforce simp: send_bufs.simps split: if_splits prod.splits)
qed (simp add: send_bufs.simps)

lemma send_reply_io: "send_newstyle_option_reply srv option reply conn = (r, conn') \<Longrightarrow> io_only conn conn'"
  unfolding send_newstyle_option_reply_def Let_def by (rule send_bufs_io)

lemma send_exports_io: "send_exports option es conn = (r, conn') \<Longrightarrow> io_only conn conn'"
proof (induction es arbitrary: conn)
  case (Cons e es)
  obtain r1 conn1 where s: "send_bufs [option_reply option NBD_REP_SERVER (of_nat (length (e_name e) + 4
        + length (case e_description e of None \<Rightarrow> [] | Some d \<Rightarrow> d))),
      be32 (of_nat (length (e_name e))), e_name e, case e_description e of None \<Rightarrow> [] | Some d \<Rightarrow> d] conn = (r1, conn1)"
    by (rule prod.exhaust)
  have io: "io_only conn conn1" by (rule send_bufs_io [OF s])
  have "(if r1 = - 1 then (- 1, conn1) else send_exports option es conn1) = (r, conn')"
    using Cons.prems s unfolding send_exports.simps Let_def by simp
  then show ?case using Cons.IH [of conn1] io io_only_trans [OF io] by (cases "r1 = - 1") auto
qed auto

lemma recv_full_io: "conn_recv_full n conn = (r, bs, conn') \<Longrightarrow> io_only conn conn'"
  by (auto simp: conn_recv_full_def split: prod.splits dest: raw_recv_io)

lemma recv_full_length: "conn_recv_full n conn = (r, bs, conn') \<Longrightarrow> r \<noteq> - 1 \<Longrightarrow> length bs = n"
  using raw_recv_code [of n conn] raw_recv_length [of n conn]
  by (auto simp: conn_recv_full_def split: prod.splits if_splits)

subsection \<open>The contract of an export\<close>

text \<open>
  A query of a connected context answers with a value of \<open>V\<close> and changes nothing but the world.
\<close>

definition query_ok :: "('s world \<Rightarrow> bool) \<Rightarrow> int set \<Rightarrow> 's query \<Rightarrow> bool" where
  "query_ok winv V q \<longleftrightarrow> (\<forall>c. connected c \<and> winv (inner c) \<longrightarrow>
     (\<exists>r w. q c = Some (r, c\<lparr>inner := w\<rparr>) \<and> winv w \<and> r \<in> V))"

text \<open>A context that is open and can be closed.\<close>

definition closable :: "('s world \<Rightarrow> bool) \<Rightarrow> 's ctx \<Rightarrow> bool" where
  "closable winv c \<longleftrightarrow> handle c \<and> has (c_state c) HANDLE_OPEN \<and> winv (inner c)"

text \<open>
  The capabilities of an opened context are known, with the answers to \<^verbatim>\<open>can_zero\<close> and \<^verbatim>\<open>can_fast_zero\<close>
  in the given sets, and the flags \<open>e\<close> promise exactly these capabilities: each flag that the server knows is set
  precisely under its condition, and no other bit is set.  Several connections are only offered under a thread model
  \<open>tm\<close> that allows them, and unfragmented reads only with structured replies (\<open>sr\<close>).
\<close>

definition caps_known :: "int set \<Rightarrow> int set \<Rightarrow> 's ctx \<Rightarrow> bool" where
  "caps_known zv fz c \<longleftrightarrow> c_can_write c \<in> {0, 1} \<and> c_can_zero c \<in> zv \<union> {0} - {- 1}
     \<and> c_can_fast_zero c \<in> (if c_can_zero c = 0 then {0} else fz - {- 1}) \<and> c_can_trim c \<in> {0, 1}
     \<and> c_can_fua c \<in> {0, 1, 2} \<and> c_can_flush c \<in> {0, 1} \<and> c_can_cache c \<in> {0, 1, 2} \<and> c_can_extents c \<in> {0, 1}"

definition flags_exact :: "int \<Rightarrow> bool \<Rightarrow> u16 \<Rightarrow> 's ctx \<Rightarrow> bool" where
  "flags_exact tm sr e c \<longleftrightarrow> has e NBD_FLAG_HAS_FLAGS
     \<and> (has e NBD_FLAG_READ_ONLY \<longleftrightarrow> c_can_write c = 0)
     \<and> (has e NBD_FLAG_SEND_FLUSH \<longleftrightarrow> c_can_flush c = 1)
     \<and> (has e NBD_FLAG_SEND_FUA \<longleftrightarrow> c_can_fua c > 0)
     \<and> (has e NBD_FLAG_SEND_TRIM \<longleftrightarrow> c_can_trim c = 1)
     \<and> (has e NBD_FLAG_SEND_WRITE_ZEROES \<longleftrightarrow> c_can_zero c > 0)
     \<and> (has e NBD_FLAG_SEND_FAST_ZERO \<longleftrightarrow> c_can_fast_zero c = 1)
     \<and> (has e NBD_FLAG_SEND_CACHE \<longleftrightarrow> c_can_cache c > 0)
     \<and> (has e NBD_FLAG_ROTATIONAL \<longleftrightarrow> c_is_rotational c = 1)
     \<and> (has e NBD_FLAG_CAN_MULTI_CONN \<longleftrightarrow> c_can_multi_conn c = 1 \<and> tm > NBDKIT_THREAD_MODEL_SERIALIZE_CONNECTIONS)
     \<and> (has e NBD_FLAG_SEND_DF \<longleftrightarrow> sr)
     \<and> \<not> has e 0xf200"

text \<open>The remembered default export name is short enough to be sent.\<close>

definition name_ok :: "cstring option \<Rightarrow> bool" where
  "name_ok s \<longleftrightarrow> (case s of None \<Rightarrow> True | Some s \<Rightarrow> length s \<le> NBD_MAX_STRING)"

lemma name_ok_simps [simp]: "name_ok None" "name_ok (Some s) \<longleftrightarrow> length s \<le> NBD_MAX_STRING"
  by (simp_all add: name_ok_def)

lemma backend_default_export_name:
  "backend_default_export b ro is_tls top_null cached w = Some (s, cached', w') \<Longrightarrow> name_ok cached \<Longrightarrow>
     s = cached' \<and> name_ok cached'"
  by (auto simp: backend_default_export_def Let_def split: option.splits if_splits bind_splits)

lemma backend_open_name:
  "backend_open b close ro name is_tls top_null cached w = Some (cached', res) \<Longrightarrow> name_ok cached \<Longrightarrow>
     name_ok cached' \<and> (name = [] \<longrightarrow> cached' = None \<longrightarrow> isl res)"
  by (auto simp: backend_open_def split: option.splits if_splits bind_splits dest!: backend_default_export_name)

lemma backend_list_exports_name:
  "backend_list_exports b ro is_tls top_null cached exps w = Some (r, exps', cached', w') \<Longrightarrow> name_ok cached \<Longrightarrow>
     name_ok cached'"
  by (auto simp: backend_list_exports_def exports_resolve_default_def Let_def split: option.splits if_splits bind_splits prod.splits
      dest!: backend_default_export_name)

text \<open>
  What the handshake relies on: \<open>cinv\<close> holds of the world while nothing is open and \<open>winv\<close> while a context
  is; the export has \<open>sz\<close> bytes; \<open>zv\<close> and \<open>fz\<close> hold the possible answers to \<^verbatim>\<open>can_zero\<close> and
  \<^verbatim>\<open>can_fast_zero\<close>.
\<close>

locale export_server =
  fixes srv :: "'s server"
    and winv cinv :: "'s world \<Rightarrow> bool"
    and sz :: nat
    and zv fz :: "int set"
  assumes sz_lt: "winv w \<Longrightarrow> sz < 2 ^ 63"
    and zv: "zv \<subseteq> {- 1, 0, 1, 2}" and fz: "fz \<subseteq> {- 1, 0, 1}"
    and open_ok: "cinv w \<Longrightarrow>
      case backend_open (top srv) (close_next srv) ro name is_tls True cached w of None \<Rightarrow> False
      | Some (cached', Inl w') \<Rightarrow> cinv w'
      | Some (cached', Inr c) \<Rightarrow> \<exists>w'. winv w' \<and> c = (new_context ro w')\<lparr>handle := True, c_state := HANDLE_OPEN\<rparr>"
    and prepare_ok: "closable winv c \<Longrightarrow> c_state c = HANDLE_OPEN \<Longrightarrow>
      \<exists>r w. backend_prepare (top srv) (prepare_next srv) c
        = Some (r, c\<lparr>inner := w, c_state := if r = - 1 then HANDLE_OPEN else HANDLE_OPEN OR HANDLE_CONNECTED\<rparr>)
        \<and> winv w"
    and finalize_ok: "closable winv c \<Longrightarrow>
      \<exists>r c'. backend_finalize (top srv) (finalize_next srv) c = Some (r, c') \<and> closable winv c'"
    and close_ok: "closable winv c \<Longrightarrow> \<exists>w. backend_close (top srv) (close_rest srv) c = Some w \<and> cinv w"
    and forget_ok: "cinv w \<Longrightarrow> cinv (forget_exportnames srv w)"
    and list_ok: "cinv w \<Longrightarrow> \<exists>r exps' w'. b_list_exports (top srv) ro is_tls exps w = Some (r, exps', w') \<and> cinv w'"
    and default_ok: "cinv w \<Longrightarrow> \<exists>s w'. b_default_export (top srv) ro is_tls w = Some (s, w') \<and> cinv w'"
    and description_ok: "connected c \<Longrightarrow> winv (inner c) \<Longrightarrow>
      \<exists>s w. b_export_description (top srv) c = Some (s, c\<lparr>inner := w\<rparr>) \<and> winv w"
    and get_size_ok: "connected c \<Longrightarrow> winv (inner c) \<Longrightarrow>
      \<exists>s w. b_get_size (top srv) c = Some (s, c\<lparr>inner := w\<rparr>) \<and> winv w \<and> (s > INT64_MAX \<or> unat s = sz)"
    and block_size_ok: "connected c \<Longrightarrow> winv (inner c) \<Longrightarrow>
      \<exists>r sizes w. b_block_size (top srv) c = Some (r, sizes, c\<lparr>inner := w\<rparr>) \<and> winv w"
    and can_write_ok: "query_ok winv {- 1, 0, 1} (b_can_write (top srv))"
    and can_flush_ok: "query_ok winv {- 1, 0, 1} (b_can_flush (top srv))"
    and is_rotational_ok: "query_ok winv {- 1, 0, 1} (b_is_rotational (top srv))"
    and can_trim_ok: "query_ok winv {- 1, 0, 1} (b_can_trim (top srv))"
    and can_zero_ok: "query_ok winv zv (b_can_zero (top srv))"
    and can_fast_zero_ok: "connected c \<Longrightarrow> c_can_zero c \<in> {1, 2} \<Longrightarrow> winv (inner c) \<Longrightarrow>
      \<exists>r w. b_can_fast_zero (top srv) c = Some (r, c\<lparr>inner := w\<rparr>) \<and> winv w \<and> r \<in> fz"
    and can_fua_ok: "query_ok winv {- 1, 0, 1, 2} (b_can_fua (top srv))"
    and can_multi_conn_ok: "query_ok winv {- 1, 0, 1} (b_can_multi_conn (top srv))"
    and can_cache_ok: "query_ok winv {- 1, 0, 1, 2} (b_can_cache (top srv))"
    and can_extents_ok: "query_ok winv {- 1, 0, 1} (b_can_extents (top srv))"
begin

text \<open>A backend query stores its answer in the field that \<open>upd\<close> updates.\<close>

definition qstep :: "'s query \<Rightarrow> (int \<Rightarrow> 's ctx \<Rightarrow> 's ctx) \<Rightarrow> int set \<Rightarrow> 's ctx \<Rightarrow> bool" where
  "qstep q upd V c \<longleftrightarrow> (\<exists>r w. q c = Some (r, upd r (c\<lparr>inner := w\<rparr>)) \<and> winv w \<and> r \<in> V)"

lemma qstep_I: "query_ok winv V q \<Longrightarrow> connected c \<Longrightarrow> winv (inner c) \<Longrightarrow>
    (\<And>r w. q c = Some (r, c\<lparr>inner := w\<rparr>) \<Longrightarrow> winv w \<Longrightarrow> r \<in> V \<Longrightarrow>
      Q c = Some (r, upd r (c\<lparr>inner := w\<rparr>))) \<Longrightarrow> qstep Q upd V c"
  unfolding query_ok_def qstep_def by blast

lemma qstep_can_write:
  assumes "connected c" and "winv (inner c)" and "c_can_write c = - 1 \<or> c_can_write c = 0"
  shows "qstep (backend_can_write (top srv)) (\<lambda>r. c_can_write_update (\<lambda>_. r)) {- 1, 0, 1} c"
proof (cases "c_can_write c = 0")
  case True
  then have "c\<lparr>c_can_write := 0\<rparr> = c" by (cases c) simp
  with True assms show ?thesis
    unfolding qstep_def by (intro exI [of _ 0] exI [of _ "inner c"]) (simp add: backend_can_write_def)
next
  case False
  with assms show ?thesis by (intro qstep_I [OF can_write_ok]) (auto simp: backend_can_write_def)
qed

lemma backend_can_write_known: "connected c \<Longrightarrow> c_can_write c \<noteq> - 1 \<Longrightarrow> backend_can_write b c = Some (c_can_write c, c)"
  by (simp add: backend_can_write_def)

lemma qstep_writable:
  assumes c: "connected c" "winv (inner c)" and w: "c_can_write c = 0 \<or> c_can_write c = 1"
  shows "c_can_zero c = - 1 \<Longrightarrow> qstep (backend_can_zero (top srv)) (\<lambda>r. c_can_zero_update (\<lambda>_. r)) (zv \<union> {0}) c"
    and "c_can_trim c = - 1 \<Longrightarrow> qstep (backend_can_trim (top srv)) (\<lambda>r. c_can_trim_update (\<lambda>_. r)) {- 1, 0, 1} c"
    and "c_can_fua c = - 1 \<Longrightarrow> qstep (backend_can_fua (top srv)) (\<lambda>r. c_can_fua_update (\<lambda>_. r)) {- 1, 0, 1, 2} c"
proof -
  show "qstep (backend_can_zero (top srv)) (\<lambda>r. c_can_zero_update (\<lambda>_. r)) (zv \<union> {0}) c" if "c_can_zero c = - 1"
    using w
  proof
    assume "c_can_write c = 0"
    with c that show ?thesis
      by (auto simp: qstep_def backend_can_zero_def backend_can_write_known intro!: exI [of _ 0] exI [of _ "inner c"])
  next
    assume "c_can_write c = 1"
    then have "qstep (backend_can_zero (top srv)) (\<lambda>r. c_can_zero_update (\<lambda>_. r)) zv c"
      using c that by (intro qstep_I [OF can_zero_ok]) (auto simp: backend_can_zero_def backend_can_write_known)
    then show ?thesis by (auto simp: qstep_def)
  qed
  show "qstep (backend_can_trim (top srv)) (\<lambda>r. c_can_trim_update (\<lambda>_. r)) {- 1, 0, 1} c" if "c_can_trim c = - 1"
    using w
  proof
    assume "c_can_write c = 0"
    with c that show ?thesis
      by (auto simp: qstep_def backend_can_trim_def backend_can_write_known intro!: exI [of _ 0] exI [of _ "inner c"])
  qed (use c that in \<open>intro qstep_I [OF can_trim_ok], auto simp: backend_can_trim_def backend_can_write_known\<close>)
  show "qstep (backend_can_fua (top srv)) (\<lambda>r. c_can_fua_update (\<lambda>_. r)) {- 1, 0, 1, 2} c" if "c_can_fua c = - 1"
    using w
  proof
    assume "c_can_write c = 0"
    with c that show ?thesis
      by (auto simp: qstep_def backend_can_fua_def backend_can_write_known intro!: exI [of _ 0] exI [of _ "inner c"])
  qed (use c that in \<open>intro qstep_I [OF can_fua_ok], auto simp: backend_can_fua_def backend_can_write_known\<close>)
qed

lemma qstep_fast_zero:
  assumes "connected c" and "winv (inner c)" and "c_can_zero c = 0 \<or> c_can_zero c = 1 \<or> c_can_zero c = 2"
    and "c_can_fast_zero c = - 1"
  shows "qstep (backend_can_fast_zero (top srv)) (\<lambda>r. c_can_fast_zero_update (\<lambda>_. r))
    (if c_can_zero c = 0 then {0} else fz) c"
proof (cases "c_can_zero c = 0")
  case True
  with assms show ?thesis
    unfolding qstep_def
    by (intro exI [of _ 0] exI [of _ "inner c"]) (simp add: backend_can_fast_zero_def backend_can_zero_def)
next
  case False
  then obtain r w where "b_can_fast_zero (top srv) c = Some (r, c\<lparr>inner := w\<rparr>)" "winv w" "r \<in> fz"
    using can_fast_zero_ok [of c] assms by auto
  moreover have "backend_can_zero (top srv) c = Some (c_can_zero c, c)" "\<not> c_can_zero c < 1"
    using False assms by (auto simp: backend_can_zero_def)
  ultimately show ?thesis
    unfolding qstep_def using False assms
    by (intro exI [of _ r] exI [of _ w]) (simp add: backend_can_fast_zero_def)
qed

lemma qstep_plain:
  assumes "connected c" and "winv (inner c)"
  shows "c_can_flush c = - 1 \<Longrightarrow> qstep (backend_can_flush (top srv)) (\<lambda>r. c_can_flush_update (\<lambda>_. r)) {- 1, 0, 1} c"
    and "c_is_rotational c = - 1 \<Longrightarrow>
      qstep (backend_is_rotational (top srv)) (\<lambda>r. c_is_rotational_update (\<lambda>_. r)) {- 1, 0, 1} c"
    and "c_can_multi_conn c = - 1 \<Longrightarrow>
      qstep (backend_can_multi_conn (top srv)) (\<lambda>r. c_can_multi_conn_update (\<lambda>_. r)) {- 1, 0, 1} c"
    and "c_can_cache c = - 1 \<Longrightarrow> qstep (backend_can_cache (top srv)) (\<lambda>r. c_can_cache_update (\<lambda>_. r)) {- 1, 0, 1, 2} c"
    and "c_can_extents c = - 1 \<Longrightarrow>
      qstep (backend_can_extents (top srv)) (\<lambda>r. c_can_extents_update (\<lambda>_. r)) {- 1, 0, 1} c"
  using assms
  by (auto intro: qstep_I [OF can_flush_ok] qstep_I [OF is_rotational_ok] qstep_I [OF can_multi_conn_ok]
      qstep_I [OF can_cache_ok] qstep_I [OF can_extents_ok]
      simp: backend_can_flush_def backend_is_rotational_def backend_can_multi_conn_def backend_can_cache_def
        backend_can_extents_def)

text \<open>One query of the opening sequence.\<close>

lemma open_flag_step:
  assumes "qstep q upd V c"
  obtains r w where "winv w" "r \<in> V" "open_flag q adv flag (Some e, c)
    = Some (if r = - 1 then None else Some (if adv r then e OR flag else e), upd r (c\<lparr>inner := w\<rparr>))"
  using assms by (auto simp: qstep_def open_flag_def)

lemma open_flag_None [simp]: "open_flag q adv flag (None, c) = Some (None, c)"
  by (simp add: open_flag_def)

definition open_result :: "bool \<Rightarrow> 's ctx \<Rightarrow> (u16 option \<times> 's ctx) option \<Rightarrow> bool" where
  "open_result sr c res \<longleftrightarrow> (case res of None \<Rightarrow> False
     | Some (e, c') \<Rightarrow> handle c' = handle c \<and> c_state c' = c_state c \<and> exportsize c' = exportsize c \<and> winv (inner c')
         \<and> (case e of None \<Rightarrow> True | Some e \<Rightarrow> caps_known zv fz c' \<and> flags_exact (thread_model srv) sr e c'))"

lemma open_flag_bind:
  assumes "qstep q upd V c" and "\<And>c'. k (None, c') = Some (None, c')"
    and "\<And>w. winv w \<Longrightarrow> open_result sr c0 (Some (None, upd (- 1) (c\<lparr>inner := w\<rparr>)))"
    and "\<And>r w. winv w \<Longrightarrow> r \<in> V - {- 1} \<Longrightarrow>
      open_result sr c0 (k (Some (e OR (if adv r then flag else 0)), upd r (c\<lparr>inner := w\<rparr>)))"
  shows "open_result sr c0 (Option.bind (open_flag q adv flag (Some e, c)) k)"
proof -
  obtain r w where "winv w" "r \<in> V" "open_flag q adv flag (Some e, c)
    = Some (if r = - 1 then None else Some (if adv r then e OR flag else e), upd r (c\<lparr>inner := w\<rparr>))"
    using assms(1) by (rule open_flag_step)
  moreover have "(if adv r then e OR flag else e) = e OR (if adv r then flag else 0)" by simp
  ultimately show ?thesis using assms(2-) by (cases "r = - 1") auto
qed

lemma has_mask [simp]: "has (numeral m) k \<longleftrightarrow> numeral m AND k \<noteq> 0" "has 1 k \<longleftrightarrow> 1 AND k \<noteq> 0"
  by (simp_all add: has_def)

lemma open_result_None [simp]:
  "open_result sr c (Some (None, c')) \<longleftrightarrow>
     handle c' = handle c \<and> c_state c' = c_state c \<and> exportsize c' = exportsize c \<and> winv (inner c')"
  by (simp add: open_result_def)

lemma connected_cong: "handle c' = handle c \<Longrightarrow> c_state c' = c_state c \<Longrightarrow> connected c' = connected c"
  by (simp add: connected_def)

lemma answer:
  "r = 0 \<or> r = 1 \<Longrightarrow> (if r \<noteq> 0 then True else False) = (r = 1)"
  "r = 0 \<or> r = 1 \<or> r = 2 \<Longrightarrow> (if r \<noteq> 0 then True else False) = (0 < r)"
  "(r = 0 \<or> r \<in> zv) \<and> r \<noteq> - 1 \<Longrightarrow> (if r \<noteq> 0 then True else False) = (0 < r)"
  "r \<in> (if z = 0 then {0} else fz) \<and> r \<noteq> - 1 \<Longrightarrow> (if r \<noteq> 0 then True else False) = (r = 1)"
  "r \<in> (if z = 0 then {0} else fz) \<and> r \<noteq> - 1 \<Longrightarrow> r \<in> (if z = 0 then {0} else fz - {- 1})"
  "(if r = 0 then True else False) = (r = 0)"
  "r = 0 \<or> r = 1 \<Longrightarrow> (if r \<noteq> 0 \<and> P then True else False) = (r = 1 \<and> P)"
  "(if P then True else False) = P"
  for r z :: int
  using zv fz by (auto split: if_splits)

lemma open_flags_ok:
  assumes c: "connected c" "winv (inner c)" "c_can_write c = - 1 \<or> c_can_write c = 0" "c_can_zero c = - 1"
      "c_can_fast_zero c = - 1" "c_can_trim c = - 1" "c_can_fua c = - 1" "c_can_flush c = - 1" "c_is_rotational c = - 1"
      "c_can_multi_conn c = - 1" "c_can_cache c = - 1" "c_can_extents c = - 1"
  shows "open_result sr c (open_flags srv sr c)"
proof -
  note C = c [unfolded connected_def] connected_def
  show ?thesis
    unfolding open_flags_def Let_def
    apply (rule open_flag_bind [OF qstep_can_write])
    apply (use zv fz in \<open>auto simp: C\<close>) [5]
    apply (rule open_flag_bind [OF qstep_writable(1)])
    apply (use zv fz in \<open>auto simp: C\<close>) [6]
    apply (rule open_flag_bind [OF qstep_fast_zero])
    apply (use zv fz in \<open>auto simp: C\<close>) [6]
    apply (rule open_flag_bind [OF qstep_writable(2)])
    apply (use zv fz in \<open>auto simp: C\<close>) [6]
    apply (rule open_flag_bind [OF qstep_writable(3)])
    apply (use zv fz in \<open>auto simp: C\<close>) [6]
    apply (rule open_flag_bind [OF qstep_plain(1)])
    apply (use zv fz in \<open>auto simp: C\<close>) [5]
    apply (rule open_flag_bind [OF qstep_plain(2)])
    apply (use zv fz in \<open>auto simp: C\<close>) [5]
    apply (rule open_flag_bind [OF qstep_plain(3)])
    apply (use zv fz in \<open>auto simp: C\<close>) [5]
    apply (rule open_flag_bind [OF qstep_plain(4)])
    apply (use zv fz in \<open>auto simp: C\<close>) [5]
    apply (rule open_flag_bind [OF qstep_plain(5)])
    apply (use zv fz in \<open>auto simp: C\<close>) [5]
    apply (simp add: open_result_def caps_known_def flags_exact_def flag_simps C has_mask cong: if_cong split del: if_split)
    apply (intro conjI; (erule answer | rule answer(6,8)))
    done
qed


text \<open>The state when the option loop stops or fails: whatever is open can still be closed.\<close>

definition stopped :: "'s world \<Rightarrow> 's connection \<Rightarrow> bool" where
  "stopped w conn \<longleftrightarrow> (case top_context conn of None \<Rightarrow> cinv w | Some c \<Rightarrow> closable winv c)"

definition idle :: "'s world \<Rightarrow> 's connection \<Rightarrow> bool" where
  "idle w conn \<longleftrightarrow> top_context conn = None \<and> cinv w \<and> name_ok (default_exportname conn)"

definition serving :: "u16 \<Rightarrow> 's connection \<Rightarrow> bool" where
  "serving e conn \<longleftrightarrow> (case top_context conn of None \<Rightarrow> False
     | Some c \<Rightarrow> negotiated sz c \<and> winv (inner c) \<and> caps_known zv fz c \<and> flags_exact (thread_model srv) (structured_replies conn) e c)"

definition common_open_result :: "cstring \<Rightarrow> 's connection \<Rightarrow> ((u64 \<times> u16) option \<times> 's world \<times> 's connection) option \<Rightarrow> bool" where
  "common_open_result name conn res \<longleftrightarrow> (case res of None \<Rightarrow> False
     | Some (x, w, conn') \<Rightarrow> stopped w conn' \<and> name_ok (default_exportname conn')
         \<and> conn' = conn\<lparr>default_exportname := default_exportname conn', top_context := top_context conn'\<rparr>
         \<and> (case x of None \<Rightarrow> True | Some (z, e) \<Rightarrow> serving e conn' \<and> unat z = sz
              \<and> (name = [] \<longrightarrow> default_exportname conn' \<noteq> None)))"

lemma caps_negotiated:
  "caps_known zv fz c \<Longrightarrow> connected c \<Longrightarrow> has (c_state c) HANDLE_OPEN \<Longrightarrow> winv (inner c) \<Longrightarrow>
     unat (exportsize c) = sz \<Longrightarrow> negotiated sz c"
  using zv fz sz_lt [of "inner c"] by (auto simp: caps_known_def negotiated_def split: if_splits)

lemma after_prepare:
  assumes c: "c = (new_context ro w0)\<lparr>handle := True, c_state := HANDLE_OPEN OR HANDLE_CONNECTED, inner := w\<rparr>" and "winv w"
  shows "\<exists>z c'. backend_get_size (top srv) c = Some (z, c') \<and> closable winv c' \<and>
    handle c' \<and> c_state c' = HANDLE_OPEN OR HANDLE_CONNECTED \<and>
    (z > INT64_MAX \<or> unat z = sz \<and> exportsize c' = z \<and> open_result sr c' (open_flags srv sr c'))"
proof -
  have conn: "connected c" "winv (inner c)" using assms by (auto simp: connected_def)
  obtain z w' where s: "b_get_size (top srv) c = Some (z, c\<lparr>inner := w'\<rparr>)" "winv w'"
      "z > INT64_MAX \<or> unat z = sz"
    using get_size_ok [OF conn] by blast
  let ?c' = "c\<lparr>inner := w', exportsize := z\<rparr>"
  have "backend_get_size (top srv) c = Some (z, ?c')"
    using conn s(1) by (simp add: backend_get_size_def c new_context_def)
  moreover have "closable winv ?c'"
    using s(2) by (simp add: c closable_def)
  moreover have "handle ?c'" "c_state ?c' = HANDLE_OPEN OR HANDLE_CONNECTED" by (simp_all add: c)
  moreover have "open_result sr ?c' (open_flags srv sr ?c')"
    using s(2) by (intro open_flags_ok) (simp_all add: c connected_def new_context_def)
  ultimately show ?thesis using s(3) by auto
qed

lemma open_tail:
  assumes "closable winv c" and "handle c" and st: "c_state c = HANDLE_OPEN OR HANDLE_CONNECTED"
    and z: "z > INT64_MAX \<or> unat z = sz \<and> exportsize c = z \<and> open_result sr c (open_flags srv sr c)"
    and cached: "name_ok cached" "name = [] \<longrightarrow> cached \<noteq> None" and sr: "sr = structured_replies conn"
  shows "common_open_result name conn
    (if z > INT64_MAX then Some (None, w, conn\<lparr>default_exportname := cached, top_context := Some c\<rparr>)
     else do { (e, c) \<leftarrow> open_flags srv sr c;
          Some (case e of None \<Rightarrow> None | Some e \<Rightarrow> Some (z, e), w, conn\<lparr>default_exportname := cached, top_context := Some c\<rparr>) })"
proof (cases "z > INT64_MAX")
  case True
  with assms(1) cached show ?thesis by (simp add: common_open_result_def stopped_def)
next
  case False
  with z have z': "unat z = sz" "exportsize c = z" "open_result sr c (open_flags srv sr c)" by auto
  then obtain e c' where of: "open_flags srv sr c = Some (e, c')" "handle c' = handle c" "c_state c' = c_state c"
      "exportsize c' = exportsize c" "winv (inner c')" "case e of None \<Rightarrow> True | Some e \<Rightarrow> caps_known zv fz c' \<and> flags_exact (thread_model srv) sr e c'"
    by (auto simp: open_result_def split: option.splits)
  then have "closable winv c'" "connected c'" "has (c_state c') HANDLE_OPEN"
    using assms(2) st by (simp_all add: closable_def connected_def)
  with of z' False cached st sr show ?thesis
    by (auto simp: common_open_result_def stopped_def serving_def caps_negotiated split: option.splits)
qed

lemma protocol_common_open_ok:
  assumes "idle w conn"
  shows "common_open_result name conn (protocol_common_open srv name w conn)"
proof -
  have w: "cinv w" "top_context conn = None" "name_ok (default_exportname conn)" using assms by (auto simp: idle_def)
  note o = open_ok [OF w(1), where ro = "read_only srv" and name = name and is_tls = "using_tls conn" and cached = "default_exportname conn"]
  then obtain cached res where bo: "backend_open (top srv) (close_next srv) (read_only srv) name (using_tls conn) True
      (default_exportname conn) w = Some (cached, res)"
    by (auto split: option.splits)
  note cached = backend_open_name [OF bo w(3)]
  show ?thesis
  proof (cases res)
    case (Inl w')
    with o bo w cached show ?thesis
      by (simp add: protocol_common_open_def common_open_result_def stopped_def)
  next
    case (Inr c)
    with o bo obtain w' where c: "winv w'"
        "c = (new_context (read_only srv) w')\<lparr>handle := True, c_state := HANDLE_OPEN\<rparr>" by auto
    have nm: "name_ok cached" "name = [] \<longrightarrow> cached \<noteq> None" using cached Inr by auto
    from c have cc: "closable winv c" "c_state c = HANDLE_OPEN" by (simp_all add: closable_def new_context_def)
    obtain r w1 where p: "backend_prepare (top srv) (prepare_next srv) c = Some (r, c\<lparr>inner := w1, c_state :=
          if r = - 1 then HANDLE_OPEN else HANDLE_OPEN OR HANDLE_CONNECTED\<rparr>)" "winv w1"
      using prepare_ok [OF cc] by blast
    show ?thesis
    proof (cases "r = - 1")
      case True
      with w bo Inr p cc nm show ?thesis
        by (simp add: protocol_common_open_def common_open_result_def stopped_def closable_def)
    next
      case False
      let ?c = "c\<lparr>inner := w1, c_state := HANDLE_OPEN OR HANDLE_CONNECTED\<rparr>"
      have "?c = (new_context (read_only srv) w')\<lparr>handle := True, c_state := HANDLE_OPEN OR HANDLE_CONNECTED, inner := w1\<rparr>"
        using c(2) by simp
      from after_prepare [OF this p(2), of "structured_replies conn"]
      obtain z c2 where s: "backend_get_size (top srv) ?c = Some (z, c2)" "closable winv c2"
        "handle c2" "c_state c2 = HANDLE_OPEN OR HANDLE_CONNECTED"
        "z > INT64_MAX \<or> unat z = sz \<and> exportsize c2 = z
          \<and> open_result (structured_replies conn) c2 (open_flags srv (structured_replies conn) c2)" by blast
      have "protocol_common_open srv name w conn =
        (if z > INT64_MAX then Some (None, w, conn\<lparr>default_exportname := cached, top_context := Some c2\<rparr>)
         else do { (e, c) \<leftarrow> open_flags srv (structured_replies conn) c2;
              Some (case e of None \<Rightarrow> None | Some e \<Rightarrow> Some (z, e), w, conn\<lparr>default_exportname := cached, top_context := Some c\<rparr>) })"
        using w bo Inr p(1) False s(1) by (simp add: protocol_common_open_def)
      with open_tail [OF s(2-5) nm refl] show ?thesis by simp
    qed
  qed
qed

end

lemma data_at_ok: "i + n \<le> length data \<Longrightarrow> data_at data i n = Some (take n (drop i data))"
  by (simp add: data_at_def)

lemma check_string_ok:
  "i + maxlen \<le> length data \<Longrightarrow>
     \<exists>ok. check_string data i len maxlen = Some ok \<and> (ok \<longrightarrow> len \<le> maxlen \<and> len \<le> NBD_MAX_STRING)"
  by (auto simp: check_string_def data_at_ok)

context export_server
begin

definition end_ok :: "opt_end \<Rightarrow> 's world \<Rightarrow> 's connection \<Rightarrow> bool" where
  "end_ok e w conn \<longleftrightarrow> (case e of OptFail \<Rightarrow> stopped w conn | OptNext \<Rightarrow> idle w conn
     | OptDone \<Rightarrow> serving (eflags conn) conn)"

definition opt_ok :: "'s opt_result \<Rightarrow> bool" where
  "opt_ok res \<longleftrightarrow> (case res of None \<Rightarrow> False | Some (e, w, conn) \<Rightarrow> end_ok e w conn)"

lemma opt_ok_Some [simp]: "opt_ok (Some (e, w, conn)) = end_ok e w conn"
  by (simp add: opt_ok_def)

lemma end_ok_simps [simp]:
  "end_ok OptFail w conn = stopped w conn" "end_ok OptNext w conn = idle w conn"
  "end_ok OptDone w conn = serving (eflags conn) conn"
  by (simp_all add: end_ok_def)

lemma idle_stopped: "idle w conn \<Longrightarrow> stopped w conn"
  by (simp add: idle_def stopped_def)

lemma stopped_io: "io_only conn conn' \<Longrightarrow> stopped w conn \<Longrightarrow> stopped w conn'"
  by (simp add: stopped_def io_onlyD)

lemma idle_io: "io_only conn conn' \<Longrightarrow> idle w conn \<Longrightarrow> idle w conn'"
  by (simp add: idle_def io_onlyD)

lemma serving_io: "io_only conn conn' \<Longrightarrow> serving e conn \<Longrightarrow> serving e conn'"
  by (simp add: serving_def io_onlyD cong: option.case_cong)

lemma serving_stopped: "serving e conn \<Longrightarrow> stopped w conn"
  by (auto simp: serving_def stopped_def closable_def negotiated_def connected_def has_def split: option.splits)

lemma and_then_ok:
  assumes "io_only conn (snd x)" and "stopped w conn" and "\<And>conn'. io_only conn conn' \<Longrightarrow> opt_ok (k conn')"
  shows "opt_ok (and_then w x k)"
  using assms by (auto simp: and_then_def stopped_io split: prod.splits)

lemma recv_then_ok:
  assumes "stopped w conn"
    and "\<And>data conn'. io_only conn conn' \<Longrightarrow> length data = n \<Longrightarrow> opt_ok (k data conn')"
  shows "opt_ok (recv_then n w conn k)"
  using assms recv_full_io [of n conn] recv_full_length [of n conn]
  by (auto simp: recv_then_def stopped_io split: prod.splits)

lemma send_reply_io': "io_only conn (snd (send_newstyle_option_reply srv option reply conn))"
  by (metis prod.collapse send_reply_io)

lemma send_bufs_io': "io_only conn (snd (send_bufs bufs conn))"
  by (metis prod.collapse send_bufs_io)

lemma reply_next_ok: "idle w conn \<Longrightarrow> opt_ok (reply_next srv option reply w conn)"
  unfolding reply_next_def by (rule and_then_ok [OF send_reply_io' idle_stopped]) (auto intro: idle_io)

lemma reply_skip_ok: "idle w conn \<Longrightarrow> opt_ok (reply_skip srv option reply n w conn)"
  unfolding reply_skip_def
  by (rule and_then_ok [OF send_reply_io' idle_stopped], assumption, rule recv_then_ok)
    (auto intro: idle_io idle_stopped)

lemma finish_ok:
  assumes "idle w conn"
  shows "case finish_newstyle_options srv name w conn of None \<Rightarrow> False
    | Some (z, w', conn') \<Rightarrow> stopped w' conn' \<and> name_ok (default_exportname conn')
        \<and> (case z of None \<Rightarrow> True | Some z \<Rightarrow> serving (eflags conn') conn'
             \<and> (name = [] \<longrightarrow> default_exportname conn' \<noteq> None))"
proof -
  let ?name = "takeWhile (\<lambda>b. b \<noteq> 0) name"
  define conn1 where "conn1 = (case exportname_from_set_meta_context conn of None \<Rightarrow> conn
      | Some n \<Rightarrow> if n \<noteq> ?name then conn\<lparr>meta_context_base_allocation := False\<rparr> else conn)"
  have "idle w conn1"
    using assms by (auto simp: conn1_def idle_def split: option.splits)
  from protocol_common_open_ok [OF this, of ?name]
  obtain x w' conn' where r: "protocol_common_open srv ?name w conn1 = Some (x, w', conn')"
      "stopped w' conn'" "name_ok (default_exportname conn')"
      "case x of None \<Rightarrow> True | Some (z, e) \<Rightarrow> serving e conn' \<and> unat z = sz
         \<and> (?name = [] \<longrightarrow> default_exportname conn' \<noteq> None)"
    by (auto simp: common_open_result_def split: option.splits)
  have "finish_newstyle_options srv name w conn = Some (case x of None \<Rightarrow> (None, w', conn')
      | Some (z, e) \<Rightarrow> (Some z, w', conn'\<lparr>eflags := e\<rparr>))"
    using r(1) by (simp add: finish_newstyle_options_def conn1_def [symmetric])
  then show ?thesis using r(2-)
    by (auto simp: stopped_def serving_def split: option.splits prod.splits)
qed

lemma opt_export_name_ok:
  assumes "idle w conn"
  shows "opt_ok (opt_export_name srv n w conn)"
  unfolding opt_export_name_def
proof (rule recv_then_ok [OF idle_stopped [OF assms]], goal_cases)
  case (1 data conn1)
  have id: "idle w conn1" by (rule idle_io [OF 1(1) assms])
  obtain ok where ok: "check_string data 0 n n = Some ok" using check_string_ok [of 0 n data n] 1(2) by auto
  obtain z w' conn' where f: "finish_newstyle_options srv (take n data) w conn1 = Some (z, w', conn')"
      "stopped w' conn'" "case z of None \<Rightarrow> True | Some z \<Rightarrow> serving (eflags conn') conn'"
    using finish_ok [OF id, of "take n data"] by (auto split: option.splits)
  have snd: "io_only conn' (snd (raw_send_socket buf conn'))" for buf by (metis prod.collapse raw_send_io)
  show ?case
    using f idle_stopped [OF id] unfolding ok
    by (cases z) (auto simp: Let_def io_onlyD intro!: and_then_ok [OF snd] intro: serving_io)
qed


lemma opt_starttls_ok:
  assumes "idle w conn"
  shows "opt_ok (opt_starttls srv n w conn)"
proof -
  have "opt_ok (and_then w (send_newstyle_option_reply srv NBD_OPT_STARTTLS NBD_REP_ACK conn) (\<lambda>conn.
        case crypto_negotiate_tls srv (sockin conn, sockout conn, wscript conn) of (r, i, out, s) \<Rightarrow>
          let conn = conn\<lparr>sockin := i, sockout := out, wscript := s\<rparr> in
          if r = - 1 then Some (OptFail, w, conn)
          else Some (OptNext, forget_exportnames srv w,
            conn\<lparr>using_tls := True, structured_replies := False, exportname_from_set_meta_context := None,
                 meta_context_base_allocation := False, default_exportname := None\<rparr>)))"
    by (rule and_then_ok [OF send_reply_io' idle_stopped [OF assms]])
      (use assms forget_ok in \<open>auto simp: Let_def idle_def stopped_def io_onlyD split: prod.splits\<close>)
  with assms show ?thesis
    by (auto simp: opt_starttls_def intro: reply_next_ok reply_skip_ok)
qed

lemma opt_structured_reply_ok:
  assumes "idle w conn"
  shows "opt_ok (opt_structured_reply srv n w conn)"
proof -
  have "opt_ok (and_then w (send_newstyle_option_reply srv NBD_OPT_STRUCTURED_REPLY NBD_REP_ACK conn)
             (\<lambda>conn. Some (OptNext, w, conn\<lparr>structured_replies := True\<rparr>)))"
    by (rule and_then_ok [OF send_reply_io' idle_stopped [OF assms]])
      (use assms in \<open>auto simp: idle_def io_onlyD\<close>)
  with assms show ?thesis
    by (auto simp: opt_structured_reply_def intro: reply_next_ok reply_skip_ok)
qed

lemma send_meta_io:
  "io_only conn (snd (send_newstyle_option_reply_meta_context option reply cid name conn))"
  unfolding send_newstyle_option_reply_meta_context_def by (rule send_bufs_io')

lemma meta_queries_ok:
  assumes "idle w conn" and "length data = optlen" and "i \<le> optlen"
  shows "opt_ok (meta_queries srv option optlen data k i w conn)"
  using assms(1,3)
proof (induction k arbitrary: i conn)
  case 0
  then show ?case by (simp add: reply_next_ok)
next
  case (Suc k)
  show ?case
  proof (cases "i + 4 \<le> optlen")
    case False
    with Suc.prems show ?thesis by (simp add: reply_next_ok)
  next
    case True
    define qlen where "qlen = unat (be_dec (take 4 (drop i data)) :: u32)"
    obtain ok where ok: "check_string data (i + 4) qlen (optlen - (i + 4)) = Some ok"
        "ok \<longrightarrow> qlen \<le> optlen - (i + 4)"
      using check_string_ok [of "i + 4" "optlen - (i + 4)" data qlen] assms(2) True by auto
    show ?thesis
    proof (cases ok)
      case False
      with ok(1) True assms(2) Suc.prems show ?thesis
        by (simp add: data_at_ok qlen_def [symmetric] reply_next_ok)
    next
      case t: True
      with ok True have le: "i + 4 + qlen \<le> optlen" by simp
      have rec: "opt_ok (meta_queries srv option optlen data k (i + 4 + qlen) w conn')" if "idle w conn'" for conn'
        using Suc.IH [OF that le] .
      have meta: "opt_ok (and_then w (send_newstyle_option_reply_meta_context option reply cid name conn)
          (\<lambda>conn. meta_queries srv option optlen data k (i + 4 + qlen) w (g conn)))"
        if "\<And>conn'. io_only conn conn' \<Longrightarrow> idle w (g conn')" for reply cid name g
        by (rule and_then_ok [OF send_meta_io idle_stopped [OF Suc.prems(1)]]) (auto intro: rec that)
      have id: "idle w (if b then conn'\<lparr>meta_context_base_allocation := True\<rparr> else conn')" if "io_only conn conn'" for b conn'
        using idle_io [OF that Suc.prems(1)] by (simp add: idle_def)
      show ?thesis
        using t ok(1) True le assms(2) meta [of "\<lambda>c. c"] meta [of "\<lambda>conn. if option = NBD_OPT_SET_META_CONTEXT then conn\<lparr>meta_context_base_allocation := True\<rparr> else conn"]
          rec [OF Suc.prems(1)] id idle_io [OF _ Suc.prems(1)]
        by (auto simp: data_at_ok qlen_def [symmetric] Let_def)
    qed
  qed
qed

lemma opt_meta_context_ok:
  assumes "idle w conn"
  shows "opt_ok (opt_meta_context srv option n w conn)"
  unfolding opt_meta_context_def
proof (rule recv_then_ok [OF idle_stopped [OF assms]], goal_cases)
  case (1 data conn1)
  have id: "idle w conn1" by (rule idle_io [OF 1(1) assms])
  define len where "len = unat (be_dec (take 4 data) :: u32)"
  have cs: "\<exists>ok. check_string data 4 len (n - 8) = Some ok \<and> (ok \<longrightarrow> len \<le> n - 8)" if "8 \<le> n"
    using check_string_ok [of 4 "n - 8" data len] 1(2) that by auto
  have up: "idle w (conn1\<lparr>exportname_from_set_meta_context := x\<rparr>)" "idle w (conn1\<lparr>exportname_from_set_meta_context := x, meta_context_base_allocation := b\<rparr>)"
    for x b using id by (simp_all add: idle_def)
  have list: "opt_ok (and_then w (send_newstyle_option_reply_meta_context option NBD_REP_META_CONTEXT 0 base_allocation conn1)
                       (reply_next srv option NBD_REP_ACK w))"
    by (rule and_then_ok [OF send_meta_io idle_stopped [OF id]]) (auto intro: reply_next_ok idle_io id)
  show ?case
    using 1(2) id list up cs
    by (auto simp: data_at_ok len_def [symmetric] Let_def intro!: reply_next_ok meta_queries_ok split: bind_splits)
qed

end

lemma backend_default_export_cached:
  "backend_default_export b ro is_tls top_null (Some s) w = Some (Some s, Some s, w)"
  by (simp add: backend_default_export_def)

context export_server
begin

text \<open>An open export, with the default name at hand when the client asked for it by \<^verbatim>\<open>""\<close>.\<close>

definition exporting :: "u8 list \<Rightarrow> 's connection \<Rightarrow> bool" where
  "exporting name conn \<longleftrightarrow> serving (eflags conn) conn \<and> name_ok (default_exportname conn)
     \<and> (name = [] \<longrightarrow> default_exportname conn \<noteq> None)"

lemma exporting_io: "io_only conn conn' \<Longrightarrow> exporting name conn \<Longrightarrow> exporting name conn'"
  by (simp add: exporting_def serving_def io_onlyD cong: option.case_cong)

lemma exporting_inner:
  "exporting name conn \<Longrightarrow> top_context conn = Some c \<Longrightarrow> winv w \<Longrightarrow>
     exporting name (conn\<lparr>top_context := Some (c\<lparr>inner := w\<rparr>)\<rparr>)"
  by (simp add: exporting_def serving_def caps_known_def flags_exact_def)

lemma exporting_blocks:
  "exporting name conn \<Longrightarrow> top_context conn = Some c \<Longrightarrow> winv w \<Longrightarrow>
     exporting name (conn\<lparr>top_context := Some (c\<lparr>inner := w, minimum_block_size := x, preferred_block_size := y,
       maximum_block_size := z\<rparr>)\<rparr>)"
  by (simp add: exporting_def serving_def caps_known_def flags_exact_def negotiated_def connected_def)

definition info_ok :: "u8 list \<Rightarrow> 's opt_result \<Rightarrow> bool" where
  "info_ok name res \<longleftrightarrow> (case res of None \<Rightarrow> False
     | Some (e, w, conn) \<Rightarrow> e \<noteq> OptDone \<and> exporting name conn)"

lemma info_ok_Some [simp]: "info_ok name (Some (e, w, conn)) \<longleftrightarrow> e \<noteq> OptDone \<and> exporting name conn"
  by (simp add: info_ok_def)

lemma info_then_ok:
  assumes "io_only conn (snd x)" and "exporting name conn"
  shows "info_ok name (and_then w x (\<lambda>conn. Some (OptNext, w, conn)))"
  using assms by (auto simp: and_then_def exporting_io split: prod.splits)

lemma info_str_ok:
  assumes "name_ok s" and "exporting name conn"
  shows "info_ok name (info_str option info s w conn)"
  using assms info_then_ok [OF send_bufs_io'] 
  by (auto simp: info_str_def send_newstyle_option_reply_info_str_def split: option.splits)

lemma info_name_ok:
  assumes ex: "exporting name conn" and "length name \<le> NBD_MAX_STRING" and c: "top_context conn = Some c"
  shows "info_ok name (info_name srv option name w c conn)"
proof (cases "name = []")
  case True
  with ex obtain s where s: "default_exportname conn = Some s" "length s \<le> NBD_MAX_STRING"
    by (auto simp: exporting_def)
  then have "conn\<lparr>default_exportname := Some s, top_context := Some c\<rparr> = conn"
    using c by (cases conn) simp
  with s True info_str_ok [OF _ ex] show ?thesis
    by (simp add: info_name_def backend_default_export_cached)
qed (use info_str_ok [OF _ ex] assms(2) in \<open>simp add: info_name_def\<close>)

lemma info_description_ok:
  assumes ex: "exporting name conn" and c: "top_context conn = Some c" "connected c" "winv (inner c)"
  shows "info_ok name (info_description srv option w c conn)"
proof -
  obtain s w' where d: "b_export_description (top srv) c = Some (s, c\<lparr>inner := w'\<rparr>)" "winv w'"
    using description_ok [OF c(2,3)] by blast
  from info_str_ok [OF _ exporting_inner [OF ex c(1) d(2)]] show ?thesis
    using d(1) c(2) by (auto simp: info_description_def backend_export_description_def split: option.splits)
qed

lemma info_block_size_ok:
  assumes ex: "exporting name conn" and c: "top_context conn = Some c" "connected c" "winv (inner c)"
  shows "info_ok name (info_block_size srv option w c conn)"
proof -
  obtain r x y z w' where b: "b_block_size (top srv) c = Some (r, (x, y, z), c\<lparr>inner := w'\<rparr>)" "winv w'"
    using block_size_ok [OF c(2,3)] by (metis prod_cases3)
  have same: "conn\<lparr>top_context := Some c\<rparr> = conn" using c(1) by (cases conn) simp
  have "\<exists>r t c'. backend_block_size (top srv) c = Some (r, t, c') \<and> exporting name (conn\<lparr>top_context := Some c'\<rparr>)"
  proof (cases "minimum_block_size c = - 1")
    case False
    then show ?thesis using c(2) ex by (simp add: backend_block_size_def same)
  next
    case True
    with b(1) c(2) exporting_inner [OF ex c(1) b(2)] exporting_blocks [OF ex c(1) b(2), of z y x] show ?thesis
      by (cases "r = 0") (simp_all add: backend_block_size_def)
  qed
  then obtain r t c' where "backend_block_size (top srv) c = Some (r, t, c')" "exporting name (conn\<lparr>top_context := Some c'\<rparr>)"
    by blast
  then show ?thesis
    using info_then_ok [OF send_bufs_io']
    by (auto simp: info_block_size_def send_newstyle_option_reply_info_block_size_def Let_def split: prod.splits)
qed

lemma info_reply_ok:
  assumes ex: "exporting name conn" and len: "length name \<le> NBD_MAX_STRING"
  shows "info_ok name (info_reply srv option name info w conn)"
proof -
  obtain c where c: "top_context conn = Some c" "connected c" "winv (inner c)"
    using ex by (auto simp: exporting_def serving_def negotiated_def split: option.splits)
  with info_name_ok [OF ex len c(1)] info_description_ok [OF ex c] info_block_size_ok [OF ex c] ex
  show ?thesis by (simp add: info_reply_def)
qed

lemma info_replies_ok:
  assumes "exporting name conn" and "length name \<le> NBD_MAX_STRING" and "i + 2 * n \<le> length data"
  shows "info_ok name (info_replies srv option data i n name w conn)"
  using assms(1,3)
proof (induction n arbitrary: i w conn)
  case 0
  then show ?case by simp
next
  case (Suc n)
  obtain e w' conn' where r: "info_reply srv option name (be_dec (take 2 (drop i data))) w conn = Some (e, w', conn')"
      "e \<noteq> OptDone" "exporting name conn'"
    using info_reply_ok [OF Suc.prems(1) assms(2), of option "be_dec (take 2 (drop i data))" w] by (auto simp: info_ok_def split: option.splits)
  with Suc.IH [OF r(3), of "i + 2" w'] Suc.prems(2) show ?case
    by (cases e) (auto simp: data_at_ok)
qed

lemma close_top_ok:
  assumes "closable winv c" and "name_ok (default_exportname conn)"
  shows "\<exists>r w' conn'. close_top srv c w conn = Some (r, w', conn') \<and> (if r = - 1 then stopped w' conn' else idle w' conn')"
proof -
  obtain r c' where f: "backend_finalize (top srv) (finalize_next srv) c = Some (r, c')" "closable winv c'"
    using finalize_ok [OF assms(1)] by blast
  moreover obtain w' where "backend_close (top srv) (close_rest srv) c' = Some w'" "cinv w'"
    using close_ok [OF f(2)] by blast
  ultimately show ?thesis
    using assms(2) by (simp add: close_top_def stopped_def idle_def)
qed


lemma info_go_finish_ok:
  assumes e: "exporting name conn"
  shows "opt_ok (and_then w (send_newstyle_option_reply srv option NBD_REP_ACK conn) (\<lambda>conn.
               if option = NBD_OPT_INFO
               then (case top_context conn of None \<Rightarrow> None
                     | Some c \<Rightarrow> do { (r, w, conn) \<leftarrow> close_top srv c w conn;
                         Some (if r = - 1 then OptFail else OptNext, w, conn) })
               else Some (OptDone, w, conn)))"
proof (rule and_then_ok [OF send_reply_io'], goal_cases)
  case 1
  from e show ?case by (auto simp: exporting_def intro: serving_stopped)
next
  case (2 conn3)
  then have e3: "exporting name conn3" using e by (rule exporting_io)
  then obtain c where c: "top_context conn3 = Some c" "closable winv c" "name_ok (default_exportname conn3)"
    using serving_stopped [of "eflags conn3" conn3 w]
    by (auto simp: exporting_def serving_def stopped_def split: option.splits)
  obtain r w' conn' where "close_top srv c w conn3 = Some (r, w', conn')" "if r = - 1 then stopped w' conn' else idle w' conn'"
    using close_top_ok [OF c(2,3)] by blast
  with e3 c(1) show ?case by (auto simp: exporting_def split: if_splits)
qed

lemma close_if_open_ok:
  assumes "stopped w conn" and "name_ok (default_exportname conn)"
  obtains r w' conn' where "(case top_context conn of None \<Rightarrow> Some (0, w, conn) | Some c \<Rightarrow> close_top srv c w conn)
        = Some (r, w', conn')" "if r = - 1 then stopped w' conn' else idle w' conn'"
proof (cases "top_context conn")
  case None
  with assms that [of 0 w conn] show ?thesis by (simp add: stopped_def idle_def)
next
  case (Some c)
  with assms obtain r w' conn' where "close_top srv c w conn = Some (r, w', conn')"
      "if r = - 1 then stopped w' conn' else idle w' conn'"
    using close_top_ok [of c conn w] by (auto simp: stopped_def)
  with Some that show ?thesis by simp
qed

lemma info_go_open_ok:
  assumes id: "idle w conn" and len: "4 + len + 2 + 2 * nrinfos \<le> length data" and "len \<le> NBD_MAX_STRING"
  shows "opt_ok (info_go_open srv option data len nrinfos w conn)"
proof -
  let ?name = "take len (drop 4 data)"
  have nm: "data_at data 4 len = Some ?name" "length ?name \<le> NBD_MAX_STRING"
    using assms(2,3) by (simp_all add: data_at_ok)
  obtain z w1 conn1 where f: "finish_newstyle_options srv ?name w conn = Some (z, w1, conn1)" "stopped w1 conn1"
      "name_ok (default_exportname conn1)"
      "case z of None \<Rightarrow> True | Some z \<Rightarrow> serving (eflags conn1) conn1 \<and> (?name = [] \<longrightarrow> default_exportname conn1 \<noteq> None)"
    using finish_ok [OF id, of ?name] by (auto split: option.splits)
  show ?thesis
  proof (cases z)
    case None
    obtain r w' conn' where "(case top_context conn1 of None \<Rightarrow> Some (0, w1, conn1) | Some c \<Rightarrow> close_top srv c w1 conn1)
        = Some (r, w', conn')" "if r = - 1 then stopped w' conn' else idle w' conn'"
      using f(2,3) by (rule close_if_open_ok)
    with None f(1) nm(1) show ?thesis
      by (cases "r = - 1") (simp_all add: info_go_open_def reply_next_ok)
  next
    case (Some z')
    with f have ex: "exporting ?name conn1" by (auto simp: exporting_def)
    have "opt_ok (and_then w1 (send_newstyle_option_reply_info_export option NBD_REP_INFO z' conn1) (\<lambda>conn. do {
            (e, w, conn) \<leftarrow> info_replies srv option data (4 + len + 2) nrinfos ?name w1 conn;
            (if e = OptFail then Some (OptFail, w, conn)
             else and_then w (send_newstyle_option_reply srv option NBD_REP_ACK conn) (\<lambda>conn.
               if option = NBD_OPT_INFO
               then (case top_context conn of None \<Rightarrow> None
                     | Some c \<Rightarrow> do {
                         (r, w, conn) \<leftarrow> close_top srv c w conn;
                         Some (if r = - 1 then OptFail else OptNext, w, conn) })
               else Some (OptDone, w, conn))) }))"
      unfolding send_newstyle_option_reply_info_export_def
    proof (rule and_then_ok [OF send_bufs_io' f(2)], goal_cases)
      case (1 conn2)
      from info_replies_ok [OF exporting_io [OF 1 ex] nm(2), of "4 + len + 2" nrinfos data option w1] len
      obtain e w3 conn3 where "info_replies srv option data (4 + len + 2) nrinfos ?name w1 conn2 = Some (e, w3, conn3)"
          "e \<noteq> OptDone" "exporting ?name conn3"
        by (auto simp: info_ok_def split: option.splits)
      with info_go_finish_ok show ?case by (cases e) (auto simp: exporting_def intro: serving_stopped)
    qed
    moreover have "top_context conn1 \<noteq> None" using ex by (auto simp: exporting_def serving_def split: option.splits)
    ultimately show ?thesis using Some f(1) nm(1) by (simp add: info_go_open_def)
  qed
qed

lemma opt_info_go_ok:
  assumes "idle w conn"
  shows "opt_ok (opt_info_go srv option n w conn)"
  unfolding opt_info_go_def
proof (rule recv_then_ok [OF idle_stopped [OF assms]], goal_cases)
  case (1 data conn1)
  have id: "idle w conn1" by (rule idle_io [OF 1(1) assms])
  define len where "len = unat (be_dec (take 4 data) :: u32)"
  show ?case
  proof (cases "6 \<le> n \<and> len \<le> n - 6")
    case False
    with id 1(2) show ?thesis
      by (cases "n < 6") (simp_all add: data_at_ok len_def [symmetric] reply_next_ok)
  next
    case True
    define nr where "nr = unat (be_dec (take 2 (drop (len + 4) data)) :: u16)"
    obtain ok where ok: "check_string data 4 len (n - 6) = Some ok" "ok \<longrightarrow> len \<le> NBD_MAX_STRING"
      using check_string_ok [of 4 "n - 6" data len] 1(2) True by auto
    have d: "data_at data (len + 4) 2 = Some (take 2 (drop (len + 4) data))"
      using True 1(2) by (intro data_at_ok) linarith
    from True 1(2) id ok d info_go_open_ok [OF id, of len nr data option] show ?thesis
      by (simp add: data_at_ok len_def [symmetric] nr_def [symmetric] Let_def reply_next_ok cong: if_cong)
  qed
qed


lemma list_exports_ok:
  assumes "cinv w" and "name_ok cached"
  shows "\<exists>r exps cached' w'. backend_list_exports (top srv) ro is_tls True cached nbdkit_exports_new w
    = Some (r, exps, cached', w') \<and> cinv w' \<and> name_ok cached'"
proof -
  obtain r exps w1 where l: "b_list_exports (top srv) ro is_tls nbdkit_exports_new w = Some (r, exps, w1)" "cinv w1"
    using list_ok [OF assms(1)] by blast
  obtain s w2 where d: "b_default_export (top srv) ro is_tls w1 = Some (s, w2)" "cinv w2"
    using default_ok [OF l(2)] by blast
  have "\<exists>r exps cached' w'. backend_list_exports (top srv) ro is_tls True cached nbdkit_exports_new w
    = Some (r, exps, cached', w') \<and> cinv w'"
    using l d by (auto simp: backend_list_exports_def exports_resolve_default_def backend_default_export_def Let_def
        split: option.splits prod.splits)
  with backend_list_exports_name [OF _ assms(2)] show ?thesis by blast
qed

definition list_result :: "bool \<Rightarrow> (opt_end \<times> nat \<times> bool \<times> 's world \<times> 's connection) option \<Rightarrow> bool" where
  "list_result seen res \<longleftrightarrow> (case res of None \<Rightarrow> False
     | Some (e, grow, seen', w, conn) \<Rightarrow> end_ok e w conn
         \<and> (e = OptNext \<longrightarrow> (if seen then seen' \<and> grow = 0 else seen' \<or> grow = 0)))"

lemma list_result_Some [simp]:
  "list_result seen (Some (e, grow, seen', w, conn)) \<longleftrightarrow> end_ok e w conn
     \<and> (e = OptNext \<longrightarrow> (if seen then seen' \<and> grow = 0 else seen' \<or> grow = 0))"
  by (simp add: list_result_def)

lemma simple_result:
  "opt_ok res \<Longrightarrow> list_result seen (do { (e, w, conn) \<leftarrow> res; Some (e, 0, seen, w, conn) })"
  by (auto simp: opt_ok_def split: option.splits)

lemma send_exports_io': "io_only conn (snd (send_exports option es conn))"
  by (metis prod.collapse send_exports_io)

lemma exportnames_ok:
  assumes "idle w conn"
  shows "\<exists>r grow w' conn'. send_newstyle_option_reply_exportnames srv option w conn = Some (r, grow, w', conn')
    \<and> idle w' conn'"
proof -
  obtain r exps cached w1 where l: "backend_list_exports (top srv) (read_only srv) (using_tls conn) True
      (default_exportname conn) nbdkit_exports_new w = Some (r, exps, cached, w1)" "cinv w1" "name_ok cached"
    using list_exports_ok [of w "default_exportname conn"] assms by (metis idle_def)
  let ?conn = "conn\<lparr>default_exportname := cached\<rparr>"
  have id: "idle w1 ?conn" using l assms by (simp add: idle_def)
  obtain r2 conn2 where s: "send_exports option (exps_list exps) ?conn = (r2, conn2)" by (rule prod.exhaust)
  have id2: "idle w1 conn2" using idle_io [OF send_exports_io [OF s] id] .
  obtain r3 conn3 where a: "send_newstyle_option_reply srv option NBD_REP_ACK conn2 = (r3, conn3)" by (rule prod.exhaust)
  obtain r4 conn4 where p: "send_newstyle_option_reply srv option NBD_REP_ERR_PLATFORM ?conn = (r4, conn4)"
    by (rule prod.exhaust)
  have "top_context conn = None" using assms by (simp add: idle_def)
  then show ?thesis
    using l(1) s a p id2 idle_io [OF send_reply_io [OF a] id2] idle_io [OF send_reply_io [OF p] id]
    by (auto simp: send_newstyle_option_reply_exportnames_def Let_def)
qed

lemma opt_list_ok:
  assumes "idle w conn"
  shows "list_result seen (opt_list srv n seen w conn)"
proof -
  obtain r grow w' conn' where e: "send_newstyle_option_reply_exportnames srv NBD_OPT_LIST w conn = Some (r, grow, w', conn')"
      "idle w' conn'"
    using exportnames_ok [OF assms] by blast
  have "list_result seen (do { (e, w, conn) \<leftarrow> reply_skip srv NBD_OPT_LIST NBD_REP_ERR_INVALID n w conn;
        Some (e, 0, seen, w, conn) })"
    "list_result seen (do { (e, w, conn) \<leftarrow> reply_next srv NBD_OPT_LIST NBD_REP_ERR_INVALID w conn;
        Some (e, 0, seen, w, conn) })"
    by (rule simple_result, rule reply_skip_ok reply_next_ok, rule assms)+
  then show ?thesis using e idle_stopped [OF e(2)] by (cases seen) (simp_all add: opt_list_def)
qed

lemma negotiate_option_ok:
  assumes "idle w conn"
  shows "list_result seen (negotiate_option srv seen w conn)"
proof -
  obtain r bs conn1 where recv: "conn_recv_full 16 conn = (r, bs, conn1)" by (rule prod_cases3)
  have id: "idle w conn1" by (rule idle_io [OF recv_full_io [OF recv] assms])
  have abort: "opt_ok (and_then w (send_newstyle_option_reply srv option NBD_REP_ACK conn1) (\<lambda>conn. Some (OptFail, w, conn)))" for option
    by (rule and_then_ok [OF send_reply_io' idle_stopped [OF id]]) (auto intro: idle_stopped idle_io id)
  note handlers = reply_next_ok [OF id] reply_skip_ok [OF id] opt_export_name_ok [OF id] abort opt_starttls_ok [OF id]
    opt_info_go_ok [OF id] opt_structured_reply_ok [OF id] opt_meta_context_ok [OF id]
  show ?thesis
    unfolding negotiate_option_def recv Let_def prod.case
    by (simp add: simple_result [OF handlers(1)] simple_result [OF handlers(2)] simple_result [OF handlers(3)]
        simple_result [OF handlers(4)] simple_result [OF handlers(5)] simple_result [OF handlers(6)]
        simple_result [OF handlers(7)] simple_result [OF handlers(8)] opt_list_ok [OF id] idle_stopped [OF id])
qed

definition handshake_ok :: "(int \<times> 's world \<times> 's connection) option \<Rightarrow> bool" where
  "handshake_ok res \<longleftrightarrow> (case res of None \<Rightarrow> False
     | Some (r, w, conn) \<Rightarrow> stopped w conn \<and> (r = - 1 \<or> r = 0 \<and> serving (eflags conn) conn))"

lemma options_step:
  assumes "idle w conn"
    and "\<And>grow seen' w' conn'. idle w' conn' \<Longrightarrow> (if seen then seen' \<and> grow = 0 else seen' \<or> grow = 0) \<Longrightarrow>
      handshake_ok (negotiate_handshake_newstyle_options srv (n + grow) seen' w' conn')"
  shows "handshake_ok (negotiate_handshake_newstyle_options srv (Suc n) seen w conn)"
proof -
  obtain e grow seen' w' conn' where o: "negotiate_option srv seen w conn = Some (e, grow, seen', w', conn')"
      "end_ok e w' conn'" "e = OptNext \<longrightarrow> (if seen then seen' \<and> grow = 0 else seen' \<or> grow = 0)"
    using negotiate_option_ok [OF assms(1), of seen] by (auto simp: list_result_def split: option.splits)
  have "negotiate_handshake_newstyle_options srv (Suc n) seen w conn =
     (if e = OptFail then Some (- 1, w', conn')
      else if e = OptNext then negotiate_handshake_newstyle_options srv (n + grow) seen' w' conn'
      else if tls srv = 2 \<and> \<not> using_tls conn' then Some (- 1, w', conn')
      else Some (0, w', conn'))"
    by (subst negotiate_handshake_newstyle_options.simps) (simp add: o(1))
  with o(2,3) assms(2) [of w' conn' seen' grow] show ?thesis
    by (cases e) (auto simp: handshake_ok_def intro: serving_stopped)
qed

lemma options_seen_ok: "idle w conn \<Longrightarrow> handshake_ok (negotiate_handshake_newstyle_options srv n True w conn)"
proof (induction n arbitrary: w conn)
  case 0
  then show ?case by (simp add: negotiate_handshake_newstyle_options.simps handshake_ok_def idle_stopped)
next
  case (Suc n)
  show ?case by (rule options_step [OF Suc.prems]) (auto intro: Suc.IH)
qed

lemma options_ok: "idle w conn \<Longrightarrow> handshake_ok (negotiate_handshake_newstyle_options srv n seen w conn)"
proof (induction n arbitrary: seen w conn)
  case 0
  then show ?case by (simp add: negotiate_handshake_newstyle_options.simps handshake_ok_def idle_stopped)
next
  case (Suc n)
  show ?case
  proof (rule options_step [OF Suc.prems])
    fix grow :: nat and seen' :: bool and w' :: "'s world" and conn' :: "'s connection"
    assume "idle w' conn'" "if seen then seen' \<and> grow = 0 else seen' \<or> grow = 0"
    then show "handshake_ok (negotiate_handshake_newstyle_options srv (n + grow) seen' w' conn')"
      using options_seen_ok Suc.IH by (cases "grow = 0") (auto split: if_splits)
  qed
qed

lemma protocol_handshake_newstyle_ok:
  assumes "idle w conn"
  shows "handshake_ok (protocol_handshake_newstyle srv w conn)"
proof -
  obtain r conn1 where s: "raw_send_socket (enc_new_handshake \<lparr>nh_nbdmagic = NBD_MAGIC, nh_version = NBD_NEW_VERSION,
      nh_gflags = ucast ((ucast (NBD_FLAG_FIXED_NEWSTYLE OR NBD_FLAG_NO_ZEROES) :: u32) AND mask_handshake srv)\<rparr>) conn = (r, conn1)"
    by (rule prod.exhaust)
  have id1: "idle w conn1" by (rule idle_io [OF raw_send_io [OF s] assms])
  obtain r2 bs conn2 where rv: "conn_recv_full 4 conn1 = (r2, bs, conn2)" by (rule prod_cases3)
  have id2: "idle w conn2" by (rule idle_io [OF recv_full_io [OF rv] id1])
  then have "idle w (conn2\<lparr>cflags := be_dec bs\<rparr>)" by (simp add: idle_def)
  note opts = options_ok [OF this] idle_stopped [OF id1] idle_stopped [OF id2] idle_stopped [OF this]
  show ?thesis
    unfolding protocol_handshake_newstyle_def s rv Let_def prod.case
    using opts by (simp add: handshake_ok_def)
qed

end

subsection \<open>Required TLS\<close>

lemma options_tls:
  assumes "negotiate_handshake_newstyle_options srv n seen w conn = Some y"
  shows "tls srv = 2 \<longrightarrow> fst y = 0 \<longrightarrow> using_tls (snd (snd y))"
  by (rule negotiate_handshake_newstyle_options.raw_induct [OF _ assms,
        where P = "\<lambda>srv n seen w conn y. tls srv = 2 \<longrightarrow> fst y = 0 \<longrightarrow> using_tls (snd (snd y))"])
    (fastforce split: if_splits bind_splits)

text \<open>C5: When TLS is required (\<^verbatim>\<open>--tls=require\<close>), a newstyle handshake that succeeds has switched the
  connection to TLS.\<close>

theorem handshake_requires_tls:
  assumes "tls srv = 2" and "protocol_handshake_newstyle srv w conn = Some (0, w', conn')"
  shows "using_tls conn'"
proof -
  obtain n seen w1 and conn1 where "negotiate_handshake_newstyle_options srv n seen w1 conn1 = Some (0, w', conn')"
    using assms(2) by (auto simp: protocol_handshake_newstyle_def Let_def split: prod.splits if_splits)
  from options_tls [OF this] assms(1) show ?thesis by simp
qed

text \<open>C4: When TLS is required and the connection does not use it yet, the handling of an option does not
  depend on the backend: whatever the client sends, no callback of a plugin or filter is called before
  TLS is in place.\<close>

theorem no_backend_before_tls:
  assumes "tls srv = 2" and "\<not> using_tls conn"
  shows "negotiate_option (srv\<lparr>top := b, close_next := cn, prepare_next := pn, finalize_next := fn, close_rest := cr\<rparr>) seen w conn
    = negotiate_option srv seen w conn"
proof -
  let ?srv = "srv\<lparr>top := b, close_next := cn, prepare_next := pn, finalize_next := fn, close_rest := cr\<rparr>"
  have rep: "send_newstyle_option_reply ?srv = send_newstyle_option_reply srv"
    by (simp add: fun_eq_iff send_newstyle_option_reply_def)
  have "reply_next ?srv = reply_next srv" "reply_skip ?srv = reply_skip srv"
    by (simp_all add: fun_eq_iff reply_next_def reply_skip_def rep)
  then have "opt_starttls ?srv = opt_starttls srv"
    by (simp add: fun_eq_iff opt_starttls_def rep Let_def cong: if_cong)
  obtain r bs conn1 where recv: "conn_recv_full 16 conn = (r, bs, conn1)" by (rule prod_cases3)
  then have "\<not> using_tls conn1" using assms(2) recv_full_io io_onlyD(3) by metis
  then show ?thesis
    using assms(1) \<open>reply_next ?srv = reply_next srv\<close> \<open>reply_skip ?srv = reply_skip srv\<close> \<open>opt_starttls ?srv = opt_starttls srv\<close>
    by (auto simp: negotiate_option_def recv rep Let_def)
qed

end
