(* ===== verification/Allocators.thy ===== *)
theory Allocators
  imports Extents Common
begin

text \<open>
  The allocator interface of \<^verbatim>\<open>src/common/allocators/allocator.h\<close>, a RAM disk that grows on demand,
  and the \<^verbatim>\<open>malloc\<close> allocator of \<^verbatim>\<open>src/common/allocators/malloc.c\<close> over the capacity rule of
  \<^verbatim>\<open>src/common/utils/vector.c\<close>.  Locks are left out: each operation runs alone.
\<close>

subsection \<open>The interface\<close>

record 'a allocator_functions =
  af_preferred :: u32
  af_set_size_hint :: "'a \<Rightarrow> u64 \<Rightarrow> int \<times> 'a"
  af_read :: "'a \<Rightarrow> u64 \<Rightarrow> u64 \<Rightarrow> (int \<times> u8 list) option"
  af_write :: "'a \<Rightarrow> u8 list \<Rightarrow> u64 \<Rightarrow> u64 \<Rightarrow> (int \<times> 'a) option"
  af_fill :: "'a \<Rightarrow> u8 \<Rightarrow> u64 \<Rightarrow> u64 \<Rightarrow> (int \<times> 'a) option"
  af_zero :: "'a \<Rightarrow> u64 \<Rightarrow> u64 \<Rightarrow> (int \<times> 'a) option"
  af_extents :: "'a \<Rightarrow> u64 \<Rightarrow> u64 \<Rightarrow> nbdkit_extents \<Rightarrow> (int \<times> nbdkit_extents) option"

text \<open>
  What an allocator promises for accesses below the size \<open>dsize\<close> of the disk: it reads, writes,
  fills and zeroes the bytes of a disk, and reports as zero only bytes that are.  \<open>short\<close> says that no
  extent it reports is longer than the range asked for.
\<close>

locale allocator =
  fixes F :: "'a allocator_functions"
    and ainv :: "'a \<Rightarrow> bool"
    and acontent :: "'a \<Rightarrow> disk"
    and dsize :: u64
    and short :: bool
  assumes a_size: "ainv a \<Longrightarrow> unat dsize < 2 ^ 63"
    and a_read: "ainv a \<Longrightarrow> unat off + unat count \<le> unat dsize \<Longrightarrow>
      af_read F a count off = Some (0, disk_read (acontent a) (unat off) (unat count))"
    and a_write: "ainv a \<Longrightarrow> unat off + unat count \<le> unat dsize \<Longrightarrow> length buf = unat count \<Longrightarrow>
      \<exists>a'. af_write F a buf count off = Some (0, a') \<and> ainv a'
        \<and> acontent a' = disk_write (acontent a) (unat off) buf"
    and a_fill: "ainv a \<Longrightarrow> unat off + unat count \<le> unat dsize \<Longrightarrow>
      \<exists>a'. af_fill F a ch count off = Some (0, a') \<and> ainv a'
        \<and> acontent a' = disk_write (acontent a) (unat off) (replicate (unat count) ch)"
    and a_zero: "ainv a \<Longrightarrow> unat off + unat count \<le> unat dsize \<Longrightarrow>
      \<exists>a'. af_zero F a count off = Some (0, a') \<and> ainv a'
        \<and> acontent a' = disk_write (acontent a) (unat off) (zeroes (unat count))"
    and a_exts: "ainv a \<Longrightarrow> 0 < unat count \<Longrightarrow> unat off + unat count \<le> unat dsize \<Longrightarrow>
      wf_extents x \<Longrightarrow> extents x = [] \<Longrightarrow> x_start x = off \<Longrightarrow> x_next x = - 1 \<Longrightarrow>
      unat off + unat count \<le> unat (x_end x) \<Longrightarrow> unat (x_end x) \<le> unat dsize \<Longrightarrow>
      \<exists>x'. af_extents F a count off x = Some (0, x') \<and> wf_extents x' \<and> x_start x' = x_start x
        \<and> x_end x' = x_end x \<and> (short \<and> unat count < 2 ^ 32 \<longrightarrow> short_extents x')
        \<and> (\<forall>i ty. status x' i = Some ty \<and> has ty 2 \<longrightarrow> acontent a i = 0)"

subsection \<open>Vectors\<close>

text \<open>
  The new capacity and size in bytes, \<^term>\<open>None\<close> for an overflow.  \<^verbatim>\<open>size_t\<close> has 64 bits.
\<close>

definition calculate_capacity :: "u64 \<Rightarrow> u64 \<Rightarrow> u64 \<Rightarrow> bool \<Rightarrow> (u64 \<times> u64) option" where
  "calculate_capacity cap n itemsize exactly =
     (let (ov1, reqcap) = check_add_overflow cap n (- 1);
          (ov2, reqbytes) = check_mul_overflow reqcap itemsize (- 1) in
      if ov1 \<or> ov2 then None
      else let (ov3, t) = check_add_overflow cap 1 (- 1);
               (ov4, newcap) = check_add_overflow cap (t div 2) (- 1);
               (ov5, newbytes) = check_mul_overflow newcap itemsize (- 1) in
        if exactly \<or> ov3 \<or> ov4 \<or> ov5 \<or> newbytes < reqbytes then Some (reqcap, reqbytes)
        else Some (newcap, newbytes))"

subsection \<open>The malloc allocator\<close>

text \<open>
  \<open>ba\<close> is the byte array (its length is the capacity).  Three parameters stand for the
  system: \<open>alloc_ok n\<close> says whether \<open>n\<close> bytes can be had, \<open>junk i\<close> is what newly
  allocated memory holds at index \<open>i\<close>, and \<open>pagesize\<close> is the page size; \<open>mlock_ok\<close> says
  whether \<^verbatim>\<open>mlock\<close> succeeds.
\<close>

record sys =
  alloc_ok :: "u64 \<Rightarrow> bool"
  junk :: "nat \<Rightarrow> u8"
  pagesize :: u64
  mlock_ok :: bool

record m_alloc =
  ma_use_mlock :: bool
  ba :: "u8 list"

definition ba_cap :: "m_alloc \<Rightarrow> u64" where
  "ba_cap ma = of_nat (length (ba ma))"

text \<open>The array after a reserve to \<open>newcap\<close>: old bytes kept, new ones as they come.\<close>

definition regrow :: "sys \<Rightarrow> u8 list \<Rightarrow> nat \<Rightarrow> u8 list" where
  "regrow sys bs newcap = bs @ map (junk sys) [length bs..<newcap]"

definition bytearray_reserve :: "sys \<Rightarrow> u8 list \<Rightarrow> u64 \<Rightarrow> u8 list option" where
  "bytearray_reserve sys bs n =
     (case calculate_capacity (of_nat (length bs)) n 1 False of
        None \<Rightarrow> None
      | Some (newcap, newbytes) \<Rightarrow>
          if \<not> alloc_ok sys newbytes then None else Some (regrow sys bs (unat newcap)))"

definition bytearray_reserve_page_aligned :: "sys \<Rightarrow> u8 list \<Rightarrow> u64 \<Rightarrow> u8 list option" where
  "bytearray_reserve_page_aligned sys bs n =
     (case calculate_capacity (of_nat (length bs)) n 1 True of
        None \<Rightarrow> None
      | Some (newcap, newbytes) \<Rightarrow>
          let extra = newbytes AND (pagesize sys - 1);
              extra_items = (if extra > 0 then pagesize sys - extra else 0);
              (ov1, newcap') = check_add_overflow newcap extra_items (- 1);
              (ov2, newbytes') = check_add_overflow newbytes extra_items (- 1) in
          if extra > 0 \<and> (ov1 \<or> ov2) then None
          else if \<not> alloc_ok sys newbytes' then None
          else Some (regrow sys bs (unat newcap')))"

definition memset :: "u8 list \<Rightarrow> nat \<Rightarrow> u8 \<Rightarrow> nat \<Rightarrow> u8 list" where
  "memset bs off ch n = take off bs @ replicate n ch @ drop (off + n) bs"

definition memcpy :: "u8 list \<Rightarrow> nat \<Rightarrow> u8 list \<Rightarrow> u8 list" where
  "memcpy bs off src = take off bs @ src @ drop (off + length src) bs"

definition extend_without_mlock :: "sys \<Rightarrow> m_alloc \<Rightarrow> u64 \<Rightarrow> int \<times> m_alloc" where
  "extend_without_mlock sys ma new_size =
     (if ba_cap ma < new_size then
        let old_size = length (ba ma); n = new_size - ba_cap ma in
        case bytearray_reserve sys (ba ma) n of
          None \<Rightarrow> (- 1, ma)
        | Some bs \<Rightarrow> (0, ma\<lparr>ba := memset bs old_size 0 (unat n)\<rparr>)
      else (0, ma))"

definition extend_with_mlock :: "sys \<Rightarrow> m_alloc \<Rightarrow> u64 \<Rightarrow> int \<times> m_alloc" where
  "extend_with_mlock sys ma new_size =
     (if ba_cap ma < new_size then
        let old_size = length (ba ma); n = new_size - ba_cap ma in
        case bytearray_reserve_page_aligned sys (ba ma) n of
          None \<Rightarrow> (- 1, ma)
        | Some bs \<Rightarrow> (if mlock_ok sys then 0 else - 1, ma\<lparr>ba := memset bs old_size 0 (unat n)\<rparr>)
      else (0, ma))"

definition m_alloc_extend :: "sys \<Rightarrow> m_alloc \<Rightarrow> u64 \<Rightarrow> int \<times> m_alloc" where
  "m_alloc_extend sys ma new_size =
     (if ma_use_mlock ma then extend_with_mlock sys ma new_size
      else extend_without_mlock sys ma new_size)"

definition m_alloc_set_size_hint :: "sys \<Rightarrow> m_alloc \<Rightarrow> u64 \<Rightarrow> int \<times> m_alloc" where
  "m_alloc_set_size_hint sys ma size_hint = m_alloc_extend sys ma size_hint"

definition m_alloc_read :: "m_alloc \<Rightarrow> u64 \<Rightarrow> u64 \<Rightarrow> (int \<times> u8 list) option" where
  "m_alloc_read ma count off =
     (if off \<ge> ba_cap ma then Some (0, zeroes (unat count))
      else if off + count > ba_cap ma
        then Some (0, drop (unat off) (ba ma) @ zeroes (unat (off + count - ba_cap ma)))
      else Some (0, take (unat count) (drop (unat off) (ba ma))))"

definition m_alloc_write :: "sys \<Rightarrow> m_alloc \<Rightarrow> u8 list \<Rightarrow> u64 \<Rightarrow> u64 \<Rightarrow> (int \<times> m_alloc) option" where
  "m_alloc_write sys ma buf count off =
     (case m_alloc_extend sys ma (off + count) of
        (r, ma) \<Rightarrow> if r = - 1 then Some (- 1, ma) else Some (0, ma\<lparr>ba := memcpy (ba ma) (unat off) buf\<rparr>))"

definition m_alloc_fill :: "sys \<Rightarrow> m_alloc \<Rightarrow> u8 \<Rightarrow> u64 \<Rightarrow> u64 \<Rightarrow> (int \<times> m_alloc) option" where
  "m_alloc_fill sys ma ch count off =
     (case m_alloc_extend sys ma (off + count) of
        (r, ma) \<Rightarrow> if r = - 1 then Some (- 1, ma)
                  else Some (0, ma\<lparr>ba := memset (ba ma) (unat off) ch (unat count)\<rparr>))"

definition m_alloc_zero :: "m_alloc \<Rightarrow> u64 \<Rightarrow> u64 \<Rightarrow> (int \<times> m_alloc) option" where
  "m_alloc_zero ma count off =
     Some (0, if off < ba_cap ma then
                (if off + count > ba_cap ma
                 then ma\<lparr>ba := memset (ba ma) (unat off) 0 (unat (ba_cap ma - off))\<rparr>
                 else ma\<lparr>ba := memset (ba ma) (unat off) 0 (unat count)\<rparr>)
              else ma)"

text \<open>
  \<open>rd\<close> is the read function of the source allocator; \<open>same\<close> says that the source and the destination are the same object,
  and \<open>type2\<close> is the type of the destination.
\<close>

definition m_alloc_blit :: "sys \<Rightarrow> bool \<Rightarrow> string \<Rightarrow> (u64 \<Rightarrow> u64 \<Rightarrow> (int \<times> u8 list) option) \<Rightarrow> m_alloc \<Rightarrow>
    u64 \<Rightarrow> u64 \<Rightarrow> u64 \<Rightarrow> (int \<times> m_alloc) option" where
  "m_alloc_blit sys same type2 rd ma2 count off1 off2 = do {
     c_assert (\<not> same);
     c_assert (type2 = ''malloc'');
     (case m_alloc_extend sys ma2 (off2 + count) of
        (r, ma2) \<Rightarrow> if r = - 1 then Some (- 1, ma2)
          else do {
            (r, bs) \<leftarrow> rd count off1;
            Some (r, ma2\<lparr>ba := memcpy (ba ma2) (unat off2) bs\<rparr>)
          })
   }"

definition m_alloc_extents :: "m_alloc \<Rightarrow> u64 \<Rightarrow> u64 \<Rightarrow> nbdkit_extents \<Rightarrow> (int \<times> nbdkit_extents) option" where
  "m_alloc_extents ma count off x =
     (case nbdkit_add_extent x off count 0 of
        (Inl _, x) \<Rightarrow> Some (- 1, x)
      | (Inr _, x) \<Rightarrow> Some (0, x))"

definition m_alloc_create :: "bool \<Rightarrow> m_alloc" where
  "m_alloc_create use_mlock = \<lparr>ma_use_mlock = use_mlock, ba = []\<rparr>"

definition malloc_functions :: "sys \<Rightarrow> m_alloc allocator_functions" where
  "malloc_functions sys =
     \<lparr>af_preferred = 512, af_set_size_hint = m_alloc_set_size_hint sys, af_read = m_alloc_read,
      af_write = m_alloc_write sys, af_fill = m_alloc_fill sys, af_zero = m_alloc_zero,
      af_extents = m_alloc_extents\<rparr>"

subsection \<open>The malloc allocator is an allocator\<close>

definition m_content :: "m_alloc \<Rightarrow> disk" where
  "m_content ma i = (if i < length (ba ma) then ba ma ! i else 0)"

text \<open>The array covers the disk, as after \<^const>\<open>m_alloc_set_size_hint\<close> with its size.\<close>

definition m_inv :: "u64 \<Rightarrow> m_alloc \<Rightarrow> bool" where
  "m_inv dsize ma \<longleftrightarrow> unat dsize < 2 ^ 63 \<and> unat dsize \<le> length (ba ma) \<and> length (ba ma) < 2 ^ 64"

lemma unat_ba_cap: "length (ba ma) < 2 ^ 64 \<Longrightarrow> unat (ba_cap ma) = length (ba ma)"
  by (simp add: ba_cap_def unat_of_nat)

lemma length_memset [simp]: "off + n \<le> length bs \<Longrightarrow> length (memset bs off ch n) = length bs"
  by (simp add: memset_def)

lemma length_memcpy [simp]: "off + length src \<le> length bs \<Longrightarrow> length (memcpy bs off src) = length bs"
  by (simp add: memcpy_def)

lemma nth_memcpy:
  "off + length src \<le> length bs \<Longrightarrow> i < length bs \<Longrightarrow>
     memcpy bs off src ! i = (if off \<le> i \<and> i < off + length src then src ! (i - off) else bs ! i)"
  by (auto simp: memcpy_def nth_append min_def)

lemma memset_memcpy: "memset bs off ch n = memcpy bs off (replicate n ch)"
  by (simp add: memset_def memcpy_def)

lemma m_content_memcpy:
  "off + length src \<le> length (ba ma) \<Longrightarrow>
     m_content (ma\<lparr>ba := memcpy (ba ma) off src\<rparr>) = disk_write (m_content ma) off src"
  by (auto simp: m_content_def disk_write_def nth_memcpy fun_eq_iff)

lemma m_alloc_extend_noop:
  "m_inv dsize ma \<Longrightarrow> unat off + unat count \<le> unat dsize \<Longrightarrow> m_alloc_extend sys ma (off + count) = (0, ma)"
  using unat_ba_cap [of ma]
  by (auto simp: m_inv_def m_alloc_extend_def extend_with_mlock_def extend_without_mlock_def
      word_less_nat_alt unat_word_ariths)

lemma m_inv_memcpy:
  "m_inv dsize ma \<Longrightarrow> off + length src \<le> length (ba ma) \<Longrightarrow> m_inv dsize (ma\<lparr>ba := memcpy (ba ma) off src\<rparr>)"
  by (simp add: m_inv_def)

lemma m_alloc_read_ok:
  assumes "m_inv dsize ma" and "unat off + unat count \<le> unat dsize"
  shows "m_alloc_read ma count off = Some (0, disk_read (m_content ma) (unat off) (unat count))"
proof -
  have cap: "unat (ba_cap ma) = length (ba ma)" "unat dsize \<le> length (ba ma)" "unat dsize < 2 ^ 63"
    using assms(1) unat_ba_cap [of ma] by (auto simp: m_inv_def)
  have le: "\<not> off + count > ba_cap ma"
    using cap assms(2) by (simp add: word_less_nat_alt unat_word_ariths)
  have rd: "take (unat count) (drop (unat off) (ba ma)) = disk_read (m_content ma) (unat off) (unat count)"
    using cap assms(2) by (intro nth_equalityI) (auto simp: disk_read_def m_content_def)
  have "count = 0" if "off \<ge> ba_cap ma"
    using that cap assms(2) by (simp add: word_le_nat_alt word_unat_eq_iff)
  then show ?thesis using le rd by (auto simp: m_alloc_read_def disk_read_def)
qed

lemma m_alloc_zero_ok:
  assumes "m_inv dsize ma" and "unat off + unat count \<le> unat dsize"
  shows "\<exists>ma'. m_alloc_zero ma count off = Some (0, ma') \<and> m_inv dsize ma'
    \<and> m_content ma' = disk_write (m_content ma) (unat off) (zeroes (unat count))"
proof -
  have cap: "unat (ba_cap ma) = length (ba ma)" "unat dsize \<le> length (ba ma)" "unat dsize < 2 ^ 63"
    using assms(1) unat_ba_cap [of ma] by (auto simp: m_inv_def)
  have le: "\<not> off + count > ba_cap ma"
    using cap assms(2) by (simp add: word_less_nat_alt unat_word_ariths)
  have "count = 0" if "\<not> off < ba_cap ma"
    using that cap assms(2) by (simp add: word_less_nat_alt word_unat_eq_iff)
  then show ?thesis
    using le assms cap m_content_memcpy [of "unat off" "zeroes (unat count)" ma]
      m_inv_memcpy [OF assms(1), of "unat off" "zeroes (unat count)"]
    by (auto simp: m_alloc_zero_def memset_memcpy)
qed

lemma m_alloc_extents_ok:
  assumes "unat dsize < 2 ^ 63" and "0 < unat count" and "unat off + unat count \<le> unat dsize" and "wf_extents x"
    and "extents x = []" and "x_start x = off" and "x_next x = - 1" and "unat off + unat count \<le> unat (x_end x)"
  shows "\<exists>x'. m_alloc_extents ma count off x = Some (0, x') \<and> wf_extents x' \<and> x_start x' = x_start x
    \<and> x_end x' = x_end x \<and> (unat count < 2 ^ 32 \<longrightarrow> short_extents x')
    \<and> (\<forall>i ty. status x' i = Some ty \<and> has ty 2 \<longrightarrow> m_content ma i = 0)"
proof -
  obtain r x' where add: "nbdkit_add_extent x off count 0 = (r, x')" by force
  have fr: "r = Inr ()" "x_start x' = x_start x" "x_end x' = x_end x"
    using nbdkit_add_extent_frame [OF add] assms(5-7) by (simp_all add: in_sequence_def)
  have st: "step_ok x off count 0 (Inr (), x')"
    using nbdkit_add_extent_ok [OF assms(4), of off count 0] add fr(1) assms(1,3) by simp
  then have "status x' = add_spec x (unat off) (unat count) 0" using assms(5) by (simp add: step_ok_def)
  then have "\<not> has ty 2" if "status x' i = Some ty" for i ty
    using that assms(5) by (auto simp: add_spec_def status_def split: if_splits)
  with st fr add nbdkit_add_extent_short [OF add assms(5,6) _ assms(8)] show ?thesis
    by (auto simp: m_alloc_extents_def step_ok_def)
qed

interpretation malloc_alloc: allocator "malloc_functions sys" "m_inv dsize" m_content dsize True for sys dsize
proof (unfold_locales, goal_cases)
  case (1 a) then show ?case by (simp add: m_inv_def)
next
  case (2 a off count) then show ?case by (simp add: malloc_functions_def m_alloc_read_ok)
next
  case (3 a off count buf)
  have "unat off + length buf \<le> length (ba a)" using 3 by (simp add: m_inv_def)
  with 3 show ?case
    by (simp add: malloc_functions_def m_alloc_write_def m_alloc_extend_noop m_content_memcpy m_inv_memcpy)
next
  case (4 a off count ch)
  have "unat off + length (replicate (unat count) ch) \<le> length (ba a)" using 4 by (simp add: m_inv_def)
  with 4 m_content_memcpy [OF this] m_inv_memcpy [OF 4(1) this] show ?case
    by (simp add: malloc_functions_def m_alloc_fill_def m_alloc_extend_noop memset_memcpy)
next
  case (5 a off count) then show ?case using m_alloc_zero_ok by (simp add: malloc_functions_def)
next
  case (6 a count off x)
  with m_alloc_extents_ok [of dsize count off x a] show ?case
    by (simp add: malloc_functions_def m_inv_def)
qed

subsection \<open>Growing after the first reservation\<close>

text \<open>
  The disk of the size hinted for is all zeroes, and the array covers it.
\<close>

lemma calculate_capacity_empty:
  "calculate_capacity 0 n 1 exactly = Some (n, n)"
  by (simp add: calculate_capacity_def check_add_overflow_def check_mul_overflow_def Let_def word_gt_0)

lemma m_alloc_set_size_hint_ok:
  assumes "unat dsize < 2 ^ 63" and "alloc_ok sys dsize"
  shows "\<exists>ma. m_alloc_set_size_hint sys (m_alloc_create False) dsize = (0, ma) \<and> m_inv dsize ma
    \<and> m_content ma = (\<lambda>_. 0)"
proof (cases "dsize = 0")
  case True
  then show ?thesis
    by (auto simp: m_alloc_set_size_hint_def m_alloc_extend_def extend_without_mlock_def m_alloc_create_def
        ba_cap_def m_inv_def m_content_def)
next
  case False
  have "regrow sys [] (unat dsize) = map (junk sys) [0..<unat dsize]" by (simp add: regrow_def)
  then have "m_alloc_set_size_hint sys (m_alloc_create False) dsize
      = (0, \<lparr>ma_use_mlock = False, ba = zeroes (unat dsize)\<rparr>)"
    using False assms(2)
    by (simp add: m_alloc_set_size_hint_def m_alloc_extend_def extend_without_mlock_def m_alloc_create_def
        ba_cap_def bytearray_reserve_def calculate_capacity_empty memset_def word_gt_0)
  with assms(1) show ?thesis by (auto simp: m_inv_def m_content_def fun_eq_iff)
qed

text \<open>
  When the array grows later, its capacity may grow by more than was asked for, and the bytes beyond
  are not initialised: a disk of ten bytes extended by one then holds, from offset 11 on, what
  was in memory.
\<close>

lemma m_alloc_write_exposes_memory:
  assumes "length (ba ma) = 10" and "\<not> ma_use_mlock ma" and "alloc_ok sys 15"
  shows "\<exists>ma'. m_alloc_write sys ma [x] 1 10 = Some (0, ma') \<and> m_content ma 12 = 0
    \<and> m_alloc_read ma' 1 12 = Some (0, [junk sys 12])"
proof -
  have cap: "calculate_capacity 10 1 1 False = Some (15, 15)"
    by (simp add: calculate_capacity_def check_add_overflow_def check_mul_overflow_def Let_def)
  have ba: "ba_cap ma = 10" using assms(1) by (simp add: ba_cap_def)
  have idx: "[10..<15] = [10, 11, 12, 13, 14 :: nat]" by (simp add: upt_rec)
  define ma' where "ma' = ma\<lparr>ba := ba ma @ [x, junk sys 11, junk sys 12, junk sys 13, junk sys 14]\<rparr>"
  have "m_alloc_write sys ma [x] 1 10 = Some (0, ma')"
    using assms by (simp add: m_alloc_write_def m_alloc_extend_def extend_without_mlock_def ba
        bytearray_reserve_def cap regrow_def memset_def memcpy_def idx ma'_def)
  moreover have "m_alloc_read ma' 1 12 = Some (0, [junk sys 12])"
    using assms(1) by (simp add: m_alloc_read_def ba_cap_def ma'_def)
  ultimately show ?thesis using assms(1) by (simp add: m_content_def)
qed

end
