(* ===== verification/Memory.thy ===== *)
theory Memory
  imports Protocol Allocators
begin

text \<open>
  The memory plugin, \<^verbatim>\<open>src/plugins/memory/memory.c\<close>: a RAM disk of a given size over an allocator.
  The plugin's private state is the allocator; the size and the allocator's functions are fixed by
  the configuration.
\<close>

subsection \<open>Callbacks\<close>

text \<open>\<open>created\<close> is the allocator that \<^verbatim>\<open>create_allocator\<close> returns, or \<^term>\<open>None\<close> for a null pointer.\<close>

definition memory_get_ready :: "'a allocator_functions \<Rightarrow> u64 \<Rightarrow> 'a option \<Rightarrow> int \<times> 'a option" where
  "memory_get_ready F dsize created =
     (case created of
        None \<Rightarrow> (- 1, None)
      | Some a \<Rightarrow> (case af_set_size_hint F a dsize of (r, a) \<Rightarrow> (if r = - 1 then - 1 else 0, Some a)))"

definition memory_open :: "'a world \<Rightarrow> bool \<Rightarrow> (bool \<times> 'a world) option" where
  "memory_open w readonly = Some (True, w)"

definition memory_get_size :: "u64 \<Rightarrow> 'a world \<Rightarrow> (u64 \<times> 'a world) option" where
  "memory_get_size dsize w = Some (dsize, w)"

definition memory_block_size :: "'a allocator_functions \<Rightarrow> 'a world \<Rightarrow>
    (int \<times> (u32 \<times> u32 \<times> u32) \<times> 'a world) option" where
  "memory_block_size F w = Some (0, (1, af_preferred F, 0xffffffff), w)"

definition memory_can_fua :: "'a p_query" where
  "memory_can_fua w = Some (NBDKIT_FUA_NATIVE, w)"

definition memory_can_multi_conn :: "'a p_query" where
  "memory_can_multi_conn w = Some (1, w)"

definition memory_can_cache :: "'a p_query" where
  "memory_can_cache w = Some (NBDKIT_CACHE_NATIVE, w)"

definition memory_can_fast_zero :: "'a p_query" where
  "memory_can_fast_zero w = Some (1, w)"

definition memory_pread :: "'a allocator_functions \<Rightarrow> 'a world \<Rightarrow> u32 \<Rightarrow> u64 \<Rightarrow> u32 \<Rightarrow>
    (int \<times> u8 list \<times> 'a world) option" where
  "memory_pread F w count off flags = do {
     c_assert (flags = 0);
     (r, buf) \<leftarrow> af_read F (priv w) (ucast count) off;
     Some (r, buf, w)
   }"

definition memory_pwrite :: "'a allocator_functions \<Rightarrow> 'a world \<Rightarrow> u8 list \<Rightarrow> u32 \<Rightarrow> u64 \<Rightarrow> u32 \<Rightarrow>
    (int \<times> 'a world) option" where
  "memory_pwrite F w buf count off flags = do {
     c_assert (flags AND NOT NBDKIT_FLAG_FUA = 0);
     (r, a) \<leftarrow> af_write F (priv w) buf (ucast count) off;
     Some (r, w\<lparr>priv := a\<rparr>)
   }"

definition memory_zero :: "'a allocator_functions \<Rightarrow> 'a world \<Rightarrow> u32 \<Rightarrow> u64 \<Rightarrow> u32 \<Rightarrow> (int \<times> 'a world) option" where
  "memory_zero F w count off flags = do {
     c_assert (flags AND NOT (NBDKIT_FLAG_FUA OR NBDKIT_FLAG_MAY_TRIM OR NBDKIT_FLAG_FAST_ZERO) = 0);
     (r, a) \<leftarrow> af_zero F (priv w) (ucast count) off;
     Some (r, w\<lparr>priv := a\<rparr>)
   }"

definition memory_trim :: "'a allocator_functions \<Rightarrow> 'a world \<Rightarrow> u32 \<Rightarrow> u64 \<Rightarrow> u32 \<Rightarrow> (int \<times> 'a world) option" where
  "memory_trim F w count off flags = do {
     c_assert (flags AND NOT NBDKIT_FLAG_FUA = 0);
     (r, a) \<leftarrow> af_zero F (priv w) (ucast count) off;
     Some (0, w\<lparr>priv := a\<rparr>)
   }"

definition memory_flush :: "'a world \<Rightarrow> u32 \<Rightarrow> (int \<times> 'a world) option" where
  "memory_flush w flags = Some (0, w)"

definition memory_extents :: "'a allocator_functions \<Rightarrow> 'a world \<Rightarrow> u32 \<Rightarrow> u64 \<Rightarrow> u32 \<Rightarrow> nbdkit_extents \<Rightarrow>
    (int \<times> nbdkit_extents \<times> 'a world) option" where
  "memory_extents F w count off flags x = do {
     (r, x) \<leftarrow> af_extents F (priv w) (ucast count) off x;
     Some (r, x, w)
   }"

definition memory_plugin :: "'a allocator_functions \<Rightarrow> u64 \<Rightarrow> 'a nbdkit_plugin" where
  "memory_plugin F dsize =
     \<lparr>p_api_version = 2, p_errno_is_preserved = 1, p_thread_model0 = 3, p_thread_model = None,
      p_preconnect = None, p_list_exports = None,
      p_default_export = None, p_open = memory_open, p_close = None, p_export_description = None,
      p_get_size = memory_get_size dsize, p_block_size = Some (memory_block_size F),
      p_can_write = None, p_can_flush = None, p_is_rotational = None, p_can_trim = None,
      p_can_zero = None, p_can_fast_zero = Some memory_can_fast_zero, p_can_extents = None,
      p_can_fua = Some memory_can_fua, p_can_multi_conn = Some memory_can_multi_conn,
      p_can_cache = Some memory_can_cache, p_pread = Some (memory_pread F),
      p_pwrite = Some (memory_pwrite F), p_flush = Some memory_flush, p_trim = Some (memory_trim F),
      p_zero = Some (memory_zero F), p_extents = Some (memory_extents F), p_cache = None,
      p_pread_v1 = None, p_pwrite_v1 = None, p_flush_v1 = None, p_trim_v1 = None, p_zero_v1 = None\<rparr>"

subsection \<open>Over an allocator, the plugin serves a disk\<close>

lemma memory_plugin_sel [simp]:
  "p_pread (memory_plugin F z) = Some (memory_pread F)" "p_pwrite (memory_plugin F z) = Some (memory_pwrite F)"
  "p_flush (memory_plugin F z) = Some memory_flush" "p_trim (memory_plugin F z) = Some (memory_trim F)"
  "p_zero (memory_plugin F z) = Some (memory_zero F)" "p_extents (memory_plugin F z) = Some (memory_extents F)"
  "p_cache (memory_plugin F z) = None" "p_pread_v1 (memory_plugin F z) = None"
  "p_pwrite_v1 (memory_plugin F z) = None" "p_flush_v1 (memory_plugin F z) = None"
  "p_trim_v1 (memory_plugin F z) = None" "p_zero_v1 (memory_plugin F z) = None"
  by (simp_all add: memory_plugin_def)

lemma world_ok_priv: "world_ok ainv w \<Longrightarrow> ainv a \<Longrightarrow> world_ok ainv (w\<lparr>priv := a\<rparr>)"
  by (simp add: world_ok_def)

context allocator
begin

lemma unat_count: "unat (ucast count :: u64) = unat (count :: u32)"
  by (simp add: unat_ucast_up)

lemma memory_pread_ok:
  assumes "world_ok ainv w" and "unat off + unat count \<le> unat dsize"
  shows "memory_pread F w count off 0
    = Some (0, disk_read (acontent (priv w)) (unat off) (unat count), w)"
  using a_read [of "priv w" off "ucast count"] assms by (simp add: memory_pread_def unat_count world_ok_def)

lemma memory_pwrite_ok:
  assumes "world_ok ainv w" and "unat off + unat count \<le> unat dsize" and "length buf = unat count"
    and "flags AND NOT NBDKIT_FLAG_FUA = 0"
  shows "cb_result ainv acontent w (unat off) (unat count)
    (\<lambda>d. d = disk_write (acontent (priv w)) (unat off) buf) E (memory_pwrite F w buf count off flags)"
  using a_write [of "priv w" off "ucast count" buf] assms
  by (auto simp: memory_pwrite_def unat_count cb_result_def world_ok_def same_outside_write)

lemma memory_zero_ok:
  assumes "world_ok ainv w" and "unat off + unat count \<le> unat dsize"
    and "flags AND NOT (NBDKIT_FLAG_MAY_TRIM OR NBDKIT_FLAG_FUA OR NBDKIT_FLAG_FAST_ZERO) = 0"
  shows "cb_result ainv acontent w (unat off) (unat count)
    (\<lambda>d. d = disk_write (acontent (priv w)) (unat off) (zeroes (unat count))) E (memory_zero F w count off flags)"
  using a_zero [of "priv w" off "ucast count"] assms
  by (auto simp: memory_zero_def unat_count cb_result_def world_ok_def same_outside_write)

lemma memory_trim_ok:
  assumes "world_ok ainv w" and "unat off + unat count \<le> unat dsize" and "flags AND NOT NBDKIT_FLAG_FUA = 0"
  shows "cb_result ainv acontent w (unat off) (unat count) (\<lambda>_. True) E (memory_trim F w count off flags)"
  using a_zero [of "priv w" off "ucast count"] assms
  by (auto simp: memory_trim_def unat_count cb_result_def world_ok_def same_outside_write)

lemma memory_extents_ok:
  assumes "world_ok ainv w" and "0 < unat count" and "unat off + unat count \<le> unat dsize" and "wf_extents x"
    and "extents x = []" and "x_start x = off" and "x_next x = - 1"
    and "unat off + unat count \<le> unat (x_end x)" and "unat (x_end x) \<le> unat dsize"
  shows "\<exists>r x' w'. memory_extents F w count off flags x = Some (r, x', w') \<and> world_ok ainv w'
    \<and> acontent (priv w') = acontent (priv w)
    \<and> (r = - 1 \<or> r \<ge> 0 \<and> wf_extents x' \<and> x_start x' = off \<and> x_end x' = x_end x \<and> (short \<longrightarrow> short_extents x')
       \<and> (\<forall>i ty. status x' i = Some ty \<and> has ty NBDKIT_EXTENT_ZERO \<longrightarrow> acontent (priv w) i = 0))"
proof -
  obtain x' where "af_extents F (priv w) (ucast count) off x = Some (0, x')" "wf_extents x'"
      "x_start x' = off" "x_end x' = x_end x" "short \<longrightarrow> short_extents x'"
      "\<forall>i ty. status x' i = Some ty \<and> has ty 2 \<longrightarrow> acontent (priv w) i = 0"
    using a_exts [of "priv w" "ucast count" off x] assms unat_u32_less [of count] by (auto simp: unat_count world_ok_def)
  with assms(1) show ?thesis by (simp add: memory_extents_def)
qed

end

sublocale allocator \<subseteq> mem: disk_plugin "memory_plugin F dsize" ainv acontent "unat dsize" short
proof (unfold_locales, goal_cases)
  case 2 then show ?case using memory_pread_ok by simp
next
  case 4 then show ?case using memory_pwrite_ok by simp
next
  case 6 then show ?case by (auto simp: memory_flush_def cb_result_def)
next
  case 8 then show ?case using memory_trim_ok by simp
next
  case 10 then show ?case using memory_zero_ok by simp
next
  case 12 then show ?case using memory_extents_ok by simp
qed simp_all

end
