(* ===== verification/Server.thy ===== *)
theory Server
  imports Negotiation Memory
begin

text \<open>
  A server with one plugin and no filters, and the life of a connection in it,
  \<^verbatim>\<open>handle_single_connection\<close> of \<^verbatim>\<open>src/server/connections.c\<close>, with requests processed serially.
\<close>

subsection \<open>A plugin without filters\<close>

text \<open>The settings \<open>srv\<close> with the plugin \<open>p\<close> as the top backend.\<close>

definition plugin_server :: "'s nbdkit_plugin \<Rightarrow> 's server \<Rightarrow> 's server" where
  "plugin_server p srv = srv\<lparr>top := plugin_backend p, close_next := None, prepare_next := None,
     finalize_next := None, close_rest := None, forget_exportnames := (\<lambda>w. w), preconnect := plugin_preconnect p\<rparr>"

definition closed_ok :: "('s \<Rightarrow> bool) \<Rightarrow> 's world \<Rightarrow> bool" where
  "closed_ok pinv w \<longleftrightarrow> world_ok pinv w \<and> conn_exportname w = None"

text \<open>A callback of a plugin that succeeds in returning, keeping the plugin's invariant.\<close>

definition runs :: "('s \<Rightarrow> bool) \<Rightarrow> ('a \<Rightarrow> bool) \<Rightarrow> ('s world \<Rightarrow> ('a \<times> 's world) option) \<Rightarrow> bool" where
  "runs pinv P f \<longleftrightarrow> (\<forall>w. world_ok pinv w \<longrightarrow>
     (\<exists>x w'. f w = Some (x, w') \<and> world_ok pinv w' \<and> conn_exportname w' = conn_exportname w \<and> P x))"

definition runs_opt :: "('s \<Rightarrow> bool) \<Rightarrow> ('a \<Rightarrow> bool) \<Rightarrow> ('s world \<Rightarrow> ('a \<times> 's world) option) option \<Rightarrow> bool" where
  "runs_opt pinv P q \<longleftrightarrow> (case q of None \<Rightarrow> True | Some f \<Rightarrow> runs pinv P f)"

text \<open>The contract of a plugin's callbacks outside the data path.\<close>

locale export_plugin =
  fixes p :: "'s nbdkit_plugin"
    and pinv :: "'s \<Rightarrow> bool"
    and sz :: nat
    and zv fz :: "int set"
    and srv :: "'s server"
  assumes sz_lt: "pinv a \<Longrightarrow> sz < 2 ^ 63"
    and zv: "zv \<subseteq> {- 1, 0, 1, 2}" and fz: "fz \<subseteq> {- 1, 0, 1}"
    and p_open: "runs pinv (\<lambda>_. True) (\<lambda>w. p_open p w ro)"
    and p_close: "case p_close p of None \<Rightarrow> True
      | Some f \<Rightarrow> \<forall>w. world_ok pinv w \<longrightarrow> (\<exists>w'. f w = Some w' \<and> world_ok pinv w')"
    and p_preconnect: "case p_preconnect p of None \<Rightarrow> True | Some f \<Rightarrow> \<forall>ro. runs pinv (\<lambda>_. True) (f ro)"
    and p_list: "case p_list_exports p of None \<Rightarrow> True
      | Some f \<Rightarrow> \<forall>w ro is_tls exps. closed_ok pinv w \<longrightarrow> (\<exists>r exps' w'. f ro is_tls exps w = Some (r, exps', w') \<and> closed_ok pinv w')"
    and p_default: "case p_default_export p of None \<Rightarrow> True | Some f \<Rightarrow> \<forall>ro is_tls. runs pinv (\<lambda>_. True) (f ro is_tls)"
    and p_description: "runs_opt pinv (\<lambda>_. True) (p_export_description p)"
    and p_get_size: "runs pinv (\<lambda>z. z > INT64_MAX \<or> unat z = sz) (p_get_size p)"
    and p_block_size: "case p_block_size p of None \<Rightarrow> True
      | Some f \<Rightarrow> \<forall>w. world_ok pinv w \<longrightarrow> (\<exists>r x y z w'. f w = Some (r, (x, y, z), w') \<and> world_ok pinv w')"
    and p_queries: "runs_opt pinv (\<lambda>_. True) (p_can_write p)" "runs_opt pinv (\<lambda>_. True) (p_can_flush p)"
      "runs_opt pinv (\<lambda>_. True) (p_is_rotational p)" "runs_opt pinv (\<lambda>_. True) (p_can_trim p)"
      "runs_opt pinv (\<lambda>_. True) (p_can_multi_conn p)" "runs_opt pinv (\<lambda>_. True) (p_can_extents p)"
      "runs_opt pinv (\<lambda>r. r \<in> {- 1, 0, 1, 2}) (p_can_fua p)" "runs_opt pinv (\<lambda>r. r \<in> {- 1, 0, 1, 2}) (p_can_cache p)"
    and p_zero: "query_ok (world_ok pinv) zv (plugin_can_zero p)"
    and p_fast_zero: "connected c \<Longrightarrow> c_can_zero c \<in> {1, 2} \<Longrightarrow> world_ok pinv (inner c) \<Longrightarrow>
      \<exists>r w. plugin_can_fast_zero p c = Some (r, c\<lparr>inner := w\<rparr>) \<and> world_ok pinv w \<and> r \<in> fz"

lemma plugin_backend_life [simp]:
  "b_open (plugin_backend p) = plugin_open p" "b_prepare (plugin_backend p) = plugin_prepare"
  "b_finalize (plugin_backend p) = plugin_finalize" "b_close (plugin_backend p) = plugin_close p"
  "b_list_exports (plugin_backend p) = plugin_list_exports p"
  "b_default_export (plugin_backend p) = plugin_default_export p"
  "b_export_description (plugin_backend p) = plugin_export_description p"
  "b_get_size (plugin_backend p) = plugin_get_size p" "b_block_size (plugin_backend p) = plugin_block_size p"
  "b_can_write (plugin_backend p) = plugin_can_write p" "b_can_flush (plugin_backend p) = plugin_can_flush p"
  "b_is_rotational (plugin_backend p) = plugin_is_rotational p" "b_can_trim (plugin_backend p) = plugin_can_trim p"
  "b_can_zero (plugin_backend p) = plugin_can_zero p" "b_can_extents (plugin_backend p) = plugin_can_extents p"
  "b_can_fua (plugin_backend p) = plugin_can_fua p" "b_can_multi_conn (plugin_backend p) = plugin_can_multi_conn p"
  "b_can_cache (plugin_backend p) = plugin_can_cache p" "b_can_fast_zero (plugin_backend p) = plugin_can_fast_zero p"
  by (simp_all add: plugin_backend_def plugin_caps_def backend_caps.defs backend.defs)

lemma runsE:
  assumes "runs pinv P f" and "world_ok pinv w"
  obtains x w' where "f w = Some (x, w')" "world_ok pinv w'" "conn_exportname w' = conn_exportname w" "P x"
  using assms unfolding runs_def by blast

lemma bool_query_ok:
  assumes "runs_opt pinv (\<lambda>_. True) q" and "dflt \<in> {0, 1}"
  shows "query_ok (world_ok pinv) {- 1, 0, 1} (plugin_bool_query q dflt)"
  unfolding query_ok_def
proof (intro allI impI)
  fix c :: "'a ctx" assume c: "connected c \<and> world_ok pinv (inner c)"
  show "\<exists>r w. plugin_bool_query q dflt c = Some (r, c\<lparr>inner := w\<rparr>) \<and> world_ok pinv w \<and> r \<in> {- 1, 0, 1}"
  proof (cases q)
    case None
    with assms c show ?thesis by (auto simp: plugin_bool_query_def intro!: exI [of _ "inner c"])
  next
    case (Some f)
    with assms c obtain r w where "f (inner c) = Some (r, w)" "world_ok pinv w"
      by (auto simp: runs_opt_def elim!: runsE)
    with Some show ?thesis
      by (auto simp: plugin_bool_query_def on_inner_def normalize_bool_def)
  qed
qed

context export_plugin
begin

lemma plugin_open_ok:
  assumes "closed_ok pinv w"
  shows "\<exists>h w'. plugin_open p (new_context ro w) ro name is_tls = Some (h, (new_context ro w)\<lparr>inner := w'\<rparr>)
    \<and> (if h then world_ok pinv w' else closed_ok pinv w')"
proof -
  have w: "world_ok pinv (w\<lparr>conn_exportname := Some name\<rparr>)"
    using assms by (simp add: closed_ok_def world_ok_def)
  obtain h w' where "p_open p (w\<lparr>conn_exportname := Some name\<rparr>) ro = Some (h, w')" "world_ok pinv w'"
    using runsE [OF p_open w] by blast
  with assms show ?thesis
    by (auto simp: plugin_open_def new_context_def closed_ok_def world_ok_def)
qed

lemma plugin_default_ok:
  "closed_ok pinv w \<Longrightarrow> \<exists>s w'. plugin_default_export p ro is_tls w = Some (s, w') \<and> closed_ok pinv w'"
  using p_default by (fastforce simp: plugin_default_export_def closed_ok_def elim: runsE split: option.splits)

lemma backend_open_plugin:
  assumes "closed_ok pinv w"
  shows "case backend_open (plugin_backend p) None ro name is_tls True cached w of None \<Rightarrow> False
      | Some (cached', Inl w') \<Rightarrow> closed_ok pinv w'
      | Some (cached', Inr c) \<Rightarrow> \<exists>w'. world_ok pinv w' \<and> c = (new_context ro w')\<lparr>handle := True, c_state := HANDLE_OPEN\<rparr>"
proof -
  have "\<exists>n cached' w'. (if name = [] then backend_default_export (plugin_backend p) ro is_tls True cached w
      else Some (Some name, cached, w)) = Some (n, cached', w') \<and> closed_ok pinv w'"
    using plugin_default_ok [OF assms, of ro is_tls] assms
    by (auto simp: backend_default_export_def Let_def split: option.splits)
  then obtain n cached' w' where n: "(if name = [] then backend_default_export (plugin_backend p) ro is_tls True cached w
      else Some (Some name, cached, w)) = Some (n, cached', w')" "closed_ok pinv w'" by blast
  show ?thesis
  proof (cases n)
    case None
    with n show ?thesis by (simp add: backend_open_def)
  next
    case (Some s)
    obtain h w2 where "plugin_open p (new_context ro w') ro s is_tls = Some (h, (new_context ro w')\<lparr>inner := w2\<rparr>)"
        "if h then world_ok pinv w2 else closed_ok pinv w2"
      using plugin_open_ok [OF n(2)] by blast
    with n(1) Some show ?thesis
      by (cases h) (auto simp: backend_open_def new_context_def intro!: exI [of _ w2])
  qed
qed

lemma plugin_close_ok:
  "closable (world_ok pinv) c \<Longrightarrow> \<exists>w. plugin_close p c = Some w \<and> closed_ok pinv w"
  using p_close by (auto simp: plugin_close_def closable_def closed_ok_def world_ok_def split: option.splits)

lemma plugin_description_ok:
  assumes "world_ok pinv (inner c)"
  shows "\<exists>s w. plugin_export_description p c = Some (s, c\<lparr>inner := w\<rparr>) \<and> world_ok pinv w"
proof (cases "p_export_description p")
  case None
  with assms show ?thesis by (auto simp: plugin_export_description_def intro!: exI [of _ "inner c"])
next
  case (Some f)
  with p_description assms obtain s w where "f (inner c) = Some (s, w)" "world_ok pinv w"
    by (auto simp: runs_opt_def elim!: runsE [of _ _ _ "inner c"])
  with Some show ?thesis by (auto simp: plugin_export_description_def on_inner_def)
qed

lemma plugin_block_size_ok:
  assumes "world_ok pinv (inner c)"
  shows "\<exists>r sizes w. plugin_block_size p c = Some (r, sizes, c\<lparr>inner := w\<rparr>) \<and> world_ok pinv w"
proof (cases "p_block_size p")
  case None
  with assms show ?thesis by (auto simp: plugin_block_size_def intro!: exI [of _ "inner c"])
next
  case (Some f)
  with p_block_size assms obtain r x y z w where "f (inner c) = Some (r, (x, y, z), w)" "world_ok pinv w" by fastforce
  with Some show ?thesis by (auto simp: plugin_block_size_def Let_def)
qed

lemma plugin_can_fua_ok: "query_ok (world_ok pinv) {- 1, 0, 1, 2} (plugin_can_fua p)"
  unfolding query_ok_def
proof (intro allI impI)
  fix c assume c: "connected c \<and> world_ok pinv (inner c)"
  show "\<exists>r w. plugin_can_fua p c = Some (r, c\<lparr>inner := w\<rparr>) \<and> world_ok pinv w \<and> r \<in> {- 1, 0, 1, 2}"
  proof (cases "p_can_fua p")
    case None
    with c show ?thesis by (auto simp: plugin_can_fua_def intro!: exI [of _ "inner c"])
  next
    case (Some f)
    with p_queries(7) c obtain r w where "f (inner c) = Some (r, w)" "world_ok pinv w" "r \<in> {- 1, 0, 1, 2}"
      by (auto simp: runs_opt_def elim!: runsE [of _ _ _ "inner c"])
    with Some show ?thesis by (auto simp: plugin_can_fua_def on_inner_def)
  qed
qed

lemma plugin_can_cache_ok: "query_ok (world_ok pinv) {- 1, 0, 1, 2} (plugin_can_cache p)"
  unfolding query_ok_def
proof (intro allI impI)
  fix c assume c: "connected c \<and> world_ok pinv (inner c)"
  show "\<exists>r w. plugin_can_cache p c = Some (r, c\<lparr>inner := w\<rparr>) \<and> world_ok pinv w \<and> r \<in> {- 1, 0, 1, 2}"
  proof (cases "p_can_cache p")
    case None
    with c show ?thesis by (auto simp: plugin_can_cache_def intro!: exI [of _ "inner c"])
  next
    case (Some f)
    with p_queries(8) c obtain r w where "f (inner c) = Some (r, w)" "world_ok pinv w" "r \<in> {- 1, 0, 1, 2}"
      by (auto simp: runs_opt_def elim!: runsE [of _ _ _ "inner c"])
    with Some show ?thesis by (auto simp: plugin_can_cache_def on_inner_def)
  qed
qed

end

sublocale export_plugin \<subseteq> es: export_server "plugin_server p srv" "world_ok pinv" "closed_ok pinv" sz zv fz
proof (unfold_locales, goal_cases)
  case (1 w) then show ?case using sz_lt [of "priv w"] by (simp add: world_ok_def)
next
  case 2 show ?case by (rule zv)
next
  case 3 show ?case by (rule fz)
next
  case (4 w ro name is_tls cached)
  then show ?case using backend_open_plugin [of w ro name is_tls cached] by (simp add: plugin_server_def)
next
  case (5 c)
  then show ?case
    by (auto simp: plugin_server_def backend_prepare_def closable_def plugin_prepare_def has_def
      intro!: exI [of _ 0] exI [of _ "inner c"])
next
  case (6 c)
  then show ?case by (auto simp: plugin_server_def backend_finalize_def closable_def plugin_finalize_def c_assert_def has_def)
next
  case (7 c)
  then show ?case using plugin_close_ok [of c] by (auto simp: plugin_server_def backend_close_def closable_def)
next
  case (8 w)
  then show ?case by (simp add: plugin_server_def)
next
  case (9 w ro is_tls exps)
  then show ?case using p_list
    by (auto simp: plugin_server_def plugin_list_exports_def nbdkit_use_default_export_def split: option.splits)
next
  case (10 w ro is_tls)
  then show ?case using plugin_default_ok by (simp add: plugin_server_def)
next
  case (11 c)
  then show ?case using plugin_description_ok by (simp add: plugin_server_def)
next
  case (12 c)
  then show ?case using p_get_size by (auto simp: plugin_server_def plugin_get_size_def on_inner_def elim!: runsE [of _ _ _ "inner c"])
next
  case (13 c)
  then show ?case using plugin_block_size_ok by (simp add: plugin_server_def)
next
  case 14
  then show ?case by (simp add: plugin_server_def plugin_can_write_def bool_query_ok p_queries of_flag_def)
next
  case 15
  then show ?case by (simp add: plugin_server_def plugin_can_flush_def bool_query_ok p_queries of_flag_def)
next
  case 16
  then show ?case by (simp add: plugin_server_def plugin_is_rotational_def bool_query_ok p_queries of_flag_def)
next
  case 17
  then show ?case by (simp add: plugin_server_def plugin_can_trim_def bool_query_ok p_queries of_flag_def)
next
  case 18
  then show ?case using p_zero by (simp add: plugin_server_def)
next
  case (19 c)
  then show ?case using p_fast_zero by (simp add: plugin_server_def)
next
  case 20
  then show ?case using plugin_can_fua_ok by (simp add: plugin_server_def)
next
  case 21
  then show ?case by (simp add: plugin_server_def plugin_can_multi_conn_def bool_query_ok p_queries of_flag_def)
next
  case 22
  then show ?case using plugin_can_cache_ok by (simp add: plugin_server_def)
next
  case 23
  then show ?case by (simp add: plugin_server_def plugin_can_extents_def bool_query_ok p_queries of_flag_def)
qed

subsection \<open>The memory plugin\<close>

lemma memory_plugin_rest [simp]:
  "p_preconnect (memory_plugin F z) = None"
  "p_open (memory_plugin F z) = memory_open" "p_close (memory_plugin F z) = None"
  "p_list_exports (memory_plugin F z) = None" "p_default_export (memory_plugin F z) = None"
  "p_export_description (memory_plugin F z) = None" "p_get_size (memory_plugin F z) = memory_get_size z"
  "p_block_size (memory_plugin F z) = Some (memory_block_size F)"
  "p_can_write (memory_plugin F z) = None" "p_can_flush (memory_plugin F z) = None"
  "p_is_rotational (memory_plugin F z) = None" "p_can_trim (memory_plugin F z) = None"
  "p_can_zero (memory_plugin F z) = None" "p_can_extents (memory_plugin F z) = None"
  "p_can_fast_zero (memory_plugin F z) = Some memory_can_fast_zero"
  "p_can_fua (memory_plugin F z) = Some memory_can_fua"
  "p_can_multi_conn (memory_plugin F z) = Some memory_can_multi_conn"
  "p_can_cache (memory_plugin F z) = Some memory_can_cache"
  by (simp_all add: memory_plugin_def)

sublocale allocator \<subseteq> mex: export_plugin "memory_plugin F dsize" ainv "unat dsize" "{2}" "{1}" srv for srv
proof (unfold_locales, goal_cases)
  case (1 a) then show ?case by (rule a_size)
next
  case (21 c)
  then show ?case by (auto simp: plugin_can_fast_zero_def memory_can_fast_zero_def on_inner_def normalize_bool_def intro!: exI [of _ "inner c"])
next
  case 20
  show ?case by (auto simp: query_ok_def plugin_can_zero_def intro!: exI [of _ "inner c" for c])
qed (auto simp: runs_def runs_opt_def memory_open_def memory_get_size_def memory_block_size_def memory_can_fua_def
    memory_can_multi_conn_def memory_can_cache_def)

subsection \<open>The life of a connection\<close>

definition free_connection :: "'s server \<Rightarrow> bool \<Rightarrow> 's world \<Rightarrow> 's connection \<Rightarrow> 's world option" where
  "free_connection srv quit w conn =
     (case top_context conn of
        None \<Rightarrow> Some w
      | Some c \<Rightarrow> if quit then Some (inner c) else backend_close (top srv) (close_rest srv) c)"

text \<open>
  With \<^verbatim>\<open>nworkers == 0\<close>; the connection timeout never fires.  The result is the world afterwards and what
  was sent to the client.
\<close>

definition handle_single_connection :: "'s server \<Rightarrow> bool \<Rightarrow> Connections.read_result list \<Rightarrow> write_result list \<Rightarrow> 's world \<Rightarrow>
    ('s world \<times> u8 list) option" where
  "handle_single_connection srv quit input ws w = do {
     let conn = new_connection 0 input ws;
     let free = (\<lambda>w conn. do { w \<leftarrow> free_connection srv quit w conn; Some (w, sockout conn) });
     (r, w) \<leftarrow> preconnect srv (read_only srv) w;
     (if r = - 1 then free w conn
      else do {
        (r, w, conn) \<leftarrow> protocol_handshake srv w conn;
        (if r = - 1 then free w conn
         else do {
           conn \<leftarrow> process_requests (top srv) quit (conn\<lparr>handshake_complete := True\<rparr>);
           (case top_context conn of None \<Rightarrow> None
            | Some c \<Rightarrow> do {
                (r, c) \<leftarrow> backend_finalize (top srv) (finalize_next srv) c;
                free w (conn\<lparr>top_context := Some c\<rparr>) }) }) })
   }"

text \<open>
  A server whose top backend serves a disk and offers fast zeroing whenever it offers zeroing.
\<close>

locale disk_server =
  es: export_server srv winv cinv sz zv fz +
  db: disk_backend "top srv" winv dsk sz native_zero short
  for srv :: "'s server" and winv cinv :: "'s world \<Rightarrow> bool" and sz :: nat and zv fz :: "int set"
    and dsk :: "'s world \<Rightarrow> disk" and native_zero short :: bool +
  assumes fast: "fz \<subseteq> {- 1, 1}" and native: "2 \<in> zv \<Longrightarrow> native_zero"
    and new: "newstyle srv"
    and preconnect_ok: "cinv w \<Longrightarrow> \<exists>r w'. preconnect srv ro w = Some (r, w') \<and> cinv w'"
begin

lemma serving_session:
  assumes "es.serving (eflags conn) conn" and small: "sz < 2 ^ 32 \<or> short"
  shows "session_ok winv sz native_zero short conn"
proof -
  obtain c where c: "top_context conn = Some c" "negotiated sz c" "winv (inner c)" "caps_known zv fz c"
      "flags_exact (thread_model srv) (structured_replies conn) (eflags conn) c"
    using assms(1) by (auto simp: es.serving_def split: option.splits)
  have "c_can_write c \<in> {0, 1}" using c(4) by (simp add: caps_known_def)
  with c(5) have "advertised conn c" by (auto simp: advertised_def flags_exact_def)
  moreover have "c_can_fast_zero c = 1 \<or> c_can_zero c = 0"
    using c(4) fast by (auto simp: caps_known_def split: if_splits)
  moreover have "c_can_zero c = NBDKIT_ZERO_NATIVE \<longrightarrow> native_zero"
    using c(4) native by (auto simp: caps_known_def)
  ultimately show ?thesis using c small by (simp add: session_ok_def)
qed

lemma session_closable:
  "session_ok winv sz native_zero short conn \<Longrightarrow> \<exists>c. top_context conn = Some c \<and> closable winv c"
  by (auto simp: session_ok_def closable_def negotiated_def connected_def split: option.splits)

lemma free_connection_ok:
  assumes "es.stopped w conn"
  shows "\<exists>w'. free_connection srv False w conn = Some w' \<and> cinv w'"
  using assms es.close_ok by (auto simp: free_connection_def es.stopped_def split: option.splits)

text \<open>On a disk of 4 GiB or more with extents that long, the request code can hit an assertion.\<close>

lemma handle_single_connection_ok:
  assumes "cinv w" and small: "sz < 2 ^ 32 \<or> short"
  shows "\<exists>w' out. handle_single_connection srv False input ws w = Some (w', out) \<and> cinv w'"
proof -
  obtain r w1 where p: "preconnect srv (read_only srv) w = Some (r, w1)" "cinv w1"
    using preconnect_ok [OF assms(1)] by blast
  have id: "es.idle w1 (new_connection 0 input ws)" using p(2) by (simp add: es.idle_def new_connection_def)
  from es.protocol_handshake_newstyle_ok [OF id]
  obtain r2 w2 conn2 where h: "protocol_handshake srv w1 (new_connection 0 input ws) = Some (r2, w2, conn2)"
      "es.stopped w2 conn2" "r2 = - 1 \<or> r2 = 0 \<and> es.serving (eflags conn2) conn2"
    using new by (auto simp: es.handshake_ok_def protocol_handshake_def split: option.splits)
  have early: ?thesis if "r = - 1 \<or> r2 = - 1"
    using that p h(1) free_connection_ok [OF es.idle_stopped [OF id]] free_connection_ok [OF h(2)]
    by (auto simp: handle_single_connection_def Let_def)
  show ?thesis
  proof (cases "r = - 1 \<or> r2 = - 1")
    case False
    with h(3) have "session_ok winv sz native_zero short (conn2\<lparr>handshake_complete := True\<rparr>)"
      using serving_session [OF _ small, of conn2] by (auto simp: session_ok_def advertised_def split: option.splits)
    then obtain conn3 where q: "process_requests (top srv) False (conn2\<lparr>handshake_complete := True\<rparr>) = Some conn3"
        "session_ok winv sz native_zero short conn3"
      using db.process_requests_ok by blast
    obtain c where c: "top_context conn3 = Some c" "closable winv c" using session_closable [OF q(2)] by blast
    obtain r4 c' where f: "backend_finalize (top srv) (finalize_next srv) c = Some (r4, c')" "closable winv c'"
      using es.finalize_ok [OF c(2)] by blast
    have "es.stopped w2 (conn3\<lparr>top_context := Some c'\<rparr>)" using f(2) by (simp add: es.stopped_def)
    from free_connection_ok [OF this] False p(1) h(1) q(1) c(1) f(1) show ?thesis
      by (auto simp: handle_single_connection_def Let_def)
  qed (rule early)
qed

end

text \<open>The memory plugin over any allocator, in a newstyle server with the settings \<open>srv\<close>.\<close>

definition memory_server :: "'a allocator_functions \<Rightarrow> u64 \<Rightarrow> 'a server \<Rightarrow> 'a server" where
  "memory_server F dsize srv = plugin_server (memory_plugin F dsize) (srv\<lparr>newstyle := True\<rparr>)"

sublocale allocator \<subseteq> ds: disk_server "memory_server F dsize srv" "world_ok ainv" "closed_ok ainv" "unat dsize"
  "{2}" "{1}" "\<lambda>w. acontent (priv w)" True short for srv
proof (intro disk_server.intro disk_server_axioms.intro, goal_cases)
  case 1
  show ?case unfolding memory_server_def by (rule mex.es.export_server_axioms)
next
  case 2
  show ?case using mem.pb.disk_backend_axioms by (simp add: memory_server_def plugin_server_def)
qed (auto simp: memory_server_def plugin_server_def plugin_preconnect_def)

end
