(* ===== verification/Vector.thy ===== *)
theory Vector
  imports Prelude
begin

text \<open>
  The generic vector of \<^verbatim>\<open>src/common/utils/vector.h\<close> on lists: insertion with its assertion, and the binary
  search that its \<^verbatim>\<open>search\<close> function leaves to C's \<^verbatim>\<open>bsearch\<close>.  Memory allocation succeeds.
\<close>

definition vector_insert :: "'a list \<Rightarrow> 'a \<Rightarrow> nat \<Rightarrow> 'a list option" where
  "vector_insert v elem i = do {
     c_assert (i \<le> length v);
     Some (take i v @ elem # drop i v)
   }"

definition vector_append :: "'a list \<Rightarrow> 'a \<Rightarrow> 'a list option" where
  "vector_append v elem = vector_insert v elem (length v)"

text \<open>
  The search between the indices \<open>l\<close> and \<open>u\<close>; \<open>compare\<close> is negative when the key lies before the element and
  positive when it lies behind it.
\<close>

function bsearch_from :: "('a \<Rightarrow> int) \<Rightarrow> 'a list \<Rightarrow> nat \<Rightarrow> nat \<Rightarrow> nat option" where
  "bsearch_from compare v l u =
     (if l < u then
        let idx = (l + u) div 2; c = compare (v ! idx) in
        if c < 0 then bsearch_from compare v l idx
        else if c > 0 then bsearch_from compare v (idx + 1) u
        else Some idx
      else None)"
  by pat_completeness auto
termination
  by (relation "measure (\<lambda>(compare, v, l, u). u - l)") auto

declare bsearch_from.simps [simp del]

definition vector_search :: "('a \<Rightarrow> int) \<Rightarrow> 'a list \<Rightarrow> nat option" where
  "vector_search compare v = bsearch_from compare v 0 (length v)"

subsection \<open>Searching an ordered vector\<close>

text \<open>The key lies behind a prefix of the elements, then is equal to some, then lies before the rest.\<close>

definition ordered_by :: "('a \<Rightarrow> int) \<Rightarrow> 'a list \<Rightarrow> bool" where
  "ordered_by compare v \<longleftrightarrow> (\<forall>i j. i < j \<longrightarrow> j < length v \<longrightarrow>
     (compare (v ! i) < 0 \<longrightarrow> compare (v ! j) < 0) \<and> (compare (v ! j) > 0 \<longrightarrow> compare (v ! i) > 0))"

lemma bsearch_from_Some:
  "bsearch_from compare v l u = Some i \<Longrightarrow> l \<le> i \<and> i < u \<and> compare (v ! i) = 0"
proof (induction compare v l u rule: bsearch_from.induct)
  case (1 compare v l u)
  let ?idx = "(l + u) div 2"
  have lu: "l < u" using "1.prems" by (subst (asm) bsearch_from.simps) (simp split: if_splits)
  have eq: "(if compare (v ! ?idx) < 0 then bsearch_from compare v l ?idx
      else if compare (v ! ?idx) > 0 then bsearch_from compare v (?idx + 1) u else Some ?idx) = Some i"
    using "1.prems" lu by (subst (asm) bsearch_from.simps) (simp add: Let_def)
  consider "compare (v ! ?idx) < 0" | "compare (v ! ?idx) > 0" | "compare (v ! ?idx) = 0" by linarith
  then show ?case
  proof cases
    case c: 1
    with eq have "bsearch_from compare v l ?idx = Some i" by simp
    from "1.IH"(1) [OF lu refl refl c this] show ?thesis using lu by linarith
  next
    case c: 2
    with eq have e: "bsearch_from compare v (?idx + 1) u = Some i" by simp
    have "\<not> compare (v ! ?idx) < 0" using c by simp
    from "1.IH"(2) [OF lu refl refl this c e] show ?thesis using lu by linarith
  next
    case 3
    with eq lu show ?thesis by auto
  qed
qed

lemma bsearch_from_None:
  assumes "ordered_by compare v" and "u \<le> length v"
  shows "bsearch_from compare v l u = None \<Longrightarrow> l \<le> i \<Longrightarrow> i < u \<Longrightarrow> compare (v ! i) \<noteq> 0"
  using assms
proof (induction compare v l u rule: bsearch_from.induct)
  case (1 compare v l u)
  let ?idx = "(l + u) div 2"
  have lu: "l < u" and idx: "?idx < length v" using 1 by auto
  have ord: "i < j \<Longrightarrow> j < length v \<Longrightarrow> (compare (v ! i) < 0 \<longrightarrow> compare (v ! j) < 0)
      \<and> (compare (v ! j) > 0 \<longrightarrow> compare (v ! i) > 0)" for i j
    using "1.prems"(4) by (simp add: ordered_by_def)
  consider "compare (v ! ?idx) < 0" | "compare (v ! ?idx) > 0" | "compare (v ! ?idx) = 0" by linarith
  then show ?case
  proof cases
    case c: 1
    then have n: "bsearch_from compare v l ?idx = None"
      using "1.prems"(1) lu by (subst (asm) bsearch_from.simps) (simp add: Let_def)
    show ?thesis
    proof (cases "i < ?idx")
      case True
      then show ?thesis using "1.IH"(1) [OF lu refl refl c n "1.prems"(2)] "1.prems"(4) idx by simp
    next
      case False
      then show ?thesis using c ord [of ?idx i] "1.prems"(3,5) by (cases "i = ?idx") auto
    qed
  next
    case c: 2
    then have n: "bsearch_from compare v (?idx + 1) u = None"
      using "1.prems"(1) lu by (subst (asm) bsearch_from.simps) (simp add: Let_def)
    show ?thesis
    proof (cases "?idx < i")
      case True
      then show ?thesis using "1.IH"(2) [OF lu refl refl _ c n] c "1.prems"(3-5) by simp
    next
      case False
      then show ?thesis using c ord [of i ?idx] idx by (cases "i = ?idx") auto
    qed
  next
    case 3
    then show ?thesis using "1.prems"(1) lu by (subst (asm) bsearch_from.simps) (simp add: Let_def)
  qed
qed

lemma vector_search_Some:
  "vector_search compare v = Some i \<Longrightarrow> i < length v \<and> compare (v ! i) = 0"
  by (auto simp: vector_search_def dest: bsearch_from_Some)

lemma vector_search_None:
  "ordered_by compare v \<Longrightarrow> vector_search compare v = None \<Longrightarrow> i < length v \<Longrightarrow> compare (v ! i) \<noteq> 0"
  using bsearch_from_None [of compare v "length v" 0 i] by (simp add: vector_search_def)

end
