(* ===== verification/Sparse.thy ===== *)
theory Sparse
  imports Server Vector
begin

text \<open>
  The sparse array of \<^verbatim>\<open>src/common/allocators/sparse.c\<close>: a two-level directory of pages.  The L1 directory is
  an ordered vector of entries, each with the L2 directory of one aligned region of \<open>2 ^ 27\<close> bytes; a page that
  was never written, or only with zeroes, is absent.  Memory allocation succeeds.

  Where the code holds a pointer into a page the model has the place of the page, the index of its L1 entry and
  its index in the L2 directory.  Each operation runs alone; the attempt with the shared lock and the
  restart with the exclusive one are the two phases of the model's operations.
\<close>

abbreviation (input) SPARSE_PAGE :: u64 where "SPARSE_PAGE \<equiv> 32768"
abbreviation (input) L2_SIZE :: u64 where "L2_SIZE \<equiv> 4096"
abbreviation (input) L1_SPAN :: u64 where "L1_SPAN \<equiv> 0x8000000"  \<comment> \<open>\<^verbatim>\<open>SPARSE_PAGE*L2_SIZE\<close>\<close>
abbreviation (input) RESTART_EXCLUSIVE :: int where "RESTART_EXCLUSIVE \<equiv> - 2"

type_synonym page = "u8 list"

record l1_entry =
  l1_offset :: u64
  l2_dir :: "page option list"

record sparse_array =
  l1_dir :: "l1_entry list"

definition sparse_array_create :: sparse_array where
  "sparse_array_create = \<lparr>l1_dir = []\<rparr>"

definition sparse_array_set_size_hint :: "sparse_array \<Rightarrow> u64 \<Rightarrow> int \<times> sparse_array" where
  "sparse_array_set_size_hint sa sz = (0, sa)"

definition compare_l1_offsets :: "u64 \<Rightarrow> l1_entry \<Rightarrow> int" where
  "compare_l1_offsets off e =
     (if off < l1_offset e then - 1 else if off \<ge> l1_offset e + L1_SPAN then 1 else 0)"

text \<open>The scan of \<^verbatim>\<open>insert_l1_entry\<close> from index \<open>i\<close> on.\<close>

function insert_l1_from :: "l1_entry list \<Rightarrow> l1_entry \<Rightarrow> nat \<Rightarrow> l1_entry list option" where
  "insert_l1_from dir entry i =
     (if i < length dir then
        if l1_offset entry < l1_offset (dir ! i) then vector_insert dir entry i
        else do {
          c_assert (l1_offset entry \<noteq> l1_offset (dir ! i));
          insert_l1_from dir entry (i + 1)
        }
      else vector_append dir entry)"
  by pat_completeness auto
termination
  by (relation "measure (\<lambda>(dir, entry, i). length dir - i)") auto

declare insert_l1_from.simps [simp del]

definition insert_l1_entry :: "sparse_array \<Rightarrow> l1_entry \<Rightarrow> sparse_array option" where
  "insert_l1_entry sa entry = do { dir \<leftarrow> insert_l1_from (l1_dir sa) entry 0; Some (sa\<lparr>l1_dir := dir\<rparr>) }"

text \<open>The position of an offset in its page, and the bytes left to the end of the page.\<close>

definition page_off :: "u64 \<Rightarrow> nat" where
  "page_off off = unat (off AND (SPARSE_PAGE - 1))"

definition remaining :: "u64 \<Rightarrow> u64" where
  "remaining off = SPARSE_PAGE - (off AND (SPARSE_PAGE - 1))"

definition the_page :: "sparse_array \<Rightarrow> nat \<times> nat \<Rightarrow> page option" where
  "the_page sa p = l2_dir (l1_dir sa ! fst p) ! snd p"

definition set_page :: "sparse_array \<Rightarrow> nat \<times> nat \<Rightarrow> page option \<Rightarrow> sparse_array" where
  "set_page sa p page =
     (let e = l1_dir sa ! fst p in
      sa\<lparr>l1_dir := (l1_dir sa)[fst p := e\<lparr>l2_dir := (l2_dir e)[snd p := page]\<rparr>]\<rparr>)"

text \<open>The branch of \<^verbatim>\<open>lookup\<close> where the L1 entry at index \<open>i\<close> was found.\<close>

definition lookup_l2 :: "sparse_array \<Rightarrow> u64 \<Rightarrow> bool \<Rightarrow> nat \<Rightarrow> (nat \<times> nat) option \<times> sparse_array" where
  "lookup_l2 sa off create i =
     (let o2 = unat ((off - l1_offset (l1_dir sa ! i)) div SPARSE_PAGE) in
      case the_page sa (i, o2) of
        Some page \<Rightarrow> (Some (i, o2), sa)
      | None \<Rightarrow> if create then (Some (i, o2), set_page sa (i, o2) (Some (zeroes (unat SPARSE_PAGE))))
                else (None, sa))"

text \<open>
  After the insertion the code searches again.  If it did not find the new entry it would insert it a second
  time, which the assertion of \<^const>\<open>insert_l1_entry\<close> stops.
\<close>

definition lookup :: "sparse_array \<Rightarrow> u64 \<Rightarrow> bool \<Rightarrow> ((nat \<times> nat) option \<times> sparse_array) option" where
  "lookup sa off create =
     (case vector_search (compare_l1_offsets off) (l1_dir sa) of
        Some i \<Rightarrow> Some (lookup_l2 sa off create i)
      | None \<Rightarrow>
          if \<not> create then Some (None, sa)
          else do {
            sa \<leftarrow> insert_l1_entry sa \<lparr>l1_offset = off AND NOT (L1_SPAN - 1), l2_dir = replicate (unat L2_SIZE) None\<rparr>;
            (case vector_search (compare_l1_offsets off) (l1_dir sa) of
               Some i \<Rightarrow> Some (lookup_l2 sa off create i)
             | None \<Rightarrow> None)
          })"

lemma remaining_pos: "0 < unat (remaining off)" "unat (remaining off) \<le> 32768"
proof -
  have "off AND 32767 \<le> 32767" by (rule word_and_le1)
  then have "unat (off AND 32767) \<le> 32767" by (simp add: word_le_nat_alt)
  then show "0 < unat (remaining off)" "unat (remaining off) \<le> 32768"
    by (simp_all add: remaining_def unat_sub word_le_nat_alt)
qed

lemma piece_less: "count \<noteq> 0 \<Longrightarrow> unat (count - min (remaining off) count) < unat count"
  using remaining_pos(1) [of off] by (auto simp: unat_sub min_def word_le_nat_alt unat_gt_0)

function sparse_array_read :: "sparse_array \<Rightarrow> u64 \<Rightarrow> u64 \<Rightarrow> (int \<times> u8 list) option" where
  "sparse_array_read sa count off =
     (if count = 0 then Some (0, [])
      else do {
        (p, _) \<leftarrow> lookup sa off False;
        let n = min (remaining off) count;
        let bs = (case p of None \<Rightarrow> zeroes (unat n)
                  | Some p \<Rightarrow> take (unat n) (drop (page_off off) (the (the_page sa p))));
        (r, rest) \<leftarrow> sparse_array_read sa (count - n) (off + n);
        Some (r, bs @ rest)
      })"
  by pat_completeness auto
termination
  by (relation "measure (\<lambda>(sa, count, off). unat count)") (auto simp: piece_less)

text \<open>Copy bytes into a page, and the loop of \<^verbatim>\<open>do_write\<close>.\<close>

definition page_write :: "sparse_array \<Rightarrow> nat \<times> nat \<Rightarrow> nat \<Rightarrow> u8 list \<Rightarrow> sparse_array" where
  "page_write sa p i bs = set_page sa p (Some (memcpy (the (the_page sa p)) i bs))"

function do_write :: "bool \<Rightarrow> sparse_array \<Rightarrow> u8 list \<Rightarrow> u64 \<Rightarrow> u64 \<Rightarrow> (int \<times> sparse_array) option" where
  "do_write exclusive sa buf count off =
     (if count = 0 then Some (0, sa)
      else do {
        (p, sa) \<leftarrow> lookup sa off exclusive;
        (case p of
           None \<Rightarrow> Some (if exclusive then - 1 else RESTART_EXCLUSIVE, sa)
         | Some p \<Rightarrow>
             let n = min (remaining off) count in
             do_write exclusive (page_write sa p (page_off off) (take (unat n) buf)) (drop (unat n) buf) (count - n) (off + n))
      })"
  by pat_completeness auto
termination
  by (relation "measure (\<lambda>(exclusive, sa, buf, count, off). unat count)") (auto simp: piece_less)

definition sparse_array_write :: "sparse_array \<Rightarrow> u8 list \<Rightarrow> u64 \<Rightarrow> u64 \<Rightarrow> (int \<times> sparse_array) option" where
  "sparse_array_write sa buf count off = do {
     (r, sa) \<leftarrow> do_write False sa buf count off;
     (if r = RESTART_EXCLUSIVE then do_write True sa buf count off else Some (r, sa))
   }"

function do_zero :: "bool \<Rightarrow> sparse_array \<Rightarrow> u64 \<Rightarrow> u64 \<Rightarrow> (int \<times> sparse_array) option" where
  "do_zero exclusive sa count off =
     (if count = 0 then Some (0, sa)
      else do {
        (p, sa) \<leftarrow> lookup sa off False;
        let n = min (remaining off) count;
        (case p of
           None \<Rightarrow> do_zero exclusive sa (count - n) (off + n)
         | Some p \<Rightarrow> do {
             c_assert (n < SPARSE_PAGE \<or> page_off off = 0);
             let sa = (if n < SPARSE_PAGE then page_write sa p (page_off off) (zeroes (unat n)) else sa);
             (if n \<ge> SPARSE_PAGE \<or> is_zero (the (the_page sa p)) then
                if \<not> exclusive then Some (RESTART_EXCLUSIVE, sa)
                else do_zero exclusive (set_page sa p None) (count - n) (off + n)
              else do_zero exclusive sa (count - n) (off + n))
           })
      })"
  by pat_completeness auto
termination
  by (relation "measure (\<lambda>(exclusive, sa, count, off). unat count)") (auto simp: piece_less)

definition sparse_array_zero :: "sparse_array \<Rightarrow> u64 \<Rightarrow> u64 \<Rightarrow> (int \<times> sparse_array) option" where
  "sparse_array_zero sa count off = do {
     (r, sa) \<leftarrow> do_zero False sa count off;
     (if r = RESTART_EXCLUSIVE then do_zero True sa count off else Some (r, sa))
   }"

function fill_loop :: "sparse_array \<Rightarrow> u8 \<Rightarrow> u64 \<Rightarrow> u64 \<Rightarrow> (int \<times> sparse_array) option" where
  "fill_loop sa ch count off =
     (if count = 0 then Some (0, sa)
      else do {
        (p, sa) \<leftarrow> lookup sa off True;
        (case p of
           None \<Rightarrow> Some (- 1, sa)
         | Some p \<Rightarrow>
             let n = min (remaining off) count in
             fill_loop (page_write sa p (page_off off) (replicate (unat n) ch)) ch (count - n) (off + n))
      })"
  by pat_completeness auto
termination
  by (relation "measure (\<lambda>(sa, ch, count, off). unat count)") (auto simp: piece_less)

definition sparse_array_fill :: "sparse_array \<Rightarrow> u8 \<Rightarrow> u64 \<Rightarrow> u64 \<Rightarrow> (int \<times> sparse_array) option" where
  "sparse_array_fill sa ch count off =
     (if ch = 0 then sparse_array_zero sa count off else fill_loop sa ch count off)"

text \<open>The copying loop, from another allocator, whose read function on its own state is \<open>rd\<close>.\<close>

function sparse_array_blit :: "(u64 \<Rightarrow> u64 \<Rightarrow> (int \<times> u8 list) option) \<Rightarrow> sparse_array \<Rightarrow> u64 \<Rightarrow> u64 \<Rightarrow> u64 \<Rightarrow>
    (int \<times> sparse_array) option" where
  "sparse_array_blit rd sa2 count offset1 offset2 =
     (if count = 0 then Some (0, sa2)
      else do {
        (p, sa2) \<leftarrow> lookup sa2 offset2 True;
        (case p of
           None \<Rightarrow> Some (- 1, sa2)
         | Some p \<Rightarrow> do {
             let n = min (remaining offset2) count;
             (r, bs) \<leftarrow> rd n offset1;
             let sa2 = page_write sa2 p (page_off offset2) bs;
             (if r = - 1 then Some (- 1, sa2)
              else sparse_array_blit rd (if is_zero (the (the_page sa2 p)) then set_page sa2 p None else sa2)
                (count - n) (offset1 + n) (offset2 + n))
           })
      })"
  by pat_completeness auto
termination
  by (relation "measure (\<lambda>(rd, sa2, count, offset1, offset2). unat count)") (auto simp: piece_less)

definition extent_type :: "sparse_array \<Rightarrow> (nat \<times> nat) option \<Rightarrow> u64 \<Rightarrow> u32" where
  "extent_type sa p off =
     (case p of None \<Rightarrow> NBDKIT_EXTENT_HOLE OR NBDKIT_EXTENT_ZERO
      | Some p \<Rightarrow> if is_zero (take (unat (remaining off)) (drop (page_off off) (the (the_page sa p))))
                  then NBDKIT_EXTENT_ZERO else 0)"

function sparse_array_extents :: "sparse_array \<Rightarrow> u64 \<Rightarrow> u64 \<Rightarrow> nbdkit_extents \<Rightarrow> (int \<times> nbdkit_extents) option" where
  "sparse_array_extents sa count off exts =
     (if count = 0 then Some (0, exts)
      else do {
        (p, _) \<leftarrow> lookup sa off False;
        (case nbdkit_add_extent exts off (remaining off) (extent_type sa p off) of
           (Inl e, exts) \<Rightarrow> Some (- 1, exts)
         | (Inr _, exts) \<Rightarrow>
             let n = min (remaining off) count in sparse_array_extents sa (count - n) (off + n) exts)
      })"
  by pat_completeness auto
termination
  by (relation "measure (\<lambda>(sa, count, off, exts). unat count)") (auto simp: piece_less)

declare sparse_array_read.simps [simp del] do_write.simps [simp del] do_zero.simps [simp del]
  fill_loop.simps [simp del] sparse_array_blit.simps [simp del] sparse_array_extents.simps [simp del]

definition sparse_functions :: "sparse_array allocator_functions" where
  "sparse_functions =
     \<lparr>af_preferred = ucast SPARSE_PAGE, af_set_size_hint = sparse_array_set_size_hint, af_read = sparse_array_read,
      af_write = sparse_array_write, af_fill = sparse_array_fill, af_zero = sparse_array_zero,
      af_extents = sparse_array_extents\<rparr>"

subsection \<open>The directory as a map from page numbers to pages\<close>

definition l1_key :: "l1_entry \<Rightarrow> nat" where
  "l1_key e = unat (l1_offset e) div 2 ^ 27"

definition l1_map :: "sparse_array \<Rightarrow> nat \<rightharpoonup> page option list" where
  "l1_map sa = map_of (map (\<lambda>e. (l1_key e, l2_dir e)) (l1_dir sa))"

definition page_at :: "sparse_array \<Rightarrow> nat \<Rightarrow> page option" where
  "page_at sa pn = (case l1_map sa (pn div 4096) of None \<Rightarrow> None | Some d \<Rightarrow> d ! (pn mod 4096))"

definition s_content :: "sparse_array \<Rightarrow> disk" where
  "s_content sa i = (case page_at sa (i div 32768) of None \<Rightarrow> 0 | Some page \<Rightarrow> page ! (i mod 32768))"

definition l1_ok :: "l1_entry \<Rightarrow> bool" where
  "l1_ok e \<longleftrightarrow> 2 ^ 27 dvd unat (l1_offset e) \<and> unat (l1_offset e) < 2 ^ 63 \<and> length (l2_dir e) = 4096
     \<and> (\<forall>page. Some page \<in> set (l2_dir e) \<longrightarrow> length page = 32768)"

text \<open>The last page of the disk ends below \<open>2 ^ 63\<close>, so that the extents reported do.\<close>

definition s_inv :: "u64 \<Rightarrow> sparse_array \<Rightarrow> bool" where
  "s_inv dsize sa \<longleftrightarrow> unat dsize + 32768 \<le> 2 ^ 63 \<and> sorted_wrt (\<lambda>a b. l1_key a < l1_key b) (l1_dir sa)
     \<and> (\<forall>e \<in> set (l1_dir sa). l1_ok e)"

text \<open>A place holds the page with a given number.\<close>

definition holds :: "sparse_array \<Rightarrow> nat \<times> nat \<Rightarrow> nat \<Rightarrow> bool" where
  "holds sa p pn \<longleftrightarrow> fst p < length (l1_dir sa) \<and> l1_key (l1_dir sa ! fst p) = pn div 4096 \<and> snd p = pn mod 4096"

lemma unat_l1_offset: "l1_ok e \<Longrightarrow> unat (l1_offset e) = l1_key e * 2 ^ 27"
  by (simp add: l1_ok_def l1_key_def)

lemma compare_l1_key:
  assumes "l1_ok e"
  shows "compare_l1_offsets off e =
    (if unat off div 2 ^ 27 < l1_key e then - 1 else if l1_key e < unat off div 2 ^ 27 then 1 else 0)"
proof -
  have o: "unat (l1_offset e) = l1_key e * 2 ^ 27" by (rule unat_l1_offset [OF assms])
  have "unat (l1_offset e + 0x8000000) = (l1_key e + 1) * 2 ^ 27"
    using assms o by (simp add: unat_word_ariths l1_ok_def)
  with o show ?thesis
    by (simp add: compare_l1_offsets_def word_less_nat_alt word_le_nat_alt) (auto simp: div_less_iff_less_mult)
qed

lemma l1_keys_distinct:
  "sorted_wrt (\<lambda>a b. l1_key a < l1_key b) es \<Longrightarrow> distinct (map l1_key es)"
  by (induction es) auto

lemma l1_map_Some:
  assumes "s_inv dsize sa"
  shows "l1_map sa k = Some d \<longleftrightarrow> (\<exists>i < length (l1_dir sa). l1_key (l1_dir sa ! i) = k \<and> l2_dir (l1_dir sa ! i) = d)"
proof -
  have "distinct (map fst (map (\<lambda>e. (l1_key e, l2_dir e)) (l1_dir sa)))"
    using l1_keys_distinct assms by (simp add: s_inv_def comp_def)
  then show ?thesis
    unfolding l1_map_def by (subst map_of_eq_Some_iff, assumption, subst in_set_conv_nth) auto
qed

lemma l1_map_None: "l1_map sa k = None \<longleftrightarrow> (\<forall>i < length (l1_dir sa). l1_key (l1_dir sa ! i) \<noteq> k)"
  by (force simp: l1_map_def map_of_eq_None_iff in_set_conv_nth image_iff)

lemma l1_search_Some:
  assumes "s_inv dsize sa" and "vector_search (compare_l1_offsets off) (l1_dir sa) = Some i"
  shows "i < length (l1_dir sa)" and "l1_key (l1_dir sa ! i) = unat off div 2 ^ 27"
proof -
  have "i < length (l1_dir sa)" "compare_l1_offsets off (l1_dir sa ! i) = 0"
    using vector_search_Some [OF assms(2)] by auto
  moreover from this(1) have "l1_ok (l1_dir sa ! i)" using assms(1) by (simp add: s_inv_def)
  ultimately show "i < length (l1_dir sa)" "l1_key (l1_dir sa ! i) = unat off div 2 ^ 27"
    by (simp_all add: compare_l1_key split: if_splits)
qed

lemma l1_search_None:
  assumes "s_inv dsize sa" and "vector_search (compare_l1_offsets off) (l1_dir sa) = None"
  shows "l1_map sa (unat off div 2 ^ 27) = None"
proof -
  have ok: "l1_ok (l1_dir sa ! i)" if "i < length (l1_dir sa)" for i
    using assms(1) that by (simp add: s_inv_def)
  have lt: "l1_key (l1_dir sa ! i) < l1_key (l1_dir sa ! j)" if "i < j" "j < length (l1_dir sa)" for i j
    using assms(1) that by (simp add: s_inv_def sorted_wrt_iff_nth_less)
  have "ordered_by (compare_l1_offsets off) (l1_dir sa)"
    unfolding ordered_by_def
  proof (intro allI impI)
    fix i j assume ij: "i < j" "j < length (l1_dir sa)"
    have "l1_ok (l1_dir sa ! i)" "l1_ok (l1_dir sa ! j)" using ok ij by simp_all
    with lt [OF ij] show "(compare_l1_offsets off (l1_dir sa ! i) < 0 \<longrightarrow> compare_l1_offsets off (l1_dir sa ! j) < 0)
        \<and> (0 < compare_l1_offsets off (l1_dir sa ! j) \<longrightarrow> 0 < compare_l1_offsets off (l1_dir sa ! i))"
      by (simp add: compare_l1_key)
  qed
  from vector_search_None [OF this assms(2)]
  have "l1_key (l1_dir sa ! i) \<noteq> unat off div 2 ^ 27" if "i < length (l1_dir sa)" for i
    using that compare_l1_key [OF ok [OF that], of off] by fastforce
  then show ?thesis by (simp add: l1_map_None)
qed

lemma holdsD:
  assumes "s_inv dsize sa" and "holds sa p pn"
  shows "the_page sa p = page_at sa pn" and "l1_ok (l1_dir sa ! fst p)"
    and "\<And>page. page_at sa pn = Some page \<Longrightarrow> length page = 32768"
proof -
  have "l1_map sa (pn div 4096) = Some (l2_dir (l1_dir sa ! fst p))"
    using assms by (auto simp: l1_map_Some holds_def)
  then show pg: "the_page sa p = page_at sa pn"
    using assms(2) by (simp add: page_at_def the_page_def holds_def)
  show ok: "l1_ok (l1_dir sa ! fst p)" using assms by (simp add: s_inv_def holds_def)
  show "length page = 32768" if "page_at sa pn = Some page" for page
  proof -
    have "Some page = l2_dir (l1_dir sa ! fst p) ! snd p" using that pg by (simp add: the_page_def)
    moreover have "snd p < length (l2_dir (l1_dir sa ! fst p))" using ok assms(2) by (simp add: l1_ok_def holds_def)
    ultimately have "Some page \<in> set (l2_dir (l1_dir sa ! fst p))" by (metis nth_mem)
    with ok show ?thesis by (simp add: l1_ok_def)
  qed
qed

lemma l1_map_set_page:
  assumes "s_inv dsize sa" and "holds sa p pn" and "s_inv dsize (set_page sa p page)"
  shows "l1_map (set_page sa p page) k =
    (if k = pn div 4096 then Some ((l2_dir (l1_dir sa ! fst p))[pn mod 4096 := page]) else l1_map sa k)"
proof (cases "k = pn div 4096")
  case True
  have "l1_map (set_page sa p page) k = Some ((l2_dir (l1_dir sa ! fst p))[pn mod 4096 := page])"
    using assms(2) True
    by (subst l1_map_Some [OF assms(3)]) (auto simp: set_page_def holds_def Let_def l1_key_def intro!: exI [of _ "fst p"])
  with True show ?thesis by simp
next
  case False
  have "l1_map (set_page sa p page) k = Some d \<longleftrightarrow> l1_map sa k = Some d" for d
    unfolding l1_map_Some [OF assms(1)] l1_map_Some [OF assms(3)]
    using assms(2) False by (auto simp: set_page_def holds_def Let_def nth_list_update l1_key_def)
  then show ?thesis using False by (metis option.exhaust)
qed

lemma s_inv_set_page:
  assumes "s_inv dsize sa" and "holds sa p pn" and "\<And>pg. page = Some pg \<Longrightarrow> length pg = 32768"
  shows "s_inv dsize (set_page sa p page)"
proof -
  let ?e = "l1_dir sa ! fst p"
  let ?e' = "?e\<lparr>l2_dir := (l2_dir ?e)[snd p := page]\<rparr>"
  have k: "l1_key ?e' = l1_key ?e" by (simp add: l1_key_def)
  have p: "fst p < length (l1_dir sa)" using assms(2) by (simp add: holds_def)
  have "l1_ok ?e'"
    using holdsD(2) [OF assms(1,2)] assms(3) set_update_subset_insert [of "l2_dir ?e" "snd p" page]
    by (fastforce simp: l1_ok_def)
  moreover have "sorted_wrt (\<lambda>a b. l1_key a < l1_key b) ((l1_dir sa)[fst p := ?e'])"
    using assms(1) k p by (auto simp: s_inv_def sorted_wrt_iff_nth_less nth_list_update)
  ultimately show ?thesis
    using assms(1) set_update_subset_insert [of "l1_dir sa" "fst p" ?e'] by (fastforce simp: s_inv_def set_page_def Let_def)
qed

lemma page_at_set_page:
  assumes "s_inv dsize sa" and "holds sa p pn" and "\<And>pg. page = Some pg \<Longrightarrow> length pg = 32768"
  shows "page_at (set_page sa p page) = (page_at sa)(pn := page)"
proof
  fix pn'
  have "length (l2_dir (l1_dir sa ! fst p)) = 4096"
    using holdsD(2) [OF assms(1,2)] by (simp add: l1_ok_def)
  moreover have "l1_map sa (pn div 4096) = Some (l2_dir (l1_dir sa ! fst p))"
    using assms by (auto simp: l1_map_Some holds_def)
  moreover have "pn' = pn \<longleftrightarrow> pn' div 4096 = pn div 4096 \<and> pn' mod 4096 = pn mod 4096"
    by (metis div_mod_decomp)
  ultimately show "page_at (set_page sa p page) pn' = ((page_at sa)(pn := page)) pn'"
    using l1_map_set_page [OF assms(1,2) s_inv_set_page [OF assms]]
    by (auto simp: page_at_def nth_list_update)
qed

lemma holds_set_page [simp]: "holds (set_page sa p page) q pn \<longleftrightarrow> holds sa q pn"
  by (cases "fst p = fst q") (auto simp: holds_def set_page_def Let_def l1_key_def nth_list_update)

text \<open>Writing inside a page is a write to the disk.\<close>

lemma s_content_set_page:
  assumes "s_inv dsize sa" and "holds sa p pn" and "length page = 32768"
    and "\<And>i. i < 32768 \<Longrightarrow> page ! i = disk_write (s_content sa) off bs (pn * 32768 + i)"
    and "pn * 32768 \<le> off" and "off + length bs \<le> (pn + 1) * 32768"
  shows "s_content (set_page sa p (Some page)) = disk_write (s_content sa) off bs"
proof
  fix i :: nat
  have pa: "page_at (set_page sa p (Some page)) = (page_at sa)(pn := Some page)"
    using assms(1-3) by (intro page_at_set_page) auto
  show "s_content (set_page sa p (Some page)) i = disk_write (s_content sa) off bs i"
  proof (cases "i div 32768 = pn")
    case True
    then have "pn * 32768 + i mod 32768 = i" using div_mult_mod_eq [of i 32768] by simp
    with True assms(4) [of "i mod 32768"] show ?thesis by (simp add: s_content_def pa)
  next
    case False
    then consider "i div 32768 < pn" | "pn + 1 \<le> i div 32768" by linarith
    then have "i < pn * 32768 \<or> (pn + 1) * 32768 \<le> i"
      by cases (simp_all only: div_less_iff_less_mult less_eq_div_iff_mult_less_eq zero_less_numeral simp_thms)
    then have "\<not> (off \<le> i \<and> i < off + length bs)" using assms(5,6) by linarith
    then show ?thesis using False by (auto simp: s_content_def pa disk_write_def)
  qed
qed

subsection \<open>Looking up\<close>

lemma mod_mult_div: "0 < a \<Longrightarrow> n mod (a * b) div a = n div a mod b" for n a b :: nat
  by (simp add: mod_mult2_eq)

lemma holds_found:
  assumes "s_inv dsize sa" and "i < length (l1_dir sa)" and "l1_key (l1_dir sa ! i) = unat off div 2 ^ 27"
  shows "holds sa (i, unat ((off - l1_offset (l1_dir sa ! i)) div SPARSE_PAGE)) (unat off div 32768)"
proof -
  have "l1_ok (l1_dir sa ! i)" using assms(1,2) by (simp add: s_inv_def)
  then have o: "unat (l1_offset (l1_dir sa ! i)) = unat off div 2 ^ 27 * 2 ^ 27"
    using assms(3) by (simp add: unat_l1_offset)
  then have "unat (off - l1_offset (l1_dir sa ! i)) = unat off mod 2 ^ 27"
    by (simp add: unat_sub word_le_nat_alt minus_div_mult_eq_mod)
  moreover have "n mod 134217728 div 32768 = n div 32768 mod 4096" for n :: nat
    using mod_mult_div [of 32768 n 4096] by simp
  moreover have "n div 32768 div 4096 = n div 134217728" for n :: nat by (simp add: div_mult2_eq [symmetric])
  ultimately show ?thesis using assms(2,3) by (simp add: holds_def unat_div)
qed

lemma lookup_False:
  assumes "s_inv dsize sa"
  shows "\<exists>p. lookup sa off False = Some (p, sa)
    \<and> (case p of None \<Rightarrow> page_at sa (unat off div 32768) = None
        | Some p \<Rightarrow> holds sa p (unat off div 32768) \<and> page_at sa (unat off div 32768) \<noteq> None)"
proof (cases "vector_search (compare_l1_offsets off) (l1_dir sa)")
  case None
  have "page_at sa (unat off div 32768) = None"
    using l1_search_None [OF assms None] by (simp add: page_at_def div_mult2_eq [symmetric])
  with None show ?thesis by (simp add: lookup_def)
next
  case (Some i)
  note h = holds_found [OF assms l1_search_Some [OF assms Some]]
  show ?thesis
    using Some h holdsD(1) [OF assms h] by (auto simp: lookup_def lookup_l2_def Let_def split: option.splits)
qed

lemma insert_l1_from_ok:
  assumes "sorted_wrt (\<lambda>a b. l1_key a < l1_key b) dir" and "\<And>e. e \<in> set dir \<Longrightarrow> l1_ok e \<and> l1_key e \<noteq> l1_key entry"
    and "l1_ok entry" and "\<And>e. e \<in> set (take i dir) \<Longrightarrow> l1_key e < l1_key entry" and "i \<le> length dir"
  shows "\<exists>n. insert_l1_from dir entry i = Some (take n dir @ entry # drop n dir)
    \<and> (\<forall>e \<in> set (take n dir). l1_key e < l1_key entry) \<and> (\<forall>e \<in> set (drop n dir). l1_key entry < l1_key e)"
  using assms(4,5)
proof (induction "length dir - i" arbitrary: i)
  case 0
  then have "i = length dir" by simp
  then show ?case
    using 0 by (intro exI [of _ i]) (subst insert_l1_from.simps, simp add: vector_append_def vector_insert_def)
next
  case (Suc m)
  then have i: "i < length dir" by simp
  have ne: "l1_ok (dir ! i)" "l1_key (dir ! i) \<noteq> l1_key entry" using assms(2) i by simp_all
  have lt: "l1_offset entry < l1_offset (dir ! i) \<longleftrightarrow> l1_key entry < l1_key (dir ! i)"
    using ne(1) assms(3) by (simp add: word_less_nat_alt unat_l1_offset)
  have off: "l1_offset entry \<noteq> l1_offset (dir ! i)" using ne(2) by (auto simp: l1_key_def)
  show ?case
  proof (cases "l1_key entry < l1_key (dir ! i)")
    case True
    have "l1_key entry < l1_key (dir ! (i + j))" if "i + j < length dir" for j
    proof (cases j)
      case (Suc k)
      then have "l1_key (dir ! i) < l1_key (dir ! (i + j))" using assms(1) that by (simp add: sorted_wrt_iff_nth_less)
      with True show ?thesis by simp
    qed (use True in simp)
    then have "\<forall>e \<in> set (drop i dir). l1_key entry < l1_key e" by (auto simp: in_set_conv_nth)
    with True lt i Suc.prems show ?thesis
      by (intro exI [of _ i]) (subst insert_l1_from.simps, simp add: vector_insert_def)
  next
    case False
    have "insert_l1_from dir entry i = insert_l1_from dir entry (i + 1)"
      using False lt off i by (subst insert_l1_from.simps) auto
    moreover have "e \<in> set (take (i + 1) dir) \<Longrightarrow> l1_key e < l1_key entry" for e
      using Suc.prems(1) [of e] False ne i by (auto simp: take_Suc_conv_app_nth)
    ultimately show ?thesis using Suc.hyps(1) [of "i + 1"] Suc.hyps(2) i by simp
  qed
qed

lemma insert_l1_entry_ok:
  assumes "s_inv dsize sa" and "unat off < 2 ^ 63" and "l1_map sa (unat off div 2 ^ 27) = None"
  shows "\<exists>sa'. insert_l1_entry sa \<lparr>l1_offset = off AND NOT (L1_SPAN - 1), l2_dir = replicate 4096 None\<rparr> = Some sa'
    \<and> s_inv dsize sa' \<and> page_at sa' = page_at sa \<and> l1_map sa' (unat off div 2 ^ 27) \<noteq> None"
proof -
  define en where "en = \<lparr>l1_offset = off AND NOT (L1_SPAN - 1), l2_dir = replicate 4096 None :: page option list\<rparr>"
  have "off AND NOT (L1_SPAN - 1) = off AND - (2 ^ 27)" by simp
  then have o: "unat (l1_offset en) = unat off - unat off mod 2 ^ 27"
    using unat_and_minus_exp [of off 27] by (simp add: en_def)
  have ok: "l1_ok en" using o assms(2) by (simp add: l1_ok_def) (simp add: en_def dvd_minus_mod)
  have key: "l1_key en = unat off div 2 ^ 27" using o by (simp add: l1_key_def minus_mod_eq_div_mult)
  have new: "e \<in> set (l1_dir sa) \<Longrightarrow> l1_ok e \<and> l1_key e \<noteq> l1_key en" for e
    using assms(1,3) key by (auto simp: s_inv_def l1_map_None in_set_conv_nth)
  obtain n where n: "insert_l1_from (l1_dir sa) en 0 = Some (take n (l1_dir sa) @ en # drop n (l1_dir sa))"
    "\<forall>e \<in> set (take n (l1_dir sa)). l1_key e < l1_key en" "\<forall>e \<in> set (drop n (l1_dir sa)). l1_key en < l1_key e"
    using insert_l1_from_ok [of "l1_dir sa" en 0] new ok assms(1) by (auto simp: s_inv_def)
  define sa' where "sa' = sa\<lparr>l1_dir := take n (l1_dir sa) @ en # drop n (l1_dir sa)\<rparr>"
  have "sorted_wrt (\<lambda>a b. l1_key a < l1_key b) (take n (l1_dir sa) @ drop n (l1_dir sa))"
    using assms(1) by (simp add: s_inv_def)
  then have srt: "sorted_wrt (\<lambda>a b. l1_key a < l1_key b) (l1_dir sa')"
    using n(2,3) unfolding sorted_wrt_append by (simp add: sa'_def sorted_wrt_append)
  have "\<forall>e \<in> set (l1_dir sa'). l1_ok e"
    using new ok by (auto simp: sa'_def dest: in_set_takeD in_set_dropD)
  then have inv': "s_inv dsize sa'"
    using assms(1) srt by (simp add: s_inv_def)
  have "l1_map sa' = (l1_map sa)(unat off div 2 ^ 27 \<mapsto> l2_dir en)"
  proof
    fix k
    have "map (\<lambda>e. (l1_key e, l2_dir e)) (take n (l1_dir sa) @ drop n (l1_dir sa)) = map (\<lambda>e. (l1_key e, l2_dir e)) (l1_dir sa)" by simp
    then have "l1_map sa = map_of (map (\<lambda>e. (l1_key e, l2_dir e)) (take n (l1_dir sa)) @ map (\<lambda>e. (l1_key e, l2_dir e)) (drop n (l1_dir sa)))"
      unfolding l1_map_def by (simp only: map_append)
    moreover have "map_of (map (\<lambda>e. (l1_key e, l2_dir e)) (take n (l1_dir sa))) (l1_key en) = None"
      using n(2) by (auto simp: map_of_eq_None_iff)
    ultimately show "l1_map sa' k = ((l1_map sa)(unat off div 2 ^ 27 \<mapsto> l2_dir en)) k"
      unfolding l1_map_def sa'_def by (auto simp: map_add_def key split: option.splits)
  qed
  moreover from this have "page_at sa' = page_at sa"
    using assms(3) by (auto simp: page_at_def fun_eq_iff en_def)
  ultimately show ?thesis using n(1) inv' by (auto simp: insert_l1_entry_def sa'_def en_def)
qed

lemma lookup_l2_create:
  assumes "s_inv dsize sa" and "vector_search (compare_l1_offsets off) (l1_dir sa) = Some i"
  shows "\<exists>p sa'. lookup_l2 sa off True i = (Some p, sa') \<and> s_inv dsize sa' \<and> holds sa' p (unat off div 32768)
    \<and> page_at sa' (unat off div 32768) \<noteq> None \<and> s_content sa' = s_content sa"
proof -
  let ?p = "(i, unat ((off - l1_offset (l1_dir sa ! i)) div SPARSE_PAGE))"
  let ?z = "Some (zeroes 32768)"
  note h = holds_found [OF assms(1) l1_search_Some [OF assms]]
  show ?thesis
  proof (cases "the_page sa ?p")
    case None
    have pa: "page_at (set_page sa ?p ?z) = (page_at sa)(unat off div 32768 := ?z)"
      using assms(1) h by (intro page_at_set_page) auto
    moreover have "s_content (set_page sa ?p ?z) = s_content sa"
      using None holdsD(1) [OF assms(1) h] by (auto simp: s_content_def pa fun_eq_iff)
    moreover have "s_inv dsize (set_page sa ?p ?z)" using s_inv_set_page [OF assms(1) h, of ?z] by simp
    ultimately show ?thesis using None h by (auto simp: lookup_l2_def Let_def)
  next
    case (Some page)
    then show ?thesis using assms h holdsD(1) [OF assms(1) h] by (auto simp: lookup_l2_def Let_def)
  qed
qed

lemma lookup_True:
  assumes "s_inv dsize sa" and "unat off < 2 ^ 63"
  shows "\<exists>p sa'. lookup sa off True = Some (Some p, sa') \<and> s_inv dsize sa' \<and> holds sa' p (unat off div 32768)
    \<and> page_at sa' (unat off div 32768) \<noteq> None \<and> s_content sa' = s_content sa"
proof (cases "vector_search (compare_l1_offsets off) (l1_dir sa)")
  case None
  obtain sa1 where ins: "insert_l1_entry sa \<lparr>l1_offset = off AND NOT (L1_SPAN - 1), l2_dir = replicate 4096 None\<rparr> = Some sa1"
    and inv1: "s_inv dsize sa1" and pa: "page_at sa1 = page_at sa" and m: "l1_map sa1 (unat off div 2 ^ 27) \<noteq> None"
    using insert_l1_entry_ok [OF assms l1_search_None [OF assms(1) None]] by auto
  obtain i where i: "vector_search (compare_l1_offsets off) (l1_dir sa1) = Some i"
    using l1_search_None [OF inv1, of off] m by (cases "vector_search (compare_l1_offsets off) (l1_dir sa1)") auto
  have "s_content sa1 = s_content sa" by (simp add: s_content_def fun_eq_iff pa)
  with lookup_l2_create [OF inv1 i] ins i None show ?thesis by (auto simp: lookup_def)
next
  case (Some i)
  with lookup_l2_create [OF assms(1) Some] show ?thesis by (auto simp: lookup_def)
qed

subsection \<open>Pieces of a request\<close>

lemma page_off_unat: "page_off off = unat off mod 32768"
  using unat_and_exp_minus_1 [of off 15] by (simp add: page_off_def)

lemma unat_remaining: "unat (remaining off) = 32768 - unat off mod 32768"
proof -
  have "unat (off AND 32767) = unat off mod 32768" using unat_and_exp_minus_1 [of off 15] by simp
  then show ?thesis by (simp add: remaining_def unat_sub word_le_nat_alt)
qed

lemma piece_facts:
  assumes "count \<noteq> 0" and "unat off + unat count < 2 ^ 63" and "n = min (remaining off) count"
  shows "0 < unat n" "unat n \<le> unat count" "unat off mod 32768 + unat n \<le> 32768" "unat (off + n) = unat off + unat n"
    "unat (count - n) = unat count - unat n"
proof -
  have n: "unat n = min (unat (remaining off)) (unat count)" using assms(3) by (simp add: min_def word_le_nat_alt)
  then show le: "unat n \<le> unat count" and "unat off mod 32768 + unat n \<le> 32768" by (simp_all add: unat_remaining)
  show "0 < unat n" using n assms(1) remaining_pos(1) [of off] by (simp add: unat_gt_0)
  show "unat (off + n) = unat off + unat n" using le assms(2) by (simp add: unat_word_ariths)
  show "unat (count - n) = unat count - unat n" using le by (simp add: unat_sub word_le_nat_alt)
qed

lemma block_split:
  "i mod b + j < b \<Longrightarrow> (i + j) div b = i div b \<and> (i + j) mod b = i mod b + j" for i j b :: nat
  by (simp add: div_add1_eq [of i j] mod_add_eq [of i b j, symmetric])

lemma block_end: "i mod b + n \<le> b \<Longrightarrow> i + n \<le> (i div b + 1) * b" for i n b :: nat
  unfolding add_mult_distrib mult_1 using div_mult_mod_eq [of i b] by linarith

lemma page_bytes:
  assumes "page_at sa (i div 32768) = Some page" and "i mod 32768 + n \<le> length page" and "length page = 32768"
  shows "take n (drop (i mod 32768) page) = disk_read (s_content sa) i n"
proof (rule nth_equalityI)
  show "length (take n (drop (i mod 32768) page)) = length (disk_read (s_content sa) i n)" using assms(2) by simp
next
  fix j assume "j < length (take n (drop (i mod 32768) page))"
  then have j: "j < n" "i mod 32768 + j < 32768" using assms(2,3) by auto
  have "(i + j) div 32768 = i div 32768" "(i + j) mod 32768 = i mod 32768 + j"
    using block_split [of i 32768 j] j(2) by simp_all
  then show "take n (drop (i mod 32768) page) ! j = disk_read (s_content sa) i n ! j"
    using assms j by (simp add: disk_read_def s_content_def)
qed

lemma page_write_ok:
  assumes "s_inv dsize sa" and "holds sa p (unat off div 32768)" and "page_at sa (unat off div 32768) \<noteq> None"
    and "unat off mod 32768 + length bs \<le> 32768"
  shows "s_inv dsize (page_write sa p (page_off off) bs)"
    and "s_content (page_write sa p (page_off off) bs) = disk_write (s_content sa) (unat off) bs"
    and "page_at (page_write sa p (page_off off) bs) (unat off div 32768) \<noteq> None"
proof -
  let ?pn = "unat off div 32768"
  obtain page where pg: "page_at sa ?pn = Some page" using assms(3) by auto
  have len: "length page = 32768" by (rule holdsD(3) [OF assms(1,2) pg])
  define page' where "page' = memcpy page (unat off mod 32768) bs"
  have len': "length page' = 32768" using assms(4) len by (simp add: page'_def)
  have w: "page_write sa p (page_off off) bs = set_page sa p (Some page')"
    using holdsD(1) [OF assms(1,2)] pg by (simp add: page_write_def page_off_unat page'_def)
  have off: "unat off = ?pn * 32768 + unat off mod 32768" by simp
  have fin: "?pn * 32768 \<le> unat off" "unat off + length bs \<le> (?pn + 1) * 32768"
    using block_end [OF assms(4)] by simp_all
  show "s_inv dsize (page_write sa p (page_off off) bs)"
    unfolding w using s_inv_set_page [OF assms(1,2), of "Some page'"] len' by simp
  show "page_at (page_write sa p (page_off off) bs) ?pn \<noteq> None"
    unfolding w using page_at_set_page [OF assms(1,2), of "Some page'"] len' by simp
  show "s_content (page_write sa p (page_off off) bs) = disk_write (s_content sa) (unat off) bs"
    unfolding w
  proof (rule s_content_set_page [OF assms(1,2) len'])
    fix i :: nat assume i: "i < 32768"
    have "s_content sa (?pn * 32768 + i) = page ! i" using i pg by (simp add: s_content_def)
    moreover have "unat off \<le> ?pn * 32768 + i \<longleftrightarrow> unat off mod 32768 \<le> i"
      "?pn * 32768 + i < unat off + length bs \<longleftrightarrow> i < unat off mod 32768 + length bs"
      "?pn * 32768 + i - unat off = i - unat off mod 32768" using off by linarith+
    ultimately show "page' ! i = disk_write (s_content sa) (unat off) bs (?pn * 32768 + i)"
      using assms(4) len i by (simp add: page'_def nth_memcpy disk_write_def)
  qed (rule fin)+
qed

subsection \<open>The operations\<close>

lemma sparse_array_read_ok:
  assumes "s_inv dsize sa"
  shows "unat off + unat count \<le> unat dsize \<Longrightarrow>
    sparse_array_read sa count off = Some (0, disk_read (s_content sa) (unat off) (unat count))"
proof (induction "unat count" arbitrary: count off rule: less_induct)
  case less
  show ?case
  proof (cases "count = 0")
    case True
    then show ?thesis by (subst sparse_array_read.simps) (simp add: disk_read_def)
  next
    case False
    define n where "n = min (remaining off) count"
    have "unat off + unat count < 2 ^ 63" using less.prems assms by (simp add: s_inv_def)
    note pf = piece_facts [OF False this n_def]
    obtain p where lk: "lookup sa off False = Some (p, sa)"
      "case p of None \<Rightarrow> page_at sa (unat off div 32768) = None
         | Some p \<Rightarrow> holds sa p (unat off div 32768) \<and> page_at sa (unat off div 32768) \<noteq> None"
      using lookup_False [OF assms] by blast
    have bs: "(case p of None \<Rightarrow> zeroes (unat n)
        | Some p \<Rightarrow> take (unat n) (drop (page_off off) (the (the_page sa p)))) = disk_read (s_content sa) (unat off) (unat n)"
    proof (cases p)
      case None
      have "s_content sa (unat off + j) = 0" if "j < unat n" for j
        using block_split [of "unat off" 32768 j] pf(3) that lk(2) None by (simp add: s_content_def)
      with None show ?thesis by (auto intro!: nth_equalityI simp: disk_read_def)
    next
      case (Some q)
      then obtain page where "page_at sa (unat off div 32768) = Some page" "holds sa q (unat off div 32768)" using lk(2) by auto
      with Some pf(3) holdsD [OF assms this(2)] show ?thesis by (simp add: page_off_unat page_bytes)
    qed
    have "sparse_array_read sa (count - n) (off + n)
        = Some (0, disk_read (s_content sa) (unat off + unat n) (unat count - unat n))"
      using less.hyps [of "count - n" "off + n"] pf less.prems False by (simp add: unat_gt_0)
    with lk(1) bs False pf(2) show ?thesis
      by (subst sparse_array_read.simps)
         (simp add: n_def [symmetric] disk_read_append [symmetric])
  qed
qed

definition written :: "bool \<Rightarrow> u64 \<Rightarrow> sparse_array \<Rightarrow> nat \<Rightarrow> u8 list \<Rightarrow> (int \<times> sparse_array) option \<Rightarrow> bool" where
  "written exclusive dsize sa off bs res \<longleftrightarrow> (\<exists>r sa'. res = Some (r, sa') \<and> s_inv dsize sa'
     \<and> (r = 0 \<and> s_content sa' = disk_write (s_content sa) off bs
        \<or> r = RESTART_EXCLUSIVE \<and> \<not> exclusive \<and> same_outside off (length bs) (s_content sa) (s_content sa')))"

lemma written_step:
  assumes "s_content sa' = disk_write (s_content sa) off bs" and "written exclusive dsize sa' (off + length bs) bs' res"
  shows "written exclusive dsize sa off (bs @ bs') res"
proof -
  obtain r sa'' where res: "res = Some (r, sa'')" "s_inv dsize sa''"
    and c: "r = 0 \<and> s_content sa'' = disk_write (s_content sa') (off + length bs) bs'
        \<or> r = RESTART_EXCLUSIVE \<and> \<not> exclusive \<and> same_outside (off + length bs) (length bs') (s_content sa') (s_content sa'')"
    using assms(2) by (auto simp: written_def)
  have "same_outside off (length bs + length bs') (s_content sa) (s_content sa')"
    using same_outside_mono [OF same_outside_write [of bs "length bs" off "s_content sa"]] assms(1) by simp
  with c assms(1) have "r = 0 \<and> s_content sa'' = disk_write (s_content sa) off (bs @ bs')
      \<or> r = RESTART_EXCLUSIVE \<and> \<not> exclusive \<and> same_outside off (length (bs @ bs')) (s_content sa) (s_content sa'')"
    by (auto simp: disk_write_append intro: same_outside_trans)
  with res show ?thesis by (auto simp: written_def)
qed

lemma do_write_ok:
  "s_inv dsize sa \<Longrightarrow> unat off + unat count \<le> unat dsize \<Longrightarrow> length buf = unat count \<Longrightarrow>
     written exclusive dsize sa (unat off) buf (do_write exclusive sa buf count off)"
proof (induction "unat count" arbitrary: sa count off buf rule: less_induct)
  case less
  show ?case
  proof (cases "count = 0")
    case True
    then show ?thesis using less.prems by (subst do_write.simps) (simp add: written_def)
  next
    case False
    define n where "n = min (remaining off) count"
    have lim: "unat off + unat count < 2 ^ 63" using less.prems by (simp add: s_inv_def)
    note pf = piece_facts [OF False this n_def]
    have go: "written exclusive dsize sa1 (unat off) buf
        (do_write exclusive (page_write sa1 p (page_off off) (take (unat n) buf)) (drop (unat n) buf) (count - n) (off + n))"
      if "s_inv dsize sa1" "holds sa1 p (unat off div 32768)" "page_at sa1 (unat off div 32768) \<noteq> None" for sa1 p
    proof -
      have l: "length (take (unat n) buf) = unat n" using less.prems pf(2) by simp
      note w = page_write_ok [OF that, of "take (unat n) buf", unfolded l, OF pf(3)]
      have "written exclusive dsize (page_write sa1 p (page_off off) (take (unat n) buf)) (unat off + unat n) (drop (unat n) buf)
        (do_write exclusive (page_write sa1 p (page_off off) (take (unat n) buf)) (drop (unat n) buf) (count - n) (off + n))"
        using less.hyps [OF _ w(1), of "count - n" "off + n" "drop (unat n) buf"] pf less.prems False by (simp add: unat_gt_0)
      from written_step [OF w(2), unfolded l, OF this] show ?thesis by simp
    qed
    show ?thesis
    proof (cases exclusive)
      case True
      obtain p sa1 where "lookup sa off True = Some (Some p, sa1)" "s_inv dsize sa1" "holds sa1 p (unat off div 32768)"
        "page_at sa1 (unat off div 32768) \<noteq> None" "s_content sa1 = s_content sa"
        using lookup_True [OF less.prems(1), of off] lim by auto
      with go [OF this(2-4)] True False show ?thesis
        by (subst do_write.simps) (simp add: n_def [symmetric] written_def)
    next
      case sh: False
      obtain p where "lookup sa off False = Some (p, sa)"
        "case p of None \<Rightarrow> page_at sa (unat off div 32768) = None
           | Some p \<Rightarrow> holds sa p (unat off div 32768) \<and> page_at sa (unat off div 32768) \<noteq> None"
        using lookup_False [OF less.prems(1)] by blast
      with go [OF less.prems(1)] sh False less.prems show ?thesis
        by (subst do_write.simps) (auto simp: n_def [symmetric] written_def Let_def split: option.splits)
    qed
  qed
qed

text \<open>Freeing a page zeroes its bytes.\<close>

lemma set_page_None_ok:
  assumes "s_inv dsize sa" and "holds sa p pn"
  shows "s_inv dsize (set_page sa p None)"
    and "s_content (set_page sa p None) = disk_write (s_content sa) (pn * 32768) (zeroes 32768)"
proof -
  show "s_inv dsize (set_page sa p None)" using s_inv_set_page [OF assms, of None] by simp
  have pa: "page_at (set_page sa p None) = (page_at sa)(pn := None)" using page_at_set_page [OF assms, of None] by simp
  show "s_content (set_page sa p None) = disk_write (s_content sa) (pn * 32768) (zeroes 32768)"
  proof
    fix i :: nat
    have "i div 32768 = pn \<longleftrightarrow> pn * 32768 \<le> i \<and> i < (pn + 1) * 32768"
      by (metis Suc_eq_plus1 div_nat_eqI dividend_less_div_times div_times_less_eq_dividend mult.commute mult_Suc zero_less_numeral)
    then show "s_content (set_page sa p None) i = disk_write (s_content sa) (pn * 32768) (zeroes 32768) i"
      by (auto simp: s_content_def pa disk_write_def)
  qed
qed

lemma disk_write_zero_id:
  "(\<And>i. off \<le> i \<Longrightarrow> i < off + n \<Longrightarrow> d i = 0) \<Longrightarrow> disk_write d off (zeroes n) = d"
  by (auto simp: disk_write_def fun_eq_iff)

lemma page_absent_zero:
  "page_at sa (i div 32768) = None \<Longrightarrow> i mod 32768 + n \<le> 32768 \<Longrightarrow> disk_write (s_content sa) i (zeroes n) = s_content sa"
proof (rule disk_write_zero_id)
  fix k assume a: "page_at sa (i div 32768) = None" "i mod 32768 + n \<le> 32768" "i \<le> k" "k < i + n"
  then show "s_content sa k = 0" using block_split [of i 32768 "k - i"] by (simp add: s_content_def)
qed

text \<open>A page found to hold only zeroes is freed without a change of the contents.\<close>

lemma free_zero_page:
  assumes "s_inv dsize sa" and "holds sa p pn" and "page_at sa pn \<noteq> None" and "is_zero (the (the_page sa p))"
  shows "s_inv dsize (set_page sa p None)" and "s_content (set_page sa p None) = s_content sa"
proof -
  show "s_inv dsize (set_page sa p None)" by (rule set_page_None_ok [OF assms(1,2)])
  obtain page where pg: "page_at sa pn = Some page" "length page = 32768" "\<forall>b \<in> set page. b = 0"
    using assms(3,4) holdsD [OF assms(1,2)] by (auto simp: is_zero_iff)
  have "s_content sa i = 0" if "pn * 32768 \<le> i" "i < pn * 32768 + 32768" for i
  proof -
    have "i div 32768 = pn" using that by (intro div_nat_eqI) simp_all
    with pg show ?thesis by (simp add: s_content_def)
  qed
  then show "s_content (set_page sa p None) = s_content sa"
    unfolding set_page_None_ok(2) [OF assms(1,2)] by (rule disk_write_zero_id)
qed

text \<open>What \<^const>\<open>do_zero\<close> does with a page: the state in which it goes on, or stops to restart.\<close>

lemma zero_piece:
  assumes "s_inv dsize sa" and "holds sa p (unat off div 32768)" and "page_at sa (unat off div 32768) \<noteq> None"
    and "unat off mod 32768 + unat n \<le> 32768"
  defines "sa1 \<equiv> if n < SPARSE_PAGE then page_write sa p (page_off off) (zeroes (unat n)) else sa"
  shows "n < SPARSE_PAGE \<or> page_off off = 0" and "s_inv dsize sa1"
    and "same_outside (unat off) (unat n) (s_content sa) (s_content sa1)"
    and "n \<ge> SPARSE_PAGE \<or> is_zero (the (the_page sa1 p)) \<Longrightarrow>
      s_inv dsize (set_page sa1 p None) \<and> s_content (set_page sa1 p None) = disk_write (s_content sa) (unat off) (zeroes (unat n))"
    and "\<not> (n \<ge> SPARSE_PAGE \<or> is_zero (the (the_page sa1 p))) \<Longrightarrow>
      s_content sa1 = disk_write (s_content sa) (unat off) (zeroes (unat n))"
proof -
  have n: "n < SPARSE_PAGE \<longleftrightarrow> unat n < 32768" by (simp add: word_less_nat_alt)
  show "n < SPARSE_PAGE \<or> page_off off = 0" using assms(4) n by (auto simp: page_off_unat)
  note w = page_write_ok [OF assms(1-3), of "zeroes (unat n)", simplified, OF assms(4)]
  show "s_inv dsize sa1" "same_outside (unat off) (unat n) (s_content sa) (s_content sa1)"
    using w assms(1) by (auto simp: sa1_def same_outside_write)
  show "s_content sa1 = disk_write (s_content sa) (unat off) (zeroes (unat n))"
    if "\<not> (n \<ge> SPARSE_PAGE \<or> is_zero (the (the_page sa1 p)))"
    using that w by (auto simp: sa1_def)
  show "s_inv dsize (set_page sa1 p None) \<and> s_content (set_page sa1 p None) = disk_write (s_content sa) (unat off) (zeroes (unat n))"
    if z: "n \<ge> SPARSE_PAGE \<or> is_zero (the (the_page sa1 p))"
  proof (cases "n < SPARSE_PAGE")
    case True
    have "holds sa1 p (unat off div 32768)" using assms(2) by (simp add: sa1_def page_write_def)
    moreover have "sa1 = page_write sa p (page_off off) (zeroes (unat n))" using True by (simp add: sa1_def)
    ultimately show ?thesis using free_zero_page [of dsize sa1 p "unat off div 32768"] w z True by auto
  next
    case False
    then have "unat n = 32768" "unat off mod 32768 = 0" using assms(4) n by simp_all
    moreover from this(2) have "unat off div 32768 * 32768 = unat off" using div_mult_mod_eq [of "unat off" 32768] by simp
    moreover have "sa1 = sa" using False by (simp add: sa1_def)
    ultimately show ?thesis using set_page_None_ok [OF assms(1,2)] by simp
  qed
qed

lemma do_zero_ok:
  "s_inv dsize sa \<Longrightarrow> unat off + unat count \<le> unat dsize \<Longrightarrow>
     written exclusive dsize sa (unat off) (zeroes (unat count)) (do_zero exclusive sa count off)"
proof (induction "unat count" arbitrary: sa count off rule: less_induct)
  case less
  show ?case
  proof (cases "count = 0")
    case True
    then show ?thesis using less.prems by (subst do_zero.simps) (simp add: written_def)
  next
    case False
    define n where "n = min (remaining off) count"
    have lim: "unat off + unat count < 2 ^ 63" using less.prems by (simp add: s_inv_def)
    note pf = piece_facts [OF False this n_def]
    have go: "written exclusive dsize sa (unat off) (zeroes (unat count)) (do_zero exclusive sa1 (count - n) (off + n))"
      if "s_inv dsize sa1" "s_content sa1 = disk_write (s_content sa) (unat off) (zeroes (unat n))" for sa1
    proof -
      have "written exclusive dsize sa1 (unat off + unat n) (zeroes (unat count - unat n)) (do_zero exclusive sa1 (count - n) (off + n))"
        using less.hyps [OF _ that(1), of "count - n" "off + n"] pf less.prems False by (simp add: unat_gt_0)
      moreover have "zeroes (unat n) @ zeroes (unat count - unat n) = zeroes (unat count)"
        using pf(2) by (simp flip: replicate_add)
      ultimately show ?thesis
        using written_step [OF that(2), of exclusive dsize "zeroes (unat count - unat n)"] by simp
    qed
    obtain p where lk: "lookup sa off False = Some (p, sa)"
      "case p of None \<Rightarrow> page_at sa (unat off div 32768) = None
         | Some p \<Rightarrow> holds sa p (unat off div 32768) \<and> page_at sa (unat off div 32768) \<noteq> None"
      using lookup_False [OF less.prems(1)] by blast
    show ?thesis
    proof (cases p)
      case None
      then have "s_content sa = disk_write (s_content sa) (unat off) (zeroes (unat n))"
        using lk(2) pf(3) by (simp add: page_absent_zero)
      from go [OF less.prems(1) this] show ?thesis
        using lk(1) None False by (subst do_zero.simps) (simp add: n_def [symmetric])
    next
      case (Some q)
      define sa1 where "sa1 = (if n < SPARSE_PAGE then page_write sa q (page_off off) (zeroes (unat n)) else sa)"
      have h: "holds sa q (unat off div 32768)" "page_at sa (unat off div 32768) \<noteq> None" using lk(2) Some by auto
      note zp = zero_piece [OF less.prems(1) h pf(3), folded sa1_def]
      have "same_outside (unat off) (unat count) (s_content sa) (s_content sa1)"
        using same_outside_mono [OF zp(3)] pf(2) by simp
      then have sh: "written exclusive dsize sa (unat off) (zeroes (unat count)) (Some (RESTART_EXCLUSIVE, sa1))"
        if "\<not> exclusive" using zp(2) that by (simp add: written_def)
      have "do_zero exclusive sa count off =
        (if n \<ge> SPARSE_PAGE \<or> is_zero (the (the_page sa1 q)) then
           if \<not> exclusive then Some (RESTART_EXCLUSIVE, sa1)
           else do_zero exclusive (set_page sa1 q None) (count - n) (off + n)
         else do_zero exclusive sa1 (count - n) (off + n))"
        using lk(1) Some False zp(1) by (subst do_zero.simps) (simp add: n_def [symmetric] sa1_def [symmetric])
      then show ?thesis using go [of "set_page sa1 q None"] go [of sa1] zp(2,4,5) sh by presburger
    qed
  qed
qed

lemma fill_loop_ok:
  "s_inv dsize sa \<Longrightarrow> unat off + unat count \<le> unat dsize \<Longrightarrow>
     written True dsize sa (unat off) (replicate (unat count) ch) (fill_loop sa ch count off)"
proof (induction "unat count" arbitrary: sa count off rule: less_induct)
  case less
  show ?case
  proof (cases "count = 0")
    case True
    then show ?thesis using less.prems by (subst fill_loop.simps) (simp add: written_def)
  next
    case False
    define n where "n = min (remaining off) count"
    have lim: "unat off + unat count < 2 ^ 63" using less.prems by (simp add: s_inv_def)
    note pf = piece_facts [OF False this n_def]
    obtain p sa1 where lk: "lookup sa off True = Some (Some p, sa1)" "s_inv dsize sa1" "holds sa1 p (unat off div 32768)"
      "page_at sa1 (unat off div 32768) \<noteq> None" "s_content sa1 = s_content sa"
      using lookup_True [OF less.prems(1), of off] lim by auto
    define sa2 where "sa2 = page_write sa1 p (page_off off) (replicate (unat n) ch)"
    have w: "s_inv dsize sa2" "s_content sa2 = disk_write (s_content sa) (unat off) (replicate (unat n) ch)"
      using page_write_ok [OF lk(2-4), of "replicate (unat n) ch"] pf(3) lk(5) by (simp_all add: sa2_def)
    have "written True dsize sa2 (unat off + unat n) (replicate (unat count - unat n) ch) (fill_loop sa2 ch (count - n) (off + n))"
      using less.hyps [OF _ w(1), of "count - n" "off + n"] pf less.prems False by (simp add: unat_gt_0)
    then have "written True dsize sa (unat off) (replicate (unat count) ch) (fill_loop sa2 ch (count - n) (off + n))"
      using written_step [OF w(2), of True dsize "replicate (unat count - unat n) ch"] pf(2)
      by (simp flip: replicate_add)
    with lk(1) False show ?thesis
      by (subst fill_loop.simps) (simp add: n_def [symmetric] sa2_def [symmetric])
  qed
qed

text \<open>The restart with the exclusive lock gives the result that the first attempt would have given.\<close>

lemma restart_ok:
  assumes "written False dsize sa off bs res"
    and "\<And>sa'. s_inv dsize sa' \<Longrightarrow> written True dsize sa' off bs (redo sa')"
  shows "\<exists>sa'. Option.bind res (\<lambda>(r, sa). if r = RESTART_EXCLUSIVE then redo sa else Some (r, sa)) = Some (0, sa')
    \<and> s_inv dsize sa' \<and> s_content sa' = disk_write (s_content sa) off bs"
proof -
  obtain r sa1 where res: "res = Some (r, sa1)" "s_inv dsize sa1"
    and c: "r = 0 \<and> s_content sa1 = disk_write (s_content sa) off bs
      \<or> r = RESTART_EXCLUSIVE \<and> same_outside off (length bs) (s_content sa) (s_content sa1)"
    using assms(1) by (auto simp: written_def)
  obtain sa2 where "redo sa1 = Some (0, sa2)" "s_inv dsize sa2" "s_content sa2 = disk_write (s_content sa1) off bs"
    using assms(2) [OF res(2)] by (auto simp: written_def)
  then show ?thesis
    using res c disk_write_same_outside [of off "length bs" "s_content sa" "s_content sa1" bs]
    by (cases "r = 0") simp_all
qed

lemma sparse_array_write_ok:
  "s_inv dsize sa \<Longrightarrow> unat off + unat count \<le> unat dsize \<Longrightarrow> length buf = unat count \<Longrightarrow>
     \<exists>sa'. sparse_array_write sa buf count off = Some (0, sa') \<and> s_inv dsize sa'
       \<and> s_content sa' = disk_write (s_content sa) (unat off) buf"
  unfolding sparse_array_write_def by (rule restart_ok) (auto intro: do_write_ok)

lemma sparse_array_zero_ok:
  "s_inv dsize sa \<Longrightarrow> unat off + unat count \<le> unat dsize \<Longrightarrow>
     \<exists>sa'. sparse_array_zero sa count off = Some (0, sa') \<and> s_inv dsize sa'
       \<and> s_content sa' = disk_write (s_content sa) (unat off) (zeroes (unat count))"
  unfolding sparse_array_zero_def by (rule restart_ok) (auto intro: do_zero_ok)

lemma sparse_array_fill_ok:
  "s_inv dsize sa \<Longrightarrow> unat off + unat count \<le> unat dsize \<Longrightarrow>
     \<exists>sa'. sparse_array_fill sa ch count off = Some (0, sa') \<and> s_inv dsize sa'
       \<and> s_content sa' = disk_write (s_content sa) (unat off) (replicate (unat count) ch)"
  using sparse_array_zero_ok [of dsize sa off count] fill_loop_ok [of dsize sa off count ch]
  by (auto simp: sparse_array_fill_def written_def)

text \<open>What the extents loop has reported before it comes to \<open>off\<close>.\<close>

definition reported :: "disk \<Rightarrow> nbdkit_extents \<Rightarrow> nbdkit_extents \<Rightarrow> bool" where
  "reported d x0 x \<longleftrightarrow> wf_extents x \<and> x_start x = x_start x0 \<and> x_end x = x_end x0
     \<and> (\<forall>i ty. status x i = Some ty \<and> has ty NBDKIT_EXTENT_ZERO \<longrightarrow> d i = 0)"

lemma report_step:
  assumes "reported d x0 x" and "in_sequence x off" and "extents x = [] \<longrightarrow> off = x_start x"
    and "off < x_end x" and "unat off + unat len < 2 ^ 63" and "0 < unat len"
    and "\<And>i. has ty NBDKIT_EXTENT_ZERO \<Longrightarrow> unat off \<le> i \<Longrightarrow> i < unat off + unat len \<Longrightarrow> d i = 0"
  shows "\<exists>x'. nbdkit_add_extent x off len ty = (Inr (), x') \<and> reported d x0 x' \<and> x_next x' = off + len \<and> extents x' \<noteq> []"
proof -
  obtain r x' where add: "nbdkit_add_extent x off len ty = (r, x')" by force
  have wf: "wf_extents x" using assms(1) by (simp add: reported_def)
  have fr: "r = Inr ()" "x_start x' = x_start x" "x_end x' = x_end x" "x_next x' = off + len"
    "length (extents x) \<ge> MAX_EXTENTS \<longrightarrow> extents x' = extents x"
    using nbdkit_add_extent_frame [OF add] assms(2,3) by auto
  have st: "step_ok x off len ty (Inr (), x')"
    using nbdkit_add_extent_ok [OF wf assms(5), of ty] add fr(1) by simp
  show ?thesis
  proof (cases "length (extents x) \<ge> MAX_EXTENTS")
    case True
    then have "extents x \<noteq> []" "extents x' = extents x" using fr(5) by auto
    moreover from this have "status x' = status x" using fr(2) by (simp add: status_def fun_eq_iff)
    ultimately show ?thesis using st fr add assms(1) by (auto simp: reported_def step_ok_def)
  next
    case False
    then have sp: "status x' = add_spec x (unat off) (unat len) ty" using st by (simp add: step_ok_def)
    have "extents x' \<noteq> []"
    proof (cases "extents x = []")
      case True
      then have "status x' (unat off) = Some ty" using sp assms(3,4,6) by (simp add: add_spec_def word_less_nat_alt)
      then show ?thesis by (auto simp: status_def)
    next
      case False
      then have "status x (unat (x_start x)) \<noteq> None"
        using wf by (cases "extents x") (auto simp: status_def wf_extents_def)
      then have "status x' (unat (x_start x)) \<noteq> None" using sp by (simp add: add_spec_def)
      then show ?thesis by (auto simp: status_def)
    qed
    then show ?thesis using st fr add assms(1,7) sp
      by (auto simp: reported_def step_ok_def add_spec_def split: if_splits)
  qed
qed

lemma extent_type_zero:
  assumes "s_inv dsize sa" and "lookup sa off False = Some (p, sa)"
    and "has (extent_type sa p off) NBDKIT_EXTENT_ZERO" and "unat off \<le> i" and "i < unat off + unat (remaining off)"
  shows "s_content sa i = 0"
proof -
  have i: "i div 32768 = unat off div 32768" "i mod 32768 = unat off mod 32768 + (i - unat off)"
    using block_split [of "unat off" 32768 "i - unat off"] assms(4,5) by (simp_all add: unat_remaining)
  show ?thesis
  proof (cases p)
    case None
    then have "page_at sa (unat off div 32768) = None" using lookup_False [OF assms(1), of off] assms(2) by auto
    with i show ?thesis by (simp add: s_content_def)
  next
    case (Some q)
    then obtain page where pg: "page_at sa (unat off div 32768) = Some page" and q: "holds sa q (unat off div 32768)"
      using lookup_False [OF assms(1), of off] assms(2) by auto
    have len: "length page = 32768" by (rule holdsD(3) [OF assms(1) q pg])
    have "is_zero (take (unat (remaining off)) (drop (page_off off) page))"
      using assms(3) Some holdsD(1) [OF assms(1) q] pg by (simp add: extent_type_def split: if_splits)
    then have "is_zero (disk_read (s_content sa) (unat off) (unat (remaining off)))"
      using page_bytes [OF pg _ len, of "unat (remaining off)"] len by (simp add: page_off_unat unat_remaining)
    then show ?thesis using assms(4,5) by (auto simp: is_zero_iff disk_read_def)
  qed
qed

lemma sparse_array_extents_ok:
  assumes "s_inv dsize sa"
  shows "reported (s_content sa) x0 x \<Longrightarrow> in_sequence x off \<Longrightarrow> (extents x = [] \<longrightarrow> off = x_start x) \<Longrightarrow>
    unat off + unat count \<le> unat (x_end x0) \<Longrightarrow> unat (x_end x0) \<le> unat dsize \<Longrightarrow>
    \<exists>x'. sparse_array_extents sa count off x = Some (0, x') \<and> reported (s_content sa) x0 x'"
proof (induction "unat count" arbitrary: x count off rule: less_induct)
  case less
  show ?case
  proof (cases "count = 0")
    case True
    then show ?thesis using less.prems by (subst sparse_array_extents.simps) simp
  next
    case False
    define n where "n = min (remaining off) count"
    have lim: "unat off + unat count < 2 ^ 63" and lim2: "unat off + unat (remaining off) < 2 ^ 63"
      using less.prems assms False remaining_pos(2) [of off] by (simp_all add: s_inv_def flip: unat_gt_0)
    note pf = piece_facts [OF False lim n_def]
    obtain p where lk: "lookup sa off False = Some (p, sa)" using lookup_False [OF assms] by blast
    have "off < x_end x" using less.prems(1,4) False by (simp add: reported_def word_less_nat_alt flip: unat_gt_0)
    then obtain x' where add: "nbdkit_add_extent x off (remaining off) (extent_type sa p off) = (Inr (), x')"
      and x': "reported (s_content sa) x0 x'" "x_next x' = off + remaining off" "extents x' \<noteq> []"
      using report_step [OF less.prems(1-3) _ lim2 remaining_pos(1)] extent_type_zero [OF assms lk] by blast
    have "\<exists>x''. sparse_array_extents sa (count - n) (off + n) x' = Some (0, x'') \<and> reported (s_content sa) x0 x''"
    proof (cases "count - n = 0")
      case True
      then show ?thesis using x'(1) by (subst sparse_array_extents.simps) simp
    next
      case f: False
      then have "n = remaining off" by (auto simp: n_def min_def split: if_splits)
      with x' have "in_sequence x' (off + n)" by (simp add: in_sequence_def)
      then show ?thesis using less.hyps [of "count - n" x' "off + n"] pf less.prems x' False by (simp add: unat_gt_0)
    qed
    with lk add False show ?thesis
      by (subst sparse_array_extents.simps) (simp add: n_def [symmetric])
  qed
qed

lemma sparse_array_blit_ok:
  assumes rd: "\<And>n i. unat i + unat n \<le> lim1 \<Longrightarrow> rd n i = Some (0, disk_read d1 (unat i) (unat n))" and "lim1 < 2 ^ 63"
  shows "s_inv dsize sa \<Longrightarrow> unat offset2 + unat count \<le> unat dsize \<Longrightarrow> unat offset1 + unat count \<le> lim1 \<Longrightarrow>
    written True dsize sa (unat offset2) (disk_read d1 (unat offset1) (unat count))
      (sparse_array_blit rd sa count offset1 offset2)"
proof (induction "unat count" arbitrary: sa count offset1 offset2 rule: less_induct)
  case less
  show ?case
  proof (cases "count = 0")
    case True
    then show ?thesis using less.prems by (subst sparse_array_blit.simps) (simp add: written_def disk_read_def)
  next
    case False
    define n where "n = min (remaining offset2) count"
    have lim: "unat offset2 + unat count < 2 ^ 63" using less.prems by (simp add: s_inv_def)
    note pf = piece_facts [OF False this n_def]
    obtain p sa1 where lk: "lookup sa offset2 True = Some (Some p, sa1)" "s_inv dsize sa1" "holds sa1 p (unat offset2 div 32768)"
      "page_at sa1 (unat offset2 div 32768) \<noteq> None" "s_content sa1 = s_content sa"
      using lookup_True [OF less.prems(1), of offset2] lim by auto
    let ?bs = "disk_read d1 (unat offset1) (unat n)"
    have r: "rd n offset1 = Some (0, ?bs)" using rd less.prems(3) pf(2) by simp
    define sa2 where "sa2 = page_write sa1 p (page_off offset2) ?bs"
    define sa3 where "sa3 = (if is_zero (the (the_page sa2 p)) then set_page sa2 p None else sa2)"
    note w = page_write_ok [OF lk(2-4), of ?bs, unfolded length_disk_read, OF pf(3), folded sa2_def]
    have "holds sa2 p (unat offset2 div 32768)" using lk(3) by (simp add: sa2_def page_write_def)
    from free_zero_page [OF w(1) this w(3)]
    have w3: "s_inv dsize sa3" "s_content sa3 = disk_write (s_content sa) (unat offset2) ?bs"
      using w(1,2) lk(5) by (simp_all add: sa3_def)
    have "unat (offset1 + n) = unat offset1 + unat n"
      using less.prems(3) pf(2) assms(2) by (simp add: unat_word_ariths)
    then have "written True dsize sa3 (unat offset2 + unat n) (disk_read d1 (unat offset1 + unat n) (unat count - unat n))
        (sparse_array_blit rd sa3 (count - n) (offset1 + n) (offset2 + n))"
      using less.hyps [OF _ w3(1), of "count - n" "offset2 + n" "offset1 + n"] pf less.prems False by (simp add: unat_gt_0)
    then have "written True dsize sa (unat offset2) (disk_read d1 (unat offset1) (unat count))
        (sparse_array_blit rd sa3 (count - n) (offset1 + n) (offset2 + n))"
      using written_step [OF w3(2), unfolded length_disk_read] pf(2) by (metis disk_read_append le_add_diff_inverse)
    with lk(1) False r show ?thesis
      by (subst sparse_array_blit.simps) (simp add: n_def [symmetric] sa2_def [symmetric] sa3_def [symmetric])
  qed
qed

interpretation sparse_alloc: allocator sparse_functions "s_inv dsize" s_content dsize False for dsize
proof (unfold_locales, goal_cases)
  case (1 a) then show ?case by (simp add: s_inv_def)
next
  case (2 a off count) then show ?case by (simp add: sparse_functions_def sparse_array_read_ok)
next
  case (3 a off count buf) then show ?case by (simp add: sparse_functions_def sparse_array_write_ok)
next
  case (4 a off count ch) then show ?case by (simp add: sparse_functions_def sparse_array_fill_ok)
next
  case (5 a off count) then show ?case by (simp add: sparse_functions_def sparse_array_zero_ok)
next
  case (6 a count off x)
  have "reported (s_content a) x x" using 6(4,5) by (simp add: reported_def status_def)
  moreover have "in_sequence x off" using 6(7) by (simp add: in_sequence_def)
  moreover have "extents x = [] \<longrightarrow> off = x_start x" using 6(6) by simp
  ultimately obtain x' where "sparse_array_extents a count off x = Some (0, x')" "reported (s_content a) x x'"
    using sparse_array_extents_ok [OF 6(1) _ _ _ 6(8,9)] by blast
  then show ?case by (simp add: sparse_functions_def reported_def)
qed

subsection \<open>Properties\<close>

lemma sparse_array_create_ok:
  "unat dsize + 32768 \<le> 2 ^ 63 \<Longrightarrow> s_inv dsize sparse_array_create" "s_content sparse_array_create = (\<lambda>_. 0)"
  by (simp_all add: s_inv_def s_content_def page_at_def l1_map_def sparse_array_create_def fun_eq_iff)

text \<open>C9: The sparse array is a disk: for a range inside it, a write and a zero succeed, keep the
  invariant of the two-level directory and change exactly the bytes of the range, whether or not they had to be
  restarted with the exclusive lock, and a read returns the bytes of the range.\<close>

theorem sparse_array_refines:
  assumes "s_inv dsize sa" and "unat off + unat count \<le> unat dsize" and "length buf = unat count"
  shows "(\<exists>sa'. sparse_array_write sa buf count off = Some (0, sa') \<and> s_inv dsize sa'
      \<and> s_content sa' = disk_write (s_content sa) (unat off) buf)
    \<and> (\<exists>sa'. sparse_array_zero sa count off = Some (0, sa') \<and> s_inv dsize sa'
      \<and> s_content sa' = disk_write (s_content sa) (unat off) (zeroes (unat count)))
    \<and> sparse_array_read sa count off = Some (0, disk_read (s_content sa) (unat off) (unat count))"
  using sparse_array_write_ok [OF assms] sparse_array_zero_ok [OF assms(1,2)] sparse_array_read_ok [OF assms(1,2)]
  by blast

theorem sparse_array_refines_witness:
  "\<exists>sa'. sparse_array_write sparse_array_create [7, 8] 2 32767 = Some (0, sa') \<and> s_inv 65536 sa'
     \<and> s_content sa' = disk_write (\<lambda>_. 0) 32767 [7, 8]"
  using sparse_array_refines [of 65536 sparse_array_create 32767 2 "[7, 8]"] sparse_array_create_ok(1) [of 65536] sparse_array_create_ok(2) by simp

text \<open>C16: A blit into the sparse array from a source whose reads return the bytes of a disk copies
  exactly the requested bytes, and pages that become zero are freed without changing what is read.\<close>

theorem sparse_array_blit_copies:
  assumes "\<And>n i. unat i + unat n \<le> lim1 \<Longrightarrow> rd n i = Some (0, disk_read d1 (unat i) (unat n))" and "lim1 < 2 ^ 63"
    and "s_inv dsize sa" and "unat offset2 + unat count \<le> unat dsize" and "unat offset1 + unat count \<le> lim1"
  shows "\<exists>sa'. sparse_array_blit rd sa count offset1 offset2 = Some (0, sa') \<and> s_inv dsize sa'
    \<and> s_content sa' = disk_write (s_content sa) (unat offset2) (disk_read d1 (unat offset1) (unat count))"
  using sparse_array_blit_ok [OF assms] by (auto simp: written_def)

theorem sparse_array_blit_copies_witness:
  "\<exists>sa'. sparse_array_blit (\<lambda>n i. Some (0, disk_read (\<lambda>_. 5) (unat i) (unat n))) sparse_array_create 3 10 40000 = Some (0, sa')
     \<and> s_inv 65536 sa' \<and> s_content sa' = disk_write (\<lambda>_. 0) 40000 (disk_read (\<lambda>_. 5) 10 3)"
  using sparse_array_blit_copies [of 100 "\<lambda>n i. Some (0, disk_read (\<lambda>_. 5) (unat i) (unat n))" "\<lambda>_. 5" 65536 sparse_array_create 40000 3 10]
    sparse_array_create_ok(1) [of 65536] sparse_array_create_ok(2) by simp

end
