(* ===== verification/Locks.thy ===== *)
theory Locks
  imports Prelude
begin

text \<open>
  The locks of \<^verbatim>\<open>src/server/locks.c\<close> and the threads that use them.  A thread runs the calls of the pthread
  functions that \<^verbatim>\<open>lock_connection\<close>, \<^verbatim>\<open>lock_request\<close>, \<^verbatim>\<open>lock_unload\<close> and their counterparts make, in the order in
  which \<^verbatim>\<open>handle_single_connection\<close> and \<^verbatim>\<open>backend_unload\<close> call these; the calls of different threads interleave.
  A call of an unlock function by a thread that does not hold the lock is an error, on which the code aborts.  It is the
  only error of a pthread call described here: the lock calls block until they succeed, and the system's limit on the
  number of readers (\<^verbatim>\<open>EAGAIN\<close>) and its detection of deadlocks (\<^verbatim>\<open>EDEADLK\<close>) are left out.
\<close>

type_synonym tid = nat

datatype mutex = Connection_lock | All_requests_lock | Request_lock nat

text \<open>The mutexes with their owners, and the readers and the writer of \<^verbatim>\<open>unload_prevention_lock\<close>.\<close>

record locks =
  mutex_owner :: "mutex \<Rightarrow> tid option"
  readers :: "tid set"
  writer :: "tid option"

datatype lock_call = Mutex_lock mutex | Mutex_unlock mutex | Rdlock | Wrlock | Rw_unlock

datatype outcome = Blocks | Aborts | Returns locks

fun exec_call :: "tid \<Rightarrow> lock_call \<Rightarrow> locks \<Rightarrow> outcome" where
  "exec_call t (Mutex_lock m) L =
     (if mutex_owner L m = None then Returns (L\<lparr>mutex_owner := (mutex_owner L)(m := Some t)\<rparr>) else Blocks)"
| "exec_call t (Mutex_unlock m) L =
     (if mutex_owner L m = Some t then Returns (L\<lparr>mutex_owner := (mutex_owner L)(m := None)\<rparr>) else Aborts)"
| "exec_call t Rdlock L =
     (if writer L = None then Returns (L\<lparr>readers := insert t (readers L)\<rparr>) else Blocks)"
| "exec_call t Wrlock L =
     (if writer L = None \<and> readers L = {} then Returns (L\<lparr>writer := Some t\<rparr>) else Blocks)"
| "exec_call t Rw_unlock L =
     (if writer L = Some t then Returns (L\<lparr>writer := None\<rparr>)
      else if t \<in> readers L then Returns (L\<lparr>readers := readers L - {t}\<rparr>) else Aborts)"

abbreviation (input) SERIALIZE_CONNECTIONS :: nat where "SERIALIZE_CONNECTIONS \<equiv> 0"
abbreviation (input) SERIALIZE_ALL_REQUESTS :: nat where "SERIALIZE_ALL_REQUESTS \<equiv> 1"
abbreviation (input) SERIALIZE_REQUESTS :: nat where "SERIALIZE_REQUESTS \<equiv> 2"

definition lock_connection :: "nat \<Rightarrow> lock_call list" where
  "lock_connection thread_model =
     (if thread_model \<le> SERIALIZE_CONNECTIONS then [Mutex_lock Connection_lock] else [])"

definition unlock_connection :: "nat \<Rightarrow> lock_call list" where
  "unlock_connection thread_model =
     (if thread_model \<le> SERIALIZE_CONNECTIONS then [Mutex_unlock Connection_lock] else [])"

text \<open>\<open>conn\<close> is the connection of the calling thread, if it has one.\<close>

definition lock_request :: "nat \<Rightarrow> nat option \<Rightarrow> lock_call list" where
  "lock_request thread_model conn =
     (if thread_model \<le> SERIALIZE_ALL_REQUESTS then [Mutex_lock All_requests_lock] else [])
     @ (case conn of None \<Rightarrow> []
        | Some c \<Rightarrow> if thread_model \<le> SERIALIZE_REQUESTS then [Mutex_lock (Request_lock c)] else [])
     @ [Rdlock]"

definition unlock_request :: "nat \<Rightarrow> nat option \<Rightarrow> lock_call list" where
  "unlock_request thread_model conn =
     [Rw_unlock]
     @ (case conn of None \<Rightarrow> []
        | Some c \<Rightarrow> if thread_model \<le> SERIALIZE_REQUESTS then [Mutex_unlock (Request_lock c)] else [])
     @ (if thread_model \<le> SERIALIZE_ALL_REQUESTS then [Mutex_unlock All_requests_lock] else [])"

definition lock_unload :: "lock_call list" where
  "lock_unload = [Wrlock]"

definition unlock_unload :: "lock_call list" where
  "unlock_unload = [Rw_unlock]"

text \<open>
  Where a thread is: outside any connection, or in one, and there at rest, on the way into or out of the
  connection, acquiring the locks for a request, inside it, releasing them; or the same for the
  unloading of the plugin.
\<close>

datatype place = Outside | Connected

datatype phase = At place | Entering | Leaving | Locking place | In_request place | Unlocking place
  | Wr_locking | Unloading | Wr_unlocking

record thread =
  thread_conn :: "nat option"
  phase :: phase
  calls :: "lock_call list"

type_synonym state = "locks \<times> thread list"

text \<open>What a thread does next when it has no calls left to make, and whether it begins something new.\<close>

fun next_phases :: "nat \<Rightarrow> thread \<Rightarrow> (bool \<times> phase \<times> lock_call list) list" where
  "next_phases tm th = (case phase th of
     At Outside \<Rightarrow> [(True, Entering, lock_connection tm), (True, Locking Outside, lock_request tm (thread_conn th)),
                    (True, Wr_locking, lock_unload)]
   | Entering \<Rightarrow> [(False, At Connected, [])]
   | At Connected \<Rightarrow> [(True, Locking Connected, lock_request tm (thread_conn th)), (False, Leaving, unlock_connection tm)]
   | Leaving \<Rightarrow> [(False, At Outside, [])]
   | Locking p \<Rightarrow> [(False, In_request p, [])]
   | In_request p \<Rightarrow> [(False, Unlocking p, unlock_request tm (thread_conn th))]
   | Unlocking p \<Rightarrow> [(False, At p, [])]
   | Wr_locking \<Rightarrow> [(False, Unloading, [])]
   | Unloading \<Rightarrow> [(False, Wr_unlocking, unlock_unload)]
   | Wr_unlocking \<Rightarrow> [(False, At Outside, [])])"

inductive step :: "nat \<Rightarrow> bool \<Rightarrow> state \<Rightarrow> state \<Rightarrow> bool" for tm where
  call: "t < length ths \<Longrightarrow> calls (ths ! t) = c # cs \<Longrightarrow> exec_call t c L = Returns L' \<Longrightarrow>
    step tm False (L, ths) (L', ths[t := (ths ! t)\<lparr>calls := cs\<rparr>])"
| move: "t < length ths \<Longrightarrow> calls (ths ! t) = [] \<Longrightarrow> (new, ph, cs) \<in> set (next_phases tm (ths ! t)) \<Longrightarrow>
    step tm new (L, ths) (L, ths[t := (ths ! t)\<lparr>phase := ph, calls := cs\<rparr>])"

definition initial :: "nat option list \<Rightarrow> state" where
  "initial conns = (\<lparr>mutex_owner = (\<lambda>_. None), readers = {}, writer = None\<rparr>,
     map (\<lambda>c. \<lparr>thread_conn = c, phase = At Outside, calls = []\<rparr>) conns)"

inductive reachable :: "nat \<Rightarrow> nat option list \<Rightarrow> state \<Rightarrow> bool" for tm conns where
  init: "reachable tm conns (initial conns)"
| step: "reachable tm conns s \<Longrightarrow> step tm new s s' \<Longrightarrow> reachable tm conns s'"

subsection \<open>Who holds what\<close>

text \<open>The locks a thread holds, as its phase and the calls it still has to make say.\<close>

datatype lock = M mutex | Read | Write

fun acquire :: "lock \<Rightarrow> lock_call" where
  "acquire (M m) = Mutex_lock m" | "acquire Read = Rdlock" | "acquire Write = Wrlock"

fun release :: "lock \<Rightarrow> lock_call" where
  "release (M m) = Mutex_unlock m" | "release Read = Rw_unlock" | "release Write = Rw_unlock"

definition conn_locks :: "nat \<Rightarrow> lock list" where
  "conn_locks tm = (if tm \<le> SERIALIZE_CONNECTIONS then [M Connection_lock] else [])"

definition req_locks :: "nat \<Rightarrow> nat option \<Rightarrow> lock list" where
  "req_locks tm conn = (if tm \<le> SERIALIZE_ALL_REQUESTS then [M All_requests_lock] else [])
     @ (case conn of None \<Rightarrow> [] | Some c \<Rightarrow> if tm \<le> SERIALIZE_REQUESTS then [M (Request_lock c)] else []) @ [Read]"

fun place_locks :: "nat \<Rightarrow> place \<Rightarrow> lock list" where
  "place_locks tm Outside = []" | "place_locks tm Connected = conn_locks tm"

text \<open>The locks that are being taken (\<^term>\<open>True\<close>) or given back, and those held throughout.\<close>

fun plan :: "nat \<Rightarrow> thread \<Rightarrow> bool \<times> lock list \<times> lock list" where
  "plan tm th = (case phase th of
     At p \<Rightarrow> (True, [], place_locks tm p)
   | Entering \<Rightarrow> (True, conn_locks tm, [])
   | Leaving \<Rightarrow> (False, conn_locks tm, [])
   | Locking p \<Rightarrow> (True, req_locks tm (thread_conn th), place_locks tm p)
   | In_request p \<Rightarrow> (True, [], place_locks tm p @ req_locks tm (thread_conn th))
   | Unlocking p \<Rightarrow> (False, req_locks tm (thread_conn th), place_locks tm p)
   | Wr_locking \<Rightarrow> (True, [Write], [])
   | Unloading \<Rightarrow> (True, [], [Write])
   | Wr_unlocking \<Rightarrow> (False, [Write], []))"

definition held :: "nat \<Rightarrow> thread \<Rightarrow> lock list" where
  "held tm th = (case plan tm th of (taking, ls, base) \<Rightarrow>
     base @ take (if taking then length ls - length (calls th) else length (calls th)) ls)"

text \<open>
  A thread in order: the calls left are those for the last ones of the locks to take, or for the first ones, backwards,
  of the locks to give back.
\<close>

definition in_order :: "nat \<Rightarrow> thread \<Rightarrow> bool" where
  "in_order tm th \<longleftrightarrow> (case plan tm th of (taking, ls, base) \<Rightarrow>
     length (calls th) \<le> length ls
     \<and> calls th = (if taking then map acquire (drop (length ls - length (calls th)) ls)
                   else map release (rev (take (length (calls th)) ls))))"

fun holders :: "locks \<Rightarrow> lock \<Rightarrow> tid set" where
  "holders L (M m) = {t. mutex_owner L m = Some t}"
| "holders L Read = readers L"
| "holders L Write = {t. writer L = Some t}"

definition rw_ok :: "locks \<Rightarrow> bool" where
  "rw_ok L \<longleftrightarrow> writer L = None \<or> readers L = {}"

definition consistent :: "nat \<Rightarrow> state \<Rightarrow> bool" where
  "consistent tm s \<longleftrightarrow> (case s of (L, ths) \<Rightarrow>
     (\<forall>l t. t \<in> holders L l \<longleftrightarrow> t < length ths \<and> l \<in> set (held tm (ths ! t)))
     \<and> rw_ok L \<and> (\<forall>t < length ths. in_order tm (ths ! t)))"

lemma exec_acquire:
  "exec_call t (acquire l) L = Returns L' \<Longrightarrow>
     holders L' l' = (if l' = l then insert t (holders L l) else holders L l') \<and> (rw_ok L \<longrightarrow> rw_ok L')"
  by (cases l; cases l') (auto simp: rw_ok_def split: if_splits)

lemma exec_release:
  "t \<in> holders L l \<Longrightarrow> rw_ok L \<Longrightarrow>
     \<exists>L'. exec_call t (release l) L = Returns L' \<and> rw_ok L'
       \<and> (\<forall>l'. holders L' l' = (if l' = l then holders L l - {t} else holders L l'))"
proof (cases l)
  case (M m)
  assume "t \<in> holders L l" "rw_ok L"
  with M have "holders (L\<lparr>mutex_owner := (mutex_owner L)(m := None)\<rparr>) l' = (if l' = l then holders L l - {t} else holders L l')" for l'
    by (cases l') auto
  with M \<open>t \<in> holders L l\<close> \<open>rw_ok L\<close> show ?thesis by (auto simp: rw_ok_def)
next
  case Read
  assume "t \<in> holders L l" "rw_ok L"
  with Read have "holders (L\<lparr>readers := readers L - {t}\<rparr>) l' = (if l' = l then holders L l - {t} else holders L l')" for l'
    by (cases l') auto
  with Read \<open>t \<in> holders L l\<close> \<open>rw_ok L\<close> show ?thesis by (auto simp: rw_ok_def)
next
  case Write
  assume "t \<in> holders L l" "rw_ok L"
  with Write have "holders (L\<lparr>writer := None\<rparr>) l' = (if l' = l then holders L l - {t} else holders L l')" for l'
    by (cases l') auto
  with Write \<open>t \<in> holders L l\<close> \<open>rw_ok L\<close> show ?thesis by (auto simp: rw_ok_def)
qed

lemma place_locks_conn:
  "set (place_locks tm p) \<subseteq> {M Connection_lock}"
  "distinct (place_locks tm p)"
proof -
  have "set (place_locks tm p) \<subseteq> {M Connection_lock} \<and> distinct (place_locks tm p)"
    by (cases p) (simp_all add: conn_locks_def)
  then show "set (place_locks tm p) \<subseteq> {M Connection_lock}" "distinct (place_locks tm p)" by auto
qed

lemma req_locks_set: "M Connection_lock \<notin> set (req_locks tm c)" "distinct (req_locks tm c)" "last (req_locks tm c) = Read"
  "Write \<notin> set (req_locks tm c)"
  by (auto simp: req_locks_def split: option.split)

lemma base_req_distinct: "distinct (place_locks tm p @ req_locks tm c)"
  using place_locks_conn [of tm p] req_locks_set [of tm c] by auto

lemma plan_distinct: "plan tm th = (taking, ls, base) \<Longrightarrow> distinct (base @ ls)"
  using base_req_distinct [of tm] place_locks_conn(2)
  by (auto simp: conn_locks_def split: phase.splits simp del: distinct_append)

text \<open>The order in which locks are taken.\<close>

fun rank :: "lock \<Rightarrow> nat" where
  "rank (M Connection_lock) = 0" | "rank (M All_requests_lock) = 1" | "rank (M (Request_lock c)) = 2"
| "rank Read = 3" | "rank Write = 3"

lemma plan_ranked: "plan tm th = (True, ls, base) \<Longrightarrow> sorted_wrt (\<lambda>a b. rank a < rank b) (base @ ls)"
  by (cases "phase th"; cases "case phase th of At p \<Rightarrow> p | Locking p \<Rightarrow> p | In_request p \<Rightarrow> p | _ \<Rightarrow> Outside")
     (auto simp: conn_locks_def req_locks_def split: option.splits if_splits)

lemma plan_calls [simp]: "plan tm (th\<lparr>calls := cs\<rparr>) = plan tm th"
  by (simp split: phase.split)

declare plan.simps [simp del] next_phases.simps [simp del]

text \<open>Taking a lock and giving one back.\<close>

lemma take_lock:
  assumes "in_order tm th" and "calls th = c # cs" and "plan tm th = (True, ls, base)"
  obtains l where "c = acquire l" "held tm (th\<lparr>calls := cs\<rparr>) = held tm th @ [l]" "l \<notin> set (held tm th)"
    "in_order tm (th\<lparr>calls := cs\<rparr>)" "\<forall>h \<in> set (held tm th). rank h < rank l"
proof -
  define k where "k = length ls - length (calls th)"
  have le: "length (calls th) \<le> length ls" and e: "c # cs = map acquire (drop k ls)"
    using assms by (simp_all add: in_order_def k_def)
  have k: "k < length ls" "length ls - length cs = Suc k" using le assms(2) by (auto simp: k_def)
  then have d: "drop k ls = ls ! k # drop (Suc k) ls" by (simp add: Cons_nth_drop_Suc)
  have h: "held tm th = base @ take k ls" "held tm (th\<lparr>calls := cs\<rparr>) = base @ take (Suc k) ls"
    using assms(3) k by (simp_all add: held_def k_def)
  have "distinct (base @ take (Suc k) ls)" using plan_distinct [OF assms(3)] by (simp add: distinct_append) (meson disjoint_iff in_set_takeD)
  then have "ls ! k \<notin> set (held tm th)" using h k by (auto simp: take_Suc_conv_app_nth)
  moreover have "in_order tm (th\<lparr>calls := cs\<rparr>)"
    using assms(3) e d k le assms(2) by (simp add: in_order_def)
  moreover have "\<forall>h \<in> set (held tm th). rank h < rank (ls ! k)"
  proof -
    have "sorted_wrt (\<lambda>a b. rank a < rank b) (base @ take (Suc k) ls @ drop (Suc k) ls)"
      using plan_ranked [OF assms(3)] by simp
    then show ?thesis using h(1) k by (auto simp: sorted_wrt_append take_Suc_conv_app_nth)
  qed
  ultimately show ?thesis
    using that [of "ls ! k"] e d h k by (simp add: take_Suc_conv_app_nth)
qed

lemma give_lock:
  assumes "in_order tm th" and "calls th = c # cs" and "plan tm th = (False, ls, base)"
  obtains l where "c = release l" "held tm th = held tm (th\<lparr>calls := cs\<rparr>) @ [l]" "l \<notin> set (held tm (th\<lparr>calls := cs\<rparr>))"
    "in_order tm (th\<lparr>calls := cs\<rparr>)"
proof -
  define k where "k = length cs"
  have le: "Suc k \<le> length ls" and e: "c # cs = map release (rev (take (Suc k) ls))"
    using assms by (simp_all add: in_order_def k_def)
  then have t: "take (Suc k) ls = take k ls @ [ls ! k]" by (simp add: take_Suc_conv_app_nth)
  have h: "held tm th = base @ take (Suc k) ls" "held tm (th\<lparr>calls := cs\<rparr>) = base @ take k ls"
    using assms(2,3) by (simp_all add: held_def k_def)
  have "distinct (base @ take (Suc k) ls)" using plan_distinct [OF assms(3)] by (simp add: distinct_append) (meson disjoint_iff in_set_takeD)
  then have "ls ! k \<notin> set (held tm (th\<lparr>calls := cs\<rparr>))" using h t by auto
  moreover have "in_order tm (th\<lparr>calls := cs\<rparr>)"
    using assms(3) e t le by (simp add: in_order_def k_def)
  ultimately show ?thesis using that [of "ls ! k"] e t h by simp
qed

lemma consistent_take:
  assumes "consistent tm (L, ths)" and "t < length ths" and "held tm th' = held tm (ths ! t) @ [l]"
    and "exec_call t (acquire l) L = Returns L'" and "in_order tm th'"
  shows "consistent tm (L', ths[t := th'])"
  using assms exec_acquire [OF assms(4)] by (auto simp: consistent_def nth_list_update)

lemma consistent_give:
  assumes "consistent tm (L, ths)" and "t < length ths" and "held tm (ths ! t) = held tm th' @ [l]"
    and "l \<notin> set (held tm th')" and "in_order tm th'"
  shows "\<exists>L'. exec_call t (release l) L = Returns L' \<and> consistent tm (L', ths[t := th'])"
proof -
  have "t \<in> holders L l" "rw_ok L" using assms(1-3) by (simp_all add: consistent_def)
  from exec_release [OF this] assms show ?thesis by (auto simp: consistent_def nth_list_update)
qed

text \<open>A change of phase keeps the locks.\<close>

lemma lock_request_acquire: "lock_request tm c = map acquire (req_locks tm c)"
  by (simp add: lock_request_def req_locks_def split: option.split)

lemma unlock_request_release: "unlock_request tm c = map release (rev (req_locks tm c))"
  by (simp add: unlock_request_def req_locks_def split: option.split)

lemmas lock_plans = lock_request_acquire unlock_request_release lock_connection_def unlock_connection_def
  lock_unload_def unlock_unload_def conn_locks_def

lemma move_held:
  assumes "calls th = []" and "(new, ph, cs) \<in> set (next_phases tm th)"
  shows "held tm (th\<lparr>phase := ph, calls := cs\<rparr>) = held tm th" and "in_order tm (th\<lparr>phase := ph, calls := cs\<rparr>)"
  using assms
  by (auto simp: held_def in_order_def next_phases.simps plan.simps lock_plans split: phase.splits place.splits)

lemma consistent_same:
  assumes "consistent tm (L, ths)" and "t < length ths" and "held tm th' = held tm (ths ! t)" and "in_order tm th'"
  shows "consistent tm (L, ths[t := th'])"
proof -
  have "held tm (ths[t := th'] ! i) = held tm (ths ! i)" if "i < length ths" for i
    using that assms(2,3) by (simp add: nth_list_update)
  with assms show ?thesis by (simp add: consistent_def nth_list_update)
qed

lemma consistent_step: "step tm new s s' \<Longrightarrow> consistent tm s \<Longrightarrow> consistent tm s'"
proof (induction rule: step.induct)
  case (call t ths c cs L L')
  obtain taking ls base where pl: "plan tm (ths ! t) = (taking, ls, base)" by (cases "plan tm (ths ! t)")
  have o: "in_order tm (ths ! t)" using call by (simp add: consistent_def)
  show ?case
  proof (cases taking)
    case True
    then obtain l where "c = acquire l" "held tm ((ths ! t)\<lparr>calls := cs\<rparr>) = held tm (ths ! t) @ [l]" "in_order tm ((ths ! t)\<lparr>calls := cs\<rparr>)"
      using take_lock [OF o call(2)] pl by auto
    with call show ?thesis by (intro consistent_take) auto
  next
    case False
    then obtain l where "c = release l" "held tm (ths ! t) = held tm ((ths ! t)\<lparr>calls := cs\<rparr>) @ [l]"
      "l \<notin> set (held tm ((ths ! t)\<lparr>calls := cs\<rparr>))" "in_order tm ((ths ! t)\<lparr>calls := cs\<rparr>)"
      using give_lock [OF o call(2)] pl by auto
    with consistent_give [OF call(4,1) this(2-4)] call(3) show ?thesis by auto
  qed
next
  case (move t ths new ph cs L)
  then show ?case using consistent_same move_held by blast
qed

lemma reachable_consistent: "reachable tm conns s \<Longrightarrow> consistent tm s"
proof (induction rule: reachable.induct)
  case init
  have "held tm \<lparr>thread_conn = c, phase = At Outside, calls = []\<rparr> = []" "in_order tm \<lparr>thread_conn = c, phase = At Outside, calls = []\<rparr>" for c
    by (simp_all add: held_def in_order_def plan.simps)
  moreover have "holders \<lparr>mutex_owner = \<lambda>_. None, readers = {}, writer = None\<rparr> l = {}" for l by (cases l) auto
  ultimately show ?case by (auto simp: consistent_def initial_def rw_ok_def)
next
  case (step s new s')
  then show ?case by (blast intro: consistent_step)
qed

subsection \<open>Exclusion\<close>

definition in_request :: "thread \<Rightarrow> bool" where
  "in_request th \<longleftrightarrow> (\<exists>p. phase th = In_request p)"

definition in_connection :: "thread \<Rightarrow> bool" where
  "in_connection th \<longleftrightarrow> (\<exists>ph \<in> {At, Locking, In_request, Unlocking}. phase th = ph Connected)"

lemma in_requestE: "in_request th \<Longrightarrow> (\<And>p. phase th = In_request p \<Longrightarrow> P) \<Longrightarrow> P"
  by (auto simp: in_request_def)

lemma consistent_holders:
  "consistent tm (L, ths) \<Longrightarrow> t \<in> holders L l \<longleftrightarrow> t < length ths \<and> l \<in> set (held tm (ths ! t))"
  by (simp add: consistent_def)

lemma holder_unique:
  assumes "consistent tm (L, ths)" and "t < length ths" and "t' < length ths"
    and "M m \<in> set (held tm (ths ! t))" and "M m \<in> set (held tm (ths ! t'))"
  shows "t = t'"
proof -
  have "t \<in> holders L (M m)" "t' \<in> holders L (M m)" using assms by (simp_all only: consistent_holders)
  then show ?thesis by simp
qed

lemma in_request_held:
  "in_request th \<Longrightarrow> set (req_locks tm (thread_conn th)) \<subseteq> set (held tm th)"
  by (elim in_requestE) (simp add: held_def plan.simps)

lemma in_connection_held: "in_connection th \<Longrightarrow> set (conn_locks tm) \<subseteq> set (held tm th)"
  unfolding in_connection_def by (elim bexE insertE) (simp_all add: held_def plan.simps)

lemma unloading_held: "phase th = Unloading \<Longrightarrow> Write \<in> set (held tm th)"
  by (simp add: held_def plan.simps)

lemma no_unload_in_request:
  assumes "consistent tm (L, ths)" and "t < length ths" and "t' < length ths" and "in_request (ths ! t)"
  shows "phase (ths ! t') \<noteq> Unloading"
proof
  assume "phase (ths ! t') = Unloading"
  then have "t' \<in> holders L Write" using assms(3) unloading_held by (simp only: consistent_holders [OF assms(1)])
  moreover have "Read \<in> set (held tm (ths ! t))"
    using in_request_held [OF assms(4), of tm] by (auto simp: req_locks_def)
  then have "t \<in> holders L Read" using assms(2) by (simp only: consistent_holders [OF assms(1)])
  ultimately show False using assms(1) by (auto simp: consistent_def rw_ok_def)
qed

subsection \<open>Progress\<close>

definition quiet :: "state \<Rightarrow> bool" where
  "quiet s \<longleftrightarrow> (\<forall>th \<in> set (snd s). phase th = At Outside \<and> calls th = [])"

text \<open>The number of steps a thread makes until it is outside again, if it begins nothing new.\<close>

definition phase_work :: "nat \<Rightarrow> thread \<Rightarrow> nat" where
  "phase_work tm th =
     (let rest = (\<lambda>p. case p of Outside \<Rightarrow> 0 | Connected \<Rightarrow> 2 + length (unlock_connection tm));
          unlock = 1 + length (unlock_request tm (thread_conn th)) in
      case phase th of At p \<Rightarrow> rest p | Entering \<Rightarrow> 1 + rest Connected | Leaving \<Rightarrow> 1
      | Locking p \<Rightarrow> 2 + unlock + rest p | In_request p \<Rightarrow> 1 + unlock + rest p | Unlocking p \<Rightarrow> 1 + rest p
      | Wr_locking \<Rightarrow> 4 | Unloading \<Rightarrow> 3 | Wr_unlocking \<Rightarrow> 1)"

definition thread_work :: "nat \<Rightarrow> thread \<Rightarrow> nat" where
  "thread_work tm th = length (calls th) + phase_work tm th"

definition work :: "nat \<Rightarrow> state \<Rightarrow> nat" where
  "work tm s = sum_list (map (thread_work tm) (snd s))"

lemma work_update:
  "t < length ths \<Longrightarrow> thread_work tm th < thread_work tm (ths ! t) \<Longrightarrow> work tm (L', ths[t := th]) < work tm (L, ths)"
proof -
  assume t: "t < length ths" and w: "thread_work tm th < thread_work tm (ths ! t)"
  have "sum_list ((map (thread_work tm) ths)[t := thread_work tm th])
      = sum_list (map (thread_work tm) ths) + thread_work tm th - thread_work tm (ths ! t)"
    using t by (simp add: sum_list_update)
  moreover have "thread_work tm (ths ! t) \<le> sum_list (map (thread_work tm) ths)"
    using t by (intro member_le_sum_list) auto
  ultimately show ?thesis using w by (simp add: work_def map_update)
qed

lemma step_work: "step tm new s s' \<Longrightarrow> \<not> new \<Longrightarrow> work tm s' < work tm s"
proof (induction rule: step.induct)
  case (call t ths c cs L L')
  have "thread_work tm ((ths ! t)\<lparr>calls := cs\<rparr>) < thread_work tm (ths ! t)"
    using call(2) by (simp add: thread_work_def phase_work_def split: phase.split)
  with call(1) show ?case by (rule work_update)
next
  case (move t ths new ph cs L)
  have "thread_work tm ((ths ! t)\<lparr>phase := ph, calls := cs\<rparr>) < thread_work tm (ths ! t)"
    using move(2-4) by (auto simp: thread_work_def phase_work_def next_phases.simps unlock_unload_def split: phase.splits place.splits)
  with move(1) show ?case by (rule work_update)
qed

text \<open>A thread that has calls to make and cannot go on waits for a lock that somebody holds.\<close>

lemma stuck_waits:
  assumes "consistent tm (L, ths)" and "\<nexists>s'. step tm False (L, ths) s'" and "t < length ths" and "calls (ths ! t) = c # cs"
  shows "\<exists>l. (\<forall>h \<in> set (held tm (ths ! t)). rank h < rank l)
    \<and> (\<exists>t' < length ths. \<exists>l' \<in> set (held tm (ths ! t')). rank l \<le> rank l')"
proof -
  obtain taking ls base where pl: "plan tm (ths ! t) = (taking, ls, base)" by (cases "plan tm (ths ! t)")
  have o: "in_order tm (ths ! t)" using assms(1,3) by (simp add: consistent_def)
  have nr: "exec_call t c L \<noteq> Returns L'" for L' using assms(2-4) step.call by metis
  have taking
  proof (rule ccontr)
    assume "\<not> taking"
    then obtain l where "c = release l" "held tm (ths ! t) = held tm ((ths ! t)\<lparr>calls := cs\<rparr>) @ [l]"
      "l \<notin> set (held tm ((ths ! t)\<lparr>calls := cs\<rparr>))" "in_order tm ((ths ! t)\<lparr>calls := cs\<rparr>)"
      using give_lock [OF o assms(4)] pl by auto
    with consistent_give [OF assms(1,3) this(2-4)] nr show False by auto
  qed
  then obtain l where l: "c = acquire l" "\<forall>h \<in> set (held tm (ths ! t)). rank h < rank l"
    using take_lock [OF o assms(4)] pl by auto
  have "\<exists>l'. holders L l' \<noteq> {} \<and> rank l \<le> rank l'"
  proof (cases l)
    case (M m)
    then obtain t' where "mutex_owner L m = Some t'" using nr l(1) by (fastforce split: if_splits)
    with M show ?thesis by (intro exI [of _ l]) auto
  next
    case Read
    then obtain t' where "writer L = Some t'" using nr l(1) by (fastforce split: if_splits)
    with Read show ?thesis by (intro exI [of _ Write]) auto
  next
    case Write
    then have "holders L Write \<noteq> {} \<or> holders L Read \<noteq> {}" using nr l(1) by (fastforce split: if_splits)
    with Write show ?thesis by (metis order_refl rank.simps(4,5))
  qed
  with l(2) show ?thesis using consistent_holders [OF assms(1)] by blast
qed

lemma stuck_quiet:
  assumes "consistent tm (L, ths)" and "\<nexists>s'. step tm False (L, ths) s'"
  shows "quiet (L, ths)"
proof -
  have rest: "phase (ths ! t) = At Outside" if "t < length ths" "calls (ths ! t) = []" for t
  proof (rule ccontr)
    assume "phase (ths ! t) \<noteq> At Outside"
    then have "\<exists>ph cs. (False, ph, cs) \<in> set (next_phases tm (ths ! t))"
      by (auto simp: next_phases.simps split: phase.splits place.splits)
    with that assms(2) show False using step.move by blast
  qed
  have busy: "calls (ths ! t) \<noteq> []" if "t < length ths" "l \<in> set (held tm (ths ! t))" for t l
    using rest [OF that(1)] that(2) by (auto simp: held_def plan.simps)
  have climb: "\<exists>t < length ths. \<exists>l \<in> set (held tm (ths ! t)). n \<le> rank l" if "t0 < length ths" "calls (ths ! t0) \<noteq> []" for n t0
  proof (induction n)
    case 0
    show ?case using stuck_waits [OF assms that(1)] that(2) by (cases "calls (ths ! t0)") auto
  next
    case (Suc n)
    then obtain t l where t: "t < length ths" "l \<in> set (held tm (ths ! t))" "n \<le> rank l" by blast
    then obtain c cs where "calls (ths ! t) = c # cs" using busy by (metis list.exhaust)
    from stuck_waits [OF assms t(1) this] t show ?case by (meson Suc_leI le_less_trans less_le_trans)
  qed
  have r3: "rank l \<le> 3" for l by (cases l rule: rank.cases) auto
  have "calls (ths ! t) = []" if t: "t < length ths" for t
  proof (rule ccontr)
    assume "calls (ths ! t) \<noteq> []"
    with climb [OF t, of 4] obtain l where "4 \<le> rank l" by blast
    with r3 [of l] show False by simp
  qed
  then show ?thesis using rest by (auto simp: quiet_def in_set_conv_nth)
qed

subsection \<open>Properties\<close>

text \<open>C17: A thread that is inside a request is alone there when the thread model serialises all requests, and
  alone among the threads of its connection when it serialises the requests of a connection; with serialised
  connections at most one thread is in a connection, inside a request or not; and the plugin is never unloaded while a thread is inside a request.\<close>

theorem request_exclusion:
  assumes "reachable thread_model conns (L, ths)" and "t < length ths" and "t' < length ths"
  shows "(thread_model \<le> SERIALIZE_ALL_REQUESTS \<and> in_request (ths ! t) \<and> in_request (ths ! t') \<longrightarrow> t' = t)
    \<and> (thread_model \<le> SERIALIZE_REQUESTS \<and> in_request (ths ! t) \<and> in_request (ths ! t') \<and> thread_conn (ths ! t') = thread_conn (ths ! t)
        \<and> thread_conn (ths ! t) \<noteq> None \<longrightarrow> t' = t)
    \<and> (thread_model \<le> SERIALIZE_CONNECTIONS \<and> in_connection (ths ! t) \<and> in_connection (ths ! t') \<longrightarrow> t' = t)
    \<and> (in_request (ths ! t) \<longrightarrow> phase (ths ! t') \<noteq> Unloading)"
proof -
  note c = reachable_consistent [OF assms(1)]
  note u = holder_unique [OF c assms(3,2)]
  have all: "M All_requests_lock \<in> set (held thread_model th)" if "thread_model \<le> 1" "in_request th" for th
    using in_request_held [OF that(2), of thread_model] that(1) by (auto simp: req_locks_def)
  have req: "M (Request_lock i) \<in> set (held thread_model th)"
    if "thread_model \<le> 2" "in_request th" "thread_conn th = Some i" for th i
    using in_request_held [OF that(2), of thread_model] that(1,3) by (auto simp: req_locks_def)
  have con: "M Connection_lock \<in> set (held thread_model th)" if "thread_model \<le> 0" "in_connection th" for th
    using in_connection_held [OF that(2), of thread_model] that(1) by (auto simp: conn_locks_def)
  show ?thesis
    using all req con u no_unload_in_request [OF c assms(2,3)] by (metis option.exhaust)
qed

text \<open>C19: A thread unlocks only what it holds, so no unlock call returns an error and the \<^verbatim>\<open>abort\<close> calls of the locking
  functions behind them are not reached.  (A failure of a lock call for lack of system resources is not described.)\<close>

theorem locks_never_abort:
  assumes "reachable thread_model conns (L, ths)" and "t < length ths" and "calls (ths ! t) = c # cs"
  shows "exec_call t c L \<noteq> Aborts"
proof -
  note con = reachable_consistent [OF assms(1)]
  have o: "in_order thread_model (ths ! t)" using con assms(2) by (simp add: consistent_def)
  obtain taking ls base where pl: "plan thread_model (ths ! t) = (taking, ls, base)"
    by (cases "plan thread_model (ths ! t)")
  show ?thesis
  proof (cases taking)
    case True
    then obtain l where "c = acquire l" using take_lock [OF o assms(3)] pl by auto
    then show ?thesis by (cases l) auto
  next
    case False
    then show ?thesis using give_lock [OF o assms(3)] consistent_give [OF con assms(2)] pl by (metis outcome.distinct(5))
  qed
qed

text \<open>C18: The locks cannot deadlock and every request gets its turn: from every reachable state, however the
  threads are scheduled, if nothing new is begun the threads make at most \<^term>\<open>work thread_model s\<close> steps, and they can only stop
  when every thread has finished its requests and left its connection, holding no lock.\<close>

theorem requests_complete:
  assumes "reachable thread_model conns s" and "(step thread_model False ^^ n) s s'"
  shows "n + work thread_model s' \<le> work thread_model s \<and> ((\<exists>s''. step thread_model False s' s'') \<or> quiet s')"
proof -
  have "reachable thread_model conns s' \<and> n + work thread_model s' \<le> work thread_model s"
    using assms(2)
  proof (induction n arbitrary: s')
    case 0
    then show ?case using assms(1) by simp
  next
    case (Suc n)
    then obtain s1 where s1: "(step thread_model False ^^ n) s s1" "step thread_model False s1 s'" by auto
    with Suc.IH [OF s1(1)] step_work [OF s1(2)] show ?case by (auto intro: reachable.step)
  qed
  then show ?thesis using stuck_quiet reachable_consistent by (metis surj_pair)
qed

subsection \<open>A run\<close>

text \<open>
  The scheduler picks a thread, which makes its next call, or takes the \<open>k\<close>th of the ways to go on when it has
  none.
\<close>

fun schedule :: "nat \<Rightarrow> (tid \<times> nat) list \<Rightarrow> state \<Rightarrow> state option" where
  "schedule tm [] s = Some s"
| "schedule tm ((t, k) # ts) (L, ths) =
     (if t < length ths then
        case calls (ths ! t) of
          c # cs \<Rightarrow> (case exec_call t c L of Returns L' \<Rightarrow> schedule tm ts (L', ths[t := (ths ! t)\<lparr>calls := cs\<rparr>]) | _ \<Rightarrow> None)
        | [] \<Rightarrow> if k < length (next_phases tm (ths ! t)) then
                  case next_phases tm (ths ! t) ! k of
                    (new, ph, cs) \<Rightarrow> schedule tm ts (L, ths[t := (ths ! t)\<lparr>phase := ph, calls := cs\<rparr>])
                else None
      else None)"

lemma schedule_reachable:
  "reachable tm conns s \<Longrightarrow> schedule tm ts s = Some s' \<Longrightarrow> reachable tm conns s'"
proof (induction tm ts s rule: schedule.induct)
  case (2 tm t k ts L ths)
  show ?case
  proof (cases "calls (ths ! t)")
    case Nil
    obtain new ph cs where n: "next_phases tm (ths ! t) ! k = (new, ph, cs)" by (metis prod_cases3)
    with "2.prems" Nil have k: "t < length ths" "k < length (next_phases tm (ths ! t))" by (auto split: if_splits)
    then have "(new, ph, cs) \<in> set (next_phases tm (ths ! t))" using n nth_mem by metis
    with 2 Nil n k show ?thesis using reachable.step [OF "2.prems"(1) step.move [OF k(1) Nil]] by simp
  next
    case (Cons c cs)
    then obtain L' where "t < length ths" "exec_call t c L = Returns L'"
      using "2.prems"(2) by (auto split: if_splits outcome.splits)
    with 2 Cons show ?thesis using reachable.step [OF "2.prems"(1) step.call [OF _ Cons]] by simp
  qed
qed simp

text \<open>Two connections with serialised requests: the first thread gets into a request, and the second begins one and waits.\<close>

definition sample_schedule :: "(tid \<times> nat) list" where
  "sample_schedule = [(0, 0), (0, 0), (0, 0), (0, 0), (0, 0), (0, 0), (0, 0), (1, 1)]"

lemma sample_run:
  obtains L ths where "reachable 1 [Some 0, Some 1] (L, ths)" "length ths = 2" "in_request (ths ! 0)"
    "calls (ths ! 1) = [Mutex_lock All_requests_lock, Mutex_lock (Request_lock 1), Rdlock]"
proof -
  have "case schedule 1 sample_schedule (initial [Some 0, Some 1]) of None \<Rightarrow> False
      | Some (L, ths) \<Rightarrow> length ths = 2 \<and> phase (ths ! 0) = In_request Connected
          \<and> calls (ths ! 1) = [Mutex_lock All_requests_lock, Mutex_lock (Request_lock 1), Rdlock]"
    by code_simp
  then obtain L ths where r: "schedule 1 sample_schedule (initial [Some 0, Some 1]) = Some (L, ths)" "length ths = 2"
    "phase (ths ! 0) = In_request Connected" "calls (ths ! 1) = [Mutex_lock All_requests_lock, Mutex_lock (Request_lock 1), Rdlock]"
    by (auto split: option.splits)
  show ?thesis
    using schedule_reachable [OF reachable.init r(1)] r(2-) by (intro that [of L ths]) (auto simp: in_request_def)
qed

theorem request_exclusion_witness:
  "\<exists>L ths. reachable 1 [Some 0, Some 1] (L, ths) \<and> in_request (ths ! 0) \<and> \<not> in_request (ths ! 1)"
proof -
  obtain L ths where r: "reachable 1 [Some 0, Some 1] (L, ths)" "length ths = 2" "in_request (ths ! 0)"
    by (rule sample_run)
  from request_exclusion [OF r(1), of 0 1] r show ?thesis by auto
qed

theorem locks_never_abort_witness:
  "\<exists>L ths. reachable 1 [Some 0, Some 1] (L, ths) \<and> exec_call 1 (Mutex_lock All_requests_lock) L \<noteq> Aborts"
proof -
  obtain L ths where r: "reachable 1 [Some 0, Some 1] (L, ths)" "length ths = 2"
    "calls (ths ! 1) = [Mutex_lock All_requests_lock, Mutex_lock (Request_lock 1), Rdlock]"
    by (rule sample_run)
  from locks_never_abort [OF r(1) _ r(3)] r show ?thesis by auto
qed

theorem requests_complete_witness:
  "\<exists>s. reachable 1 [Some 0, Some 1] s \<and> \<not> quiet s \<and> (\<exists>s''. step 1 False s s'')"
proof -
  obtain L ths where r: "reachable 1 [Some 0, Some 1] (L, ths)" "length ths = 2"
    "calls (ths ! 1) = [Mutex_lock All_requests_lock, Mutex_lock (Request_lock 1), Rdlock]"
    by (rule sample_run)
  have "ths ! 1 \<in> set ths" using r(2) by simp
  with r(3) have "\<not> quiet (L, ths)" by (force simp: quiet_def)
  moreover have "(step 1 False ^^ 0) (L, ths) (L, ths)" by simp
  ultimately show ?thesis using requests_complete [OF r(1)] r(1) by blast
qed

end
