(* ===== verification/Bitmap.thy ===== *)
theory Bitmap
  imports Common
begin

text \<open>
  The bitmaps of \<^verbatim>\<open>src/common/bitmap\<close>: 1, 2, 4 or 8 bits for each block of a disk, packed into bytes.
  The bytes are a list whose length is the \<^verbatim>\<open>size\<close> field; \<open>alloc_ok\<close> says whether memory can be had.
\<close>

record bitmap =
  blksize :: u32
  bpb :: u8
  bitshift :: u8
  ibpb :: u8
  bm_bytes :: "u8 list"

definition bitmap_init :: "u32 \<Rightarrow> u32 \<Rightarrow> bitmap option" where
  "bitmap_init blocksize bits = do {
     c_assert (is_power_of_2 blocksize);
     shift \<leftarrow> (if bits = 1 then Some 0 else if bits = 2 then Some 1 else if bits = 4 then Some 2
              else if bits = 8 then Some 3 else None);
     Some \<lparr>blksize = blocksize, bpb = ucast bits, bitshift = shift, ibpb = ucast (8 div bits), bm_bytes = []\<rparr>
   }"

text \<open>\<^verbatim>\<open>size_t\<close> has 64 bits, so the new size always fits.\<close>

definition bitmap_resize :: "(u64 \<Rightarrow> bool) \<Rightarrow> bitmap \<Rightarrow> u64 \<Rightarrow> int \<times> bitmap" where
  "bitmap_resize alloc_ok bm new_size =
     (let new_bm_size = DIV_ROUND_UP new_size (ucast (blksize bm) * 8 div ucast (bpb bm));
          n = unat new_bm_size in
      if new_bm_size > 0 \<and> \<not> alloc_ok new_bm_size then (- 1, bm)
      else (0, bm\<lparr>bm_bytes := take n (bm_bytes bm) @ zeroes (n - length (bm_bytes bm))\<rparr>))"

definition bitmap_clear :: "bitmap \<Rightarrow> bitmap" where
  "bitmap_clear bm = bm\<lparr>bm_bytes := zeroes (length (bm_bytes bm))\<rparr>"

definition blk_offset :: "bitmap \<Rightarrow> u64 \<Rightarrow> u64" where
  "blk_offset bm blk = drop_bit (3 - unat (bitshift bm)) blk"

definition blk_bit :: "bitmap \<Rightarrow> u64 \<Rightarrow> u32" where
  "blk_bit bm blk = ucast (ucast (bpb bm) * (blk AND (ucast (ibpb bm) - 1)))"

definition blk_mask :: "bitmap \<Rightarrow> u64 \<Rightarrow> u32" where
  "blk_mask bm blk = push_bit (unat (blk_bit bm blk)) (push_bit (unat (bpb bm)) 1 - 1)"

definition bitmap_get_blk :: "bitmap \<Rightarrow> u64 \<Rightarrow> u32 \<Rightarrow> u32" where
  "bitmap_get_blk bm blk dflt =
     (if unat (blk_offset bm blk) \<ge> length (bm_bytes bm) then dflt
      else drop_bit (unat (blk_bit bm blk)) (ucast (bm_bytes bm ! unat (blk_offset bm blk)) AND blk_mask bm blk))"

definition bitmap_get :: "bitmap \<Rightarrow> u64 \<Rightarrow> u32 \<Rightarrow> u32" where
  "bitmap_get bm off dflt = bitmap_get_blk bm (off div ucast (blksize bm)) dflt"

definition bitmap_set_blk :: "bitmap \<Rightarrow> u64 \<Rightarrow> u32 \<Rightarrow> bitmap" where
  "bitmap_set_blk bm blk v =
     (let i = unat (blk_offset bm blk) in
      if i \<ge> length (bm_bytes bm) then bm
      else let x = bm_bytes bm ! i;
               x = ucast (ucast x AND NOT (blk_mask bm blk)) :: u8;
               x = ucast (ucast x OR push_bit (unat (blk_bit bm blk)) v) :: u8 in
        bm\<lparr>bm_bytes := (bm_bytes bm)[i := x]\<rparr>)"

definition bitmap_set :: "bitmap \<Rightarrow> u64 \<Rightarrow> u32 \<Rightarrow> bitmap" where
  "bitmap_set bm off v = bitmap_set_blk bm (off div ucast (blksize bm)) v"

text \<open>
  The two scanning loops of \<^verbatim>\<open>bitmap_next\<close>: \<^term>\<open>Inl blk\<close> when the loop ends at \<open>blk\<close> without a return.
\<close>

definition bitmap_limit :: "bitmap \<Rightarrow> u64" where
  "bitmap_limit bm = of_nat (length (bm_bytes bm)) * ucast (ibpb bm)"

function bitmap_scan :: "bitmap \<Rightarrow> bool \<Rightarrow> u64 \<Rightarrow> u64 + u64" where
  "bitmap_scan bm align blk =
     (if blk < bitmap_limit bm \<and> (align \<longrightarrow> blk AND (ucast (ibpb bm) - 1) \<noteq> 0) then
        if bitmap_get_blk bm blk 0 \<noteq> 0 then Inr blk else bitmap_scan bm align (blk + 1)
      else Inl blk)"
  by pat_completeness auto
termination
proof (relation "measure (\<lambda>(bm, align, blk). unat (bitmap_limit bm) - unat blk)", simp, clarsimp)
  fix bm :: bitmap and blk :: u64 assume "blk < bitmap_limit bm"
  then show "unat (bitmap_limit bm) - unat (blk + 1) < unat (bitmap_limit bm) - unat blk"
    using unat_u64_less [of "bitmap_limit bm"] by (simp add: word_less_nat_alt unat_word_ariths)
qed

declare bitmap_scan.simps [simp del]

text \<open>
  \<^term>\<open>None\<close> is the abort, or an access outside of the bitmap; \<^term>\<open>Some None\<close> is \<^verbatim>\<open>-1\<close>.
\<close>

definition bitmap_next :: "bitmap \<Rightarrow> u64 \<Rightarrow> u64 option option" where
  "bitmap_next bm blk =
     (case bitmap_scan bm True blk of
        Inr blk \<Rightarrow> Some (Some blk)
      | Inl blk \<Rightarrow>
          if blk = bitmap_limit bm then Some None
          else do {
            let p = unat (drop_bit (3 - unat (bitshift bm)) blk);
            c_assert (p \<le> length (bm_bytes bm));
            (case next_non_zero (drop p (bm_bytes bm)) of
               None \<Rightarrow> Some None
             | Some i \<Rightarrow>
                 (case bitmap_scan bm False (push_bit (3 - unat (bitshift bm)) (of_nat (p + i))) of
                    Inr blk \<Rightarrow> Some (Some blk)
                  | Inl _ \<Rightarrow> None))
          })"

subsection \<open>Blocks as values\<close>

text \<open>The well-formed bitmaps, for which the table of \<^verbatim>\<open>bitmap.h\<close> holds.\<close>

definition wf_bitmap :: "bitmap \<Rightarrow> bool" where
  "wf_bitmap bm \<longleftrightarrow> is_power_of_2 (blksize bm) \<and> unat (bitshift bm) \<le> 3 \<and> unat (bpb bm) = 2 ^ unat (bitshift bm)
     \<and> unat (ibpb bm) = 2 ^ (3 - unat (bitshift bm)) \<and> length (bm_bytes bm) < 2 ^ 60"

lemma wf_bitmap_cases:
  assumes "wf_bitmap bm"
  obtains "bitshift bm = 0" "bpb bm = 1" "ibpb bm = 8" | "bitshift bm = 1" "bpb bm = 2" "ibpb bm = 4"
    | "bitshift bm = 2" "bpb bm = 4" "ibpb bm = 2" | "bitshift bm = 3" "bpb bm = 8" "ibpb bm = 1"
proof -
  have s: "unat (bitshift bm) \<in> {0, 1, 2, 3}" using assms by (auto simp: wf_bitmap_def)
  then show thesis
    using assms that by (auto simp: wf_bitmap_def word_unat_eq_iff)
qed

lemma bitmap_init_wf: "bitmap_init blocksize bits = Some bm \<Longrightarrow> wf_bitmap bm \<and> bm_bytes bm = []"
  by (auto simp: bitmap_init_def wf_bitmap_def split: if_splits)

text \<open>Where a block is: its byte and its first bit there.\<close>

definition per_byte :: "bitmap \<Rightarrow> nat" where "per_byte bm = unat (ibpb bm)"

lemma blk_place:
  assumes "wf_bitmap bm"
  shows "unat (blk_offset bm blk) = unat blk div per_byte bm"
    and "unat (blk_bit bm blk) = unat (bpb bm) * (unat blk mod per_byte bm)"
    and "unat (bpb bm) * per_byte bm = 8" and "0 < per_byte bm" "0 < unat (bpb bm)"
    and "unat (bitmap_limit bm) = length (bm_bytes bm) * per_byte bm"
proof -
  have m: "unat (blk AND 7) = unat blk mod 8" "unat (blk AND 3) = unat blk mod 4" "unat (blk AND 1) = unat blk mod 2"
    using unat_and_exp_minus_1 [of blk 3] unat_and_exp_minus_1 [of blk 2] unat_and_exp_minus_1 [of blk 1] by simp_all
  have l: "length (bm_bytes bm) < 2 ^ 60" using assms by (simp add: wf_bitmap_def)
  have d: "unat blk div k mod 18446744073709551616 = unat blk div k" for k
    using unat_u64_less [of blk] by (simp add: le_less_trans [OF div_le_dividend])
  have e: "unat blk mod 18446744073709551616 = unat blk" using d [of 1] by simp
  have "unat blk mod 8 < 8" "unat blk mod 4 < 4" "unat blk mod 2 < 2" by simp_all
  then show "unat (blk_offset bm blk) = unat blk div per_byte bm"
    "unat (blk_bit bm blk) = unat (bpb bm) * (unat blk mod per_byte bm)"
    "unat (bpb bm) * per_byte bm = 8" "0 < per_byte bm" "0 < unat (bpb bm)"
    "unat (bitmap_limit bm) = length (bm_bytes bm) * per_byte bm"
    using assms m l d e
    by (auto elim!: wf_bitmap_cases simp: blk_offset_def blk_bit_def per_byte_def bitmap_limit_def unat_drop_bit_eq
        unat_ucast_down unat_word_ariths unat_of_nat drop_bit_eq_div)
qed

lemma bit_blk_mask:
  assumes "wf_bitmap bm"
  shows "bit (blk_mask bm blk) i \<longleftrightarrow> unat (blk_bit bm blk) \<le> i \<and> i < unat (blk_bit bm blk) + unat (bpb bm) \<and> i < 32"
proof -
  have "push_bit (unat (bpb bm)) 1 - 1 = (mask (unat (bpb bm)) :: u32)" by (simp add: mask_eq_exp_minus_1 push_bit_eq_mult)
  then show ?thesis by (auto simp: blk_mask_def bit_simps)
qed

lemma blk_bits_in_byte:
  assumes "wf_bitmap bm"
  shows "unat (blk_bit bm blk) + unat (bpb bm) \<le> 8"
proof -
  have "unat (bpb bm) * (unat blk mod per_byte bm + 1) \<le> unat (bpb bm) * per_byte bm"
    using blk_place(4) [OF assms] by (intro mult_le_mono2) (simp add: Suc_le_eq)
  then show ?thesis using blk_place [OF assms] by simp
qed

lemma bit_bitmap_get_blk:
  assumes "wf_bitmap bm" and "unat blk div per_byte bm < length (bm_bytes bm)"
  shows "bit (bitmap_get_blk bm blk dflt) j \<longleftrightarrow> j < unat (bpb bm)
    \<and> bit (bm_bytes bm ! (unat blk div per_byte bm)) (unat (bpb bm) * (unat blk mod per_byte bm) + j)"
  using assms blk_bits_in_byte [OF assms(1), of blk]
  by (auto simp: bitmap_get_blk_def blk_place(1,2) [OF assms(1)] bit_simps bit_blk_mask [OF assms(1)] not_le
      dest: bit_imp_le_length)

lemma bitmap_get_blk_out:
  "wf_bitmap bm \<Longrightarrow> length (bm_bytes bm) \<le> unat blk div per_byte bm \<Longrightarrow> bitmap_get_blk bm blk dflt = dflt"
  by (simp add: bitmap_get_blk_def blk_place)

lemma wf_bitmap_set_blk:
  assumes "wf_bitmap bm"
  shows "wf_bitmap (bitmap_set_blk bm blk v)" "per_byte (bitmap_set_blk bm blk v) = per_byte bm"
    "bpb (bitmap_set_blk bm blk v) = bpb bm" "length (bm_bytes (bitmap_set_blk bm blk v)) = length (bm_bytes bm)"
  using assms by (auto simp: bitmap_set_blk_def wf_bitmap_def per_byte_def Let_def)

lemma value_bits:
  assumes "unat v < 2 ^ b" and "b \<le> n"
  shows "\<not> bit (v :: u32) n"
proof -
  have "take_bit b v = v" using assms(1) by (simp add: word_unat_eq_iff unat_take_bit)
  then show ?thesis using assms(2) by (metis bit_take_bit_iff not_less)
qed

lemma slot_unique: "j < b \<Longrightarrow> b * m \<le> b * m' + j \<Longrightarrow> b * m' + j < b * m + b \<Longrightarrow> m' = m" for b :: nat
proof -
  assume a: "j < b" "b * m \<le> b * m' + j" "b * m' + j < b * m + b"
  then have "b * m < b * (m' + 1)" "b * m' < b * (m + 1)" by simp_all
  then have "m < m' + 1" "m' < m + 1" by (simp_all only: mult_less_cancel1)
  then show ?thesis by simp
qed

text \<open>The bits of the byte that holds a block, after the block was set.\<close>

lemma bit_set_byte:
  assumes "wf_bitmap bm" and "unat blk div per_byte bm < length (bm_bytes bm)" and "unat v < 2 ^ unat (bpb bm)" and "k < 8"
  shows "bit (bm_bytes (bitmap_set_blk bm blk v) ! (unat blk div per_byte bm)) k \<longleftrightarrow>
    (if unat (bpb bm) * (unat blk mod per_byte bm) \<le> k \<and> k < unat (bpb bm) * (unat blk mod per_byte bm) + unat (bpb bm)
     then bit v (k - unat (bpb bm) * (unat blk mod per_byte bm)) else bit (bm_bytes bm ! (unat blk div per_byte bm)) k)"
proof -
  note v = value_bits [OF assms(3)]
  show ?thesis
    using assms v blk_bits_in_byte [OF assms(1), of blk]
    by (auto simp: bitmap_set_blk_def blk_place(1,2) [OF assms(1)] bit_simps bit_blk_mask [OF assms(1)] Let_def)
qed

lemma bitmap_get_set_blk:
  assumes "wf_bitmap bm" and "unat v < 2 ^ unat (bpb bm)"
  shows "bitmap_get_blk (bitmap_set_blk bm blk v) blk' dflt
    = (if blk' = blk \<and> blk < bitmap_limit bm then v else bitmap_get_blk bm blk' dflt)"
proof (cases "unat blk div per_byte bm < length (bm_bytes bm)")
  case False
  then have "bitmap_set_blk bm blk v = bm" using blk_place(1) [OF assms(1)] by (simp add: bitmap_set_blk_def)
  moreover have "\<not> blk < bitmap_limit bm"
    using False blk_place(4,6) [OF assms(1)] by (simp add: word_less_nat_alt div_less_iff_less_mult)
  ultimately show ?thesis by simp
next
  case inr: True
  note w = wf_bitmap_set_blk [OF assms(1), of blk v]
  have lim: "blk < bitmap_limit bm" using inr blk_place(4,6) [OF assms(1)] by (simp add: word_less_nat_alt div_less_iff_less_mult)
  show ?thesis
  proof (cases "unat blk' div per_byte bm < length (bm_bytes bm)")
    case False
    with inr w show ?thesis by (auto simp: bitmap_get_blk_out [OF assms(1)] bitmap_get_blk_out [OF w(1)])
  next
    case True
    have eq: "blk' = blk \<longleftrightarrow> unat blk' div per_byte bm = unat blk div per_byte bm \<and> unat blk' mod per_byte bm = unat blk mod per_byte bm"
      by (metis div_mod_decomp word_unat_eq_iff)
    let ?b = "unat (bpb bm)" and ?m = "unat blk mod per_byte bm" and ?m' = "unat blk' mod per_byte bm"
    have in8: "?b * ?m' + j < 8" if "j < ?b" for j
      using that blk_bits_in_byte [OF assms(1), of blk'] blk_place(2) [OF assms(1), of blk'] by simp
    have "bit (bitmap_get_blk (bitmap_set_blk bm blk v) blk' dflt) j \<longleftrightarrow>
        bit (if blk' = blk then v else bitmap_get_blk bm blk' dflt) j" for j
    proof (cases "j < ?b")
      case False
      then have "\<not> bit v j" using value_bits [OF assms(2)] by simp
      with False show ?thesis using True w by (simp add: bit_bitmap_get_blk [OF w(1)] bit_bitmap_get_blk [OF assms(1)])
    next
      case j: True
      show ?thesis
      proof (cases "unat blk' div per_byte bm = unat blk div per_byte bm")
        case True
        have "?b * ?m \<le> ?b * ?m' + j \<and> ?b * ?m' + j < ?b * ?m + ?b \<longleftrightarrow> ?m' = ?m" using slot_unique j by fastforce
        with True eq j inr w in8 [OF j] show ?thesis
          by (auto simp: bit_bitmap_get_blk [OF w(1)] bit_bitmap_get_blk [OF assms(1)] bit_set_byte [OF assms(1) inr assms(2)])
      next
        case False
        then have "bm_bytes (bitmap_set_blk bm blk v) ! (unat blk' div per_byte bm) = bm_bytes bm ! (unat blk' div per_byte bm)"
          by (simp add: bitmap_set_blk_def blk_place(1) [OF assms(1)] Let_def)
        with False eq True w show ?thesis by (simp add: bit_bitmap_get_blk [OF w(1)] bit_bitmap_get_blk [OF assms(1)])
      qed
    qed
    with lim show ?thesis by (auto intro: bit_word_eqI)
  qed
qed

subsection \<open>Searching\<close>

definition clear_between :: "bitmap \<Rightarrow> u64 \<Rightarrow> u64 \<Rightarrow> bool" where
  "clear_between bm a b \<longleftrightarrow> (\<forall>k. a \<le> k \<and> k < b \<longrightarrow> bitmap_get_blk bm k 0 = 0)"

lemma clear_between_trans: "clear_between bm a b \<Longrightarrow> clear_between bm b c \<Longrightarrow> clear_between bm a c"
  by (auto simp: clear_between_def not_less) (metis not_le)

lemma clear_between_step:
  assumes "bitmap_get_blk bm a 0 = 0" and "clear_between bm (a + 1) b" and "a < b"
  shows "clear_between bm a b"
proof -
  have "k = a \<or> a + 1 \<le> k" if "a \<le> k" for k
    using that by (metis inc_le order_le_less)
  with assms show ?thesis by (auto simp: clear_between_def)
qed

lemma bitmap_scan_ok:
  "blk \<le> bitmap_limit bm \<Longrightarrow>
     (case bitmap_scan bm align blk of
        Inr n \<Rightarrow> blk \<le> n \<and> n < bitmap_limit bm \<and> bitmap_get_blk bm n 0 \<noteq> 0 \<and> clear_between bm blk n
      | Inl n \<Rightarrow> blk \<le> n \<and> n \<le> bitmap_limit bm \<and> clear_between bm blk n
          \<and> (n < bitmap_limit bm \<longrightarrow> align \<and> n AND (ucast (ibpb bm) - 1) = 0))"
proof (induction bm align blk rule: bitmap_scan.induct)
  case (1 bm align blk)
  let ?go = "blk < bitmap_limit bm \<and> (align \<longrightarrow> blk AND (ucast (ibpb bm) - 1) \<noteq> 0)"
  have refl: "clear_between bm blk blk" by (auto simp: clear_between_def)
  show ?case
  proof (cases "?go \<and> bitmap_get_blk bm blk 0 = 0")
    case True
    have "unat (blk + 1) = unat blk + 1"
      using True unat_u64_less [of "bitmap_limit bm"] by (simp add: word_less_nat_alt unat_word_ariths)
    with True have n: "blk < blk + 1" "blk + 1 \<le> bitmap_limit bm" by (simp_all add: word_less_nat_alt word_le_nat_alt)
    from "1.IH" [OF _ _ n(2)] True have ih: "case bitmap_scan bm align (blk + 1) of
        Inr n \<Rightarrow> blk + 1 \<le> n \<and> n < bitmap_limit bm \<and> bitmap_get_blk bm n 0 \<noteq> 0 \<and> clear_between bm (blk + 1) n
      | Inl n \<Rightarrow> blk + 1 \<le> n \<and> n \<le> bitmap_limit bm \<and> clear_between bm (blk + 1) n
          \<and> (n < bitmap_limit bm \<longrightarrow> align \<and> n AND (ucast (ibpb bm) - 1) = 0)" by blast
    have le: "blk \<le> k \<and> clear_between bm blk k" if "blk + 1 \<le> k" "clear_between bm (blk + 1) k" for k
      using clear_between_step [of bm blk k] that True n(1) by auto
    have "bitmap_scan bm align blk = bitmap_scan bm align (blk + 1)"
      using True by (subst bitmap_scan.simps) simp
    with ih le show ?thesis by (auto split: sum.splits)
  next
    case False
    then show ?thesis using refl "1.prems" by (subst bitmap_scan.simps) (auto simp: not_less)
  qed
qed

text \<open>A byte is zero exactly when all its blocks are.\<close>

lemma zero_byte:
  assumes "wf_bitmap bm" and "i < length (bm_bytes bm)"
  shows "bm_bytes bm ! i = 0 \<longleftrightarrow> (\<forall>k. unat k div per_byte bm = i \<longrightarrow> bitmap_get_blk bm k 0 = 0)"
proof
  assume z: "bm_bytes bm ! i = 0"
  show "\<forall>k. unat k div per_byte bm = i \<longrightarrow> bitmap_get_blk bm k 0 = 0"
  proof (intro allI impI bit_word_eqI)
    fix k :: u64 and j assume "unat k div per_byte bm = i"
    with z assms(2) show "bit (bitmap_get_blk bm k 0) j = bit (0 :: u32) j" by (simp add: bit_bitmap_get_blk [OF assms(1)])
  qed
next
  assume all: "\<forall>k. unat k div per_byte bm = i \<longrightarrow> bitmap_get_blk bm k 0 = 0"
  show "bm_bytes bm ! i = 0"
  proof (rule bit_word_eqI)
    fix n assume "n < LENGTH(8)"
    then have n: "n < unat (bpb bm) * per_byte bm" using blk_place(3) [OF assms(1)] by simp
    let ?m = "n div unat (bpb bm)"
    have b: "0 < unat (bpb bm)" by (rule blk_place(5) [OF assms(1)])
    have m: "?m < per_byte bm" using n by (simp add: div_less_iff_less_mult b mult.commute)
    have pb: "per_byte bm \<le> 8" using blk_place(3,5) [OF assms(1)] by (metis b mult_le_mono1 nat_mult_1 Suc_leI One_nat_def)
    define k where "k = i * per_byte bm + ?m"
    have "i * per_byte bm \<le> 2 ^ 60 * 8" using assms pb by (intro mult_le_mono) (auto simp: wf_bitmap_def)
    then have "k < 2 ^ 64" using m pb by (simp add: k_def)
    then have u: "unat (of_nat k :: u64) = k" by (simp add: unat_of_nat)
    have d: "k div per_byte bm = i" "k mod per_byte bm = ?m" using m by (simp_all add: k_def)
    have "bitmap_get_blk bm (of_nat k) 0 = 0" using all u d(1) by simp
    then have "\<not> bit (bitmap_get_blk bm (of_nat k) 0) (n mod unat (bpb bm))" by simp
    moreover have "unat (bpb bm) * ?m + n mod unat (bpb bm) = n" by simp
    ultimately show "bit (bm_bytes bm ! i) n = bit (0 :: u8) n"
      using assms(2) u d b by (simp add: bit_bitmap_get_blk [OF assms(1)])
  qed
qed

lemma limit_bytes:
  "wf_bitmap bm \<Longrightarrow> k < bitmap_limit bm \<longleftrightarrow> unat k div per_byte bm < length (bm_bytes bm)"
  using blk_place(4,6) [of bm] by (simp add: word_less_nat_alt div_less_iff_less_mult)

lemma aligned_mod:
  assumes "wf_bitmap bm" and "blk AND (ucast (ibpb bm) - 1) = (0 :: u64)"
  shows "unat blk mod per_byte bm = 0"
proof -
  have "unat (blk AND 7) = unat blk mod 8" "unat (blk AND 3) = unat blk mod 4" "unat (blk AND 1) = unat blk mod 2"
    using unat_and_exp_minus_1 [of blk 3] unat_and_exp_minus_1 [of blk 2] unat_and_exp_minus_1 [of blk 1] by simp_all
  with assms show ?thesis by (auto elim!: wf_bitmap_cases simp: per_byte_def)
qed

lemma unat_push_byte:
  assumes "wf_bitmap bm" and "q \<le> length (bm_bytes bm)"
  shows "unat (push_bit (3 - unat (bitshift bm)) (of_nat q :: u64)) = q * per_byte bm"
proof -
  have "q < 2 ^ 60" using assms by (simp add: wf_bitmap_def)
  with assms(1) show ?thesis
    by (auto elim!: wf_bitmap_cases simp: per_byte_def push_bit_eq_mult unat_word_ariths unat_of_nat)
qed

lemma zero_bytes_clear:
  assumes "wf_bitmap bm" and "unat n = p * per_byte bm" and "\<forall>i < q. bm_bytes bm ! (p + i) = 0"
    and "unat m \<le> (p + q) * per_byte bm" and "p + q \<le> length (bm_bytes bm)"
  shows "clear_between bm n m"
  unfolding clear_between_def
proof (intro allI impI)
  fix k assume "n \<le> k \<and> k < m"
  then have "p * per_byte bm \<le> unat k" "unat k < (p + q) * per_byte bm"
    using assms(2,4) by (auto simp: word_le_nat_alt word_less_nat_alt)
  then have d: "p \<le> unat k div per_byte bm" "unat k div per_byte bm < p + q"
    using blk_place(4) [OF assms(1)] by (simp_all add: less_eq_div_iff_mult_less_eq div_less_iff_less_mult)
  then have "bm_bytes bm ! (unat k div per_byte bm) = 0" using assms(3) by (metis add_less_cancel_left le_Suc_ex)
  then show "bitmap_get_blk bm k 0 = 0" using d zero_byte [OF assms(1), of "unat k div per_byte bm"] assms(5) by simp
qed

lemma bitmap_next_byte:
  assumes "wf_bitmap bm" and "q < length (bm_bytes bm)" and "bm_bytes bm ! q \<noteq> 0"
    and "unat start = q * per_byte bm"
  shows "\<exists>n. bitmap_scan bm False start = Inr n \<and> start \<le> n \<and> n < bitmap_limit bm \<and> bitmap_get_blk bm n 0 \<noteq> 0
    \<and> clear_between bm start n"
proof -
  obtain k where k: "unat k div per_byte bm = q" "bitmap_get_blk bm k 0 \<noteq> 0"
    using zero_byte [OF assms(1,2)] assms(3) by auto
  have "q * per_byte bm \<le> unat k" using k(1) by (metis div_times_less_eq_dividend)
  then have ge: "start \<le> k" using assms(4) by (simp add: word_le_nat_alt)
  have kl: "k < bitmap_limit bm" using k assms(2) by (simp add: limit_bytes [OF assms(1)])
  have "start \<le> bitmap_limit bm" using ge kl by simp
  from bitmap_scan_ok [OF this, of False] ge kl k(2) show ?thesis
    by (auto simp: clear_between_def split: sum.splits)
qed

lemma ceiling_covers: "0 < d \<Longrightarrow> n \<le> (n + d - 1) div d * d" for n d :: nat
proof -
  assume "0 < d"
  then have "n + d - 1 - (n + d - 1) mod d \<ge> n" using mod_less_divisor [of d "n + d - 1"] by linarith
  then show ?thesis by (simp add: minus_mod_eq_div_mult)
qed

lemma DIV_ROUND_UP_unat:
  "0 < unat d \<Longrightarrow> unat n + unat d \<le> 2 ^ 64 \<Longrightarrow> unat (DIV_ROUND_UP n d) = (unat n + unat d - 1) div unat d" for n d :: u64
proof -
  assume a: "0 < unat d" "unat n + unat d \<le> 2 ^ 64"
  have "unat (d - 1) = unat d - 1" using a(1) by (simp add: unat_sub word_le_nat_alt)
  then have "unat (n + (d - 1)) = unat n + unat d - 1" using a by (simp add: unat_word_ariths)
  then show ?thesis by (simp add: DIV_ROUND_UP_def unat_div add_diff_eq)
qed

subsection \<open>Properties\<close>

text \<open>C20: Reading a block of a bitmap after setting one returns the value set if it is that block, and otherwise what it
  returned before; blocks outside the bitmap are ignored on setting and read as the default.\<close>

theorem bitmap_get_set:
  assumes "wf_bitmap bm" and "unat v < 2 ^ unat (bpb bm)"
  shows "wf_bitmap (bitmap_set_blk bm blk v) \<and>
    bitmap_get_blk (bitmap_set_blk bm blk v) blk' dflt
      = (if blk' = blk \<and> blk < bitmap_limit bm then v else bitmap_get_blk bm blk' dflt)"
  using bitmap_get_set_blk [OF assms] wf_bitmap_set_blk(1) [OF assms(1)] by simp

text \<open>C21: \<^verbatim>\<open>bitmap_next\<close> returns the first block at or after the start, up to the limit of the bitmap, that is not zero, and
  \<^verbatim>\<open>-1\<close> exactly when there is none; it never reaches its \<^verbatim>\<open>abort\<close>.\<close>

theorem bitmap_next_first:
  assumes "wf_bitmap bm" and "blk \<le> bitmap_limit bm"
  shows "case bitmap_next bm blk of None \<Rightarrow> False
    | Some None \<Rightarrow> clear_between bm blk (bitmap_limit bm)
    | Some (Some n) \<Rightarrow> blk \<le> n \<and> n < bitmap_limit bm \<and> bitmap_get_blk bm n 0 \<noteq> 0 \<and> clear_between bm blk n"
proof (cases "bitmap_scan bm True blk")
  case (Inr n)
  with bitmap_scan_ok [OF assms(2), of True] show ?thesis by (simp add: bitmap_next_def)
next
  case (Inl n)
  with bitmap_scan_ok [OF assms(2), of True] have n: "blk \<le> n" "n \<le> bitmap_limit bm" "clear_between bm blk n"
    "n < bitmap_limit bm \<Longrightarrow> n AND (ucast (ibpb bm) - 1) = 0" by auto
  show ?thesis
  proof (cases "n = bitmap_limit bm")
    case True
    with Inl n show ?thesis by (simp add: bitmap_next_def)
  next
    case False
    with n have lt: "n < bitmap_limit bm" by simp
    define p where "p = unat n div per_byte bm"
    have p: "p < length (bm_bytes bm)" "unat n = p * per_byte bm"
      using lt aligned_mod [OF assms(1) n(4) [OF lt]] by (auto simp: limit_bytes [OF assms(1)] p_def)
    have off: "unat (drop_bit (3 - unat (bitshift bm)) n) = p"
      using blk_place(1) [OF assms(1), of n] by (simp add: blk_offset_def p_def)
    note clr = zero_bytes_clear [OF assms(1) p(2)]
    show ?thesis
    proof (cases "next_non_zero (drop p (bm_bytes bm))")
      case None
      then have "\<forall>i < length (bm_bytes bm) - p. bm_bytes bm ! (p + i) = 0"
        by (auto simp: next_non_zero_None all_set_conv_all_nth)
      then have "clear_between bm n (bitmap_limit bm)" using clr p(1) blk_place(6) [OF assms(1)] by fastforce
      with None Inl False off p n(3) show ?thesis by (auto simp: bitmap_next_def intro: clear_between_trans)
    next
      case (Some i)
      then have i: "p + i < length (bm_bytes bm)" "bm_bytes bm ! (p + i) \<noteq> 0" "\<forall>j < i. bm_bytes bm ! (p + j) = 0"
        using p(1) by (auto simp: next_non_zero_Some)
      let ?s = "push_bit (3 - unat (bitshift bm)) (of_nat (p + i)) :: u64"
      have u: "unat ?s = (p + i) * per_byte bm" using unat_push_byte [OF assms(1), of "p + i"] i(1) by simp
      obtain m where m: "bitmap_scan bm False ?s = Inr m" "?s \<le> m" "m < bitmap_limit bm" "bitmap_get_blk bm m 0 \<noteq> 0" "clear_between bm ?s m"
        using bitmap_next_byte [OF assms(1) i(1,2) u] by blast
      have "clear_between bm n ?s" using clr [of i ?s] i u by simp
      moreover have "n \<le> ?s" using u p(2) by (simp add: word_le_nat_alt add_mult_distrib)
      ultimately show ?thesis
        using Some Inl False off p n(1,3) m by (auto simp: bitmap_next_def intro: clear_between_trans)
    qed
  qed
qed

text \<open>C22: Resizing a bitmap makes it cover the new size of the disk, keeps the values of the blocks it covered before, and
  gives zero to the new ones.\<close>

theorem bitmap_resize_keeps:
  assumes "wf_bitmap bm" and "unat new_size < 2 ^ 59" and "\<And>n. alloc_ok n"
  shows "\<exists>bm'. bitmap_resize alloc_ok bm new_size = (0, bm') \<and> wf_bitmap bm'
    \<and> unat new_size \<le> unat (bitmap_limit bm') * unat (blksize bm')
    \<and> (\<forall>k < bitmap_limit bm'. bitmap_get_blk bm' k 0 = (if k < bitmap_limit bm then bitmap_get_blk bm k 0 else 0))"
proof -
  let ?d = "ucast (blksize bm) * 8 div ucast (bpb bm) :: u64"
  let ?q = "unat (DIV_ROUND_UP new_size ?d)"
  define bm' where "bm' = bm\<lparr>bm_bytes := take ?q (bm_bytes bm) @ zeroes (?q - length (bm_bytes bm))\<rparr>"
  have len: "length (bm_bytes bm') = ?q" by (simp add: bm'_def)
  have bs: "0 < unat (blksize bm)" "unat (blksize bm) < 2 ^ 32"
    using assms(1) unat_u32_less by (auto simp: wf_bitmap_def is_power_of_2_unat)
  have d: "unat ?d = unat (blksize bm) * per_byte bm"
    using assms(1) bs by (auto elim!: wf_bitmap_cases simp: per_byte_def unat_div unat_word_ariths unat_ucast_up)
  moreover have "per_byte bm \<le> 8" using assms(1) by (auto elim!: wf_bitmap_cases simp: per_byte_def)
  ultimately have d': "0 < unat ?d" "unat ?d \<le> 2 ^ 35"
    using bs blk_place(4) [OF assms(1)] mult_le_mono [of "unat (blksize bm)" "2 ^ 32" "per_byte bm" 8] by simp_all
  have q: "?q = (unat new_size + unat ?d - 1) div unat ?d"
    using DIV_ROUND_UP_unat [of ?d new_size] assms(2) d' by simp
  have cov: "unat new_size \<le> ?q * unat ?d" unfolding q using d'(1) by (rule ceiling_covers)
  have "unat new_size + unat ?d - 1 < 2 ^ 60" using assms(2) d'(2) by simp
  then have "?q < 2 ^ 60" unfolding q by (rule le_less_trans [OF div_le_dividend])
  then have wf': "wf_bitmap bm'" using assms(1) len by (simp add: wf_bitmap_def bm'_def)
  have pb: "per_byte bm' = per_byte bm" "blksize bm' = blksize bm" by (simp_all add: per_byte_def bm'_def)
  have vals: "bitmap_get_blk bm' k 0 = (if k < bitmap_limit bm then bitmap_get_blk bm k 0 else 0)" if "k < bitmap_limit bm'" for k
  proof -
    let ?i = "unat k div per_byte bm"
    have i: "?i < ?q" using that len pb by (simp add: limit_bytes [OF wf'])
    have byte: "bm_bytes bm' ! ?i = (if ?i < length (bm_bytes bm) then bm_bytes bm ! ?i else 0)"
      using i by (auto simp: bm'_def nth_append min_def)
    have bp: "bpb bm' = bpb bm" by (simp add: bm'_def)
    show ?thesis
    proof (cases "?i < length (bm_bytes bm)")
      case True
      then have "bitmap_get_blk bm' k 0 = bitmap_get_blk bm k 0"
        using byte i len pb bp by (intro bit_word_eqI) (simp add: bit_bitmap_get_blk [OF wf'] bit_bitmap_get_blk [OF assms(1)])
      with True show ?thesis by (simp add: limit_bytes [OF assms(1)])
    next
      case False
      then show ?thesis using byte i len pb zero_byte [OF wf', of ?i] by (simp add: limit_bytes [OF assms(1)])
    qed
  qed
  have "unat (bitmap_limit bm') * unat (blksize bm') = ?q * unat ?d"
    unfolding d blk_place(6) [OF wf'] len pb by (simp only: ac_simps)
  moreover have "bitmap_resize alloc_ok bm new_size = (0, bm')" using assms(3) by (simp add: bitmap_resize_def bm'_def Let_def)
  ultimately show ?thesis using wf' cov vals by (intro exI [of _ bm']) simp
qed

subsection \<open>Witnesses\<close>

definition sample_bitmap :: bitmap where
  "sample_bitmap = \<lparr>blksize = 512, bpb = 2, bitshift = 1, ibpb = 4, bm_bytes = [0, 0x0c]\<rparr>"

lemma sample_bitmap_wf: "wf_bitmap sample_bitmap"
  by (simp add: wf_bitmap_def sample_bitmap_def is_power_of_2_def)

theorem bitmap_get_set_witness:
  "bitmap_get_blk (bitmap_set_blk sample_bitmap 6 3) 6 0 = 3 \<and> bitmap_get_blk (bitmap_set_blk sample_bitmap 6 3) 5 0 = 3"
  using bitmap_get_set [OF sample_bitmap_wf, of 3 6 6 0] bitmap_get_set [OF sample_bitmap_wf, of 3 6 5 0]
  by (simp add: sample_bitmap_def bitmap_limit_def bitmap_get_blk_def blk_offset_def blk_bit_def blk_mask_def)

theorem bitmap_next_first_witness: "\<exists>n. bitmap_next sample_bitmap 1 = Some (Some n) \<and> n = 5 \<and> clear_between sample_bitmap 1 n"
proof -
  have "bitmap_next sample_bitmap 1 = Some (Some 5)" by code_simp
  moreover have "(1 :: u64) \<le> bitmap_limit sample_bitmap" by code_simp
  ultimately show ?thesis using bitmap_next_first [OF sample_bitmap_wf, of 1] by simp
qed

theorem bitmap_resize_keeps_witness:
  "\<exists>bm'. bitmap_resize (\<lambda>_. True) sample_bitmap 10000 = (0, bm') \<and> 10000 \<le> unat (bitmap_limit bm') * unat (blksize bm')"
  using bitmap_resize_keeps [OF sample_bitmap_wf, of 10000 "\<lambda>_. True"] by auto

end
