(* ===== verification/Regions.thy ===== *)
theory Regions
  imports Common Vector
begin

text \<open>
  The regions of \<^verbatim>\<open>src/common/regions\<close>: a virtual disk cut into contiguous pieces, each backed by a file, by data in
  memory or by zeroes.  The type and the union of a region are one datatype.  A data region holds a pointer, of the type
  \<^typ>\<open>'p\<close> of the plugin's buffers.  \<^verbatim>\<open>virtual_size\<close> is kept as the unsigned value that all its callers but the last
  convert it to.  Memory allocation succeeds; \<^term>\<open>None\<close> is a failed assertion.
\<close>

datatype 'p region_type = region_file nat | region_data 'p | region_zero

record 'p region =
  r_start :: u64
  r_len :: u64
  r_end :: u64
  r_type :: "'p region_type"
  r_description :: string

type_synonym 'p regions = "'p region list"

definition init_regions :: "'p regions" where
  "init_regions = []"

definition nr_regions :: "'p regions \<Rightarrow> nat" where
  "nr_regions rs = length rs"

definition virtual_size :: "'p regions \<Rightarrow> u64" where
  "virtual_size rs = (if length rs = 0 then 0 else r_end (rs ! (length rs - 1)) + 1)"

definition compare_offset :: "u64 \<Rightarrow> 'p region \<Rightarrow> int" where
  "compare_offset off rg = (if off < r_start rg then - 1 else if off > r_end rg then 1 else 0)"

definition find_region :: "'p regions \<Rightarrow> u64 \<Rightarrow> 'p region option" where
  "find_region rs off = map_option (\<lambda>i. rs ! i) (vector_search (compare_offset off) rs)"

definition append_one_region :: "'p regions \<Rightarrow> 'p region \<Rightarrow> 'p regions option" where
  "append_one_region rs rg = do {
     c_assert (r_start rg = virtual_size rs);
     c_assert (r_len rg > 0);
     c_assert (r_end rg \<ge> r_start rg);
     c_assert (r_len rg = r_end rg - r_start rg + 1);
     vector_append rs rg
   }"

definition append_padding :: "'p regions \<Rightarrow> u64 \<Rightarrow> 'p regions option" where
  "append_padding rs alignment = do {
     c_assert (is_power_of_2 alignment);
     let start = virtual_size rs;
     aligned \<leftarrow> IS_ALIGNED start alignment;
     if aligned then Some rs
     else let end = (start AND NOT (alignment - 1)) + alignment - 1 in
       append_one_region rs \<lparr>r_start = start, r_len = end - start + 1, r_end = end, r_type = region_zero,
         r_description = ''padding''\<rparr>
   }"

definition append_alignment :: "'p regions \<Rightarrow> u64 \<Rightarrow> 'p regions option" where
  "append_alignment rs alignment =
     (if alignment \<noteq> 0 then do {
        rs \<leftarrow> append_padding rs alignment;
        aligned \<leftarrow> IS_ALIGNED (virtual_size rs) alignment;
        c_assert aligned;
        Some rs
      } else Some rs)"

definition append_region_va :: "'p regions \<Rightarrow> string \<Rightarrow> u64 \<Rightarrow> u64 \<Rightarrow> u64 \<Rightarrow> 'p region_type \<Rightarrow> 'p regions option" where
  "append_region_va rs description len pre_alignment post_alignment ty = do {
     rs \<leftarrow> append_alignment rs pre_alignment;
     let start = virtual_size rs;
     rs \<leftarrow> append_one_region rs \<lparr>r_start = start, r_len = len, r_end = start + len - 1, r_type = ty,
       r_description = description\<rparr>;
     append_alignment rs post_alignment
   }"

definition append_region_len :: "'p regions \<Rightarrow> string \<Rightarrow> u64 \<Rightarrow> u64 \<Rightarrow> u64 \<Rightarrow> 'p region_type \<Rightarrow> 'p regions option" where
  "append_region_len rs description len pre_alignment post_alignment ty =
     append_region_va rs description len pre_alignment post_alignment ty"

definition append_region_end :: "'p regions \<Rightarrow> string \<Rightarrow> u64 \<Rightarrow> u64 \<Rightarrow> u64 \<Rightarrow> 'p region_type \<Rightarrow> 'p regions option" where
  "append_region_end rs description end pre_alignment post_alignment ty =
     append_region_va rs description (end - virtual_size rs + 1) pre_alignment post_alignment ty"

subsection \<open>Contiguous regions\<close>

text \<open>The regions follow each other from the offset \<open>n\<close>, without gaps and without wrapping around.\<close>

fun regions_from :: "nat \<Rightarrow> 'p regions \<Rightarrow> bool" where
  "regions_from n [] \<longleftrightarrow> True"
| "regions_from n (rg # rs) \<longleftrightarrow> unat (r_start rg) = n \<and> 0 < unat (r_len rg)
     \<and> unat (r_end rg) + 1 = n + unat (r_len rg) \<and> regions_from (n + unat (r_len rg)) rs"

definition regions_size :: "'p regions \<Rightarrow> nat" where
  "regions_size rs = (\<Sum>rg\<leftarrow>rs. unat (r_len rg))"

definition regions_ok :: "'p regions \<Rightarrow> bool" where
  "regions_ok rs \<longleftrightarrow> regions_from 0 rs \<and> regions_size rs < 2 ^ 63"

lemma regions_size_simps [simp]:
  "regions_size [] = 0" "regions_size (rg # rs) = unat (r_len rg) + regions_size rs"
  "regions_size (rs @ rs') = regions_size rs + regions_size rs'"
  by (simp_all add: regions_size_def)

lemma regions_from_append [simp]:
  "regions_from n (rs @ rs') \<longleftrightarrow> regions_from n rs \<and> regions_from (n + regions_size rs) rs'"
  by (induction rs arbitrary: n) (auto simp: add.assoc)

lemma regions_from_last:
  "regions_from n rs \<Longrightarrow> rs \<noteq> [] \<Longrightarrow> unat (r_end (last rs)) + 1 = n + regions_size rs"
  by (induction rs arbitrary: n) auto

lemma virtual_size_unat:
  assumes "regions_from 0 rs" and "regions_size rs < 2 ^ 64"
  shows "unat (virtual_size rs) = regions_size rs"
proof (cases "rs = []")
  case True
  then show ?thesis by (simp add: virtual_size_def)
next
  case False
  with assms regions_from_last [of 0 rs] show ?thesis
    by (simp add: virtual_size_def last_conv_nth unat_word_ariths)
qed

lemma virtual_size_ok: "regions_ok rs \<Longrightarrow> unat (virtual_size rs) = regions_size rs"
  by (rule virtual_size_unat) (simp_all add: regions_ok_def)

text \<open>The regions in order: what \<^verbatim>\<open>bsearch\<close> relies on.\<close>

lemma regions_from_nth:
  "regions_from n rs \<Longrightarrow> i < length rs \<Longrightarrow>
     n + regions_size (take i rs) = unat (r_start (rs ! i)) \<and> unat (r_end (rs ! i)) + 1 = unat (r_start (rs ! i)) + unat (r_len (rs ! i))
     \<and> 0 < unat (r_len (rs ! i))"
proof (induction rs arbitrary: n i)
  case Nil
  then show ?case by simp
next
  case (Cons rg rs)
  show ?case
  proof (cases i)
    case (Suc i')
    then show ?thesis using Cons.prems Cons.IH [of "n + unat (r_len rg)" i'] by (simp add: add.assoc)
  qed (use Cons.prems in auto)
qed

lemma regions_from_order:
  assumes "regions_from n rs" and "i < j" and "j < length rs"
  shows "r_end (rs ! i) < r_start (rs ! j)" and "r_start (rs ! i) \<le> r_end (rs ! i)"
proof -
  have "regions_size (take (Suc i) rs) \<le> regions_size (take j rs)"
    using assms(2) regions_size_simps(3) [of "take (Suc i) rs" "drop (Suc i) (take j rs)"]
    by (metis Suc_leI append_take_drop_id le_add1 min.absorb1 take_take)
  moreover have "regions_size (take (Suc i) rs) = regions_size (take i rs) + unat (r_len (rs ! i))"
    using assms(2,3) by (simp add: take_Suc_conv_app_nth)
  ultimately show "r_end (rs ! i) < r_start (rs ! j)" "r_start (rs ! i) \<le> r_end (rs ! i)"
    using regions_from_nth [OF assms(1), of i] regions_from_nth [OF assms(1), of j] assms(2,3)
    by (simp_all add: word_less_nat_alt word_le_nat_alt)
qed

lemma compare_offset_ordered: "regions_from n rs \<Longrightarrow> ordered_by (compare_offset off) rs"
  unfolding ordered_by_def compare_offset_def
  using regions_from_order [of n rs] by (auto split: if_splits; fastforce)

lemma regions_cover:
  "regions_from n rs \<Longrightarrow> n \<le> k \<Longrightarrow> k < n + regions_size rs \<Longrightarrow>
     \<exists>i < length rs. unat (r_start (rs ! i)) \<le> k \<and> k \<le> unat (r_end (rs ! i))"
proof (induction rs arbitrary: n)
  case Nil
  then show ?case by simp
next
  case (Cons rg rs)
  show ?case
  proof (cases "k < n + unat (r_len rg)")
    case True
    with Cons.prems show ?thesis by (intro exI [of _ 0]) auto
  next
    case False
    with Cons.prems Cons.IH [of "n + unat (r_len rg)"] obtain i where
      "i < length rs" "unat (r_start (rs ! i)) \<le> k" "k \<le> unat (r_end (rs ! i))" by auto
    then show ?thesis by (intro exI [of _ "Suc i"]) auto
  qed
qed

lemma regions_from_inside:
  "regions_from n rs \<Longrightarrow> rg \<in> set rs \<Longrightarrow>
     n \<le> unat (r_start rg) \<and> unat (r_end rg) < n + regions_size rs \<and> unat (r_end rg) + 1 = unat (r_start rg) + unat (r_len rg)
     \<and> 0 < unat (r_len rg)"
  by (induction rs arbitrary: n) fastforce+

lemma find_region_Some:
  assumes "regions_from 0 rs" and "unat off < regions_size rs"
  obtains rg where "find_region rs off = Some rg" "rg \<in> set rs" "r_start rg \<le> off" "off \<le> r_end rg"
proof (cases "vector_search (compare_offset off) rs")
  case None
  obtain i where "i < length rs" "unat (r_start (rs ! i)) \<le> unat off" "unat off \<le> unat (r_end (rs ! i))"
    using regions_cover [OF assms(1), of "unat off"] assms(2) by auto
  then have "compare_offset off (rs ! i) = 0" "i < length rs"
    by (simp_all add: compare_offset_def word_le_nat_alt word_less_nat_alt)
  with vector_search_None [OF compare_offset_ordered [OF assms(1)] None] show ?thesis by blast
next
  case (Some i)
  from vector_search_Some [OF this] have "i < length rs" "compare_offset off (rs ! i) = 0" by auto
  with Some show ?thesis
    by (intro that [of "rs ! i"]) (auto simp: find_region_def compare_offset_def split: if_splits)
qed

lemma find_region_None:
  assumes "regions_from 0 rs" and "regions_size rs \<le> unat off"
  shows "find_region rs off = None"
proof (cases "vector_search (compare_offset off) rs")
  case (Some i)
  from vector_search_Some [OF this] have "i < length rs" "off \<le> r_end (rs ! i)"
    by (auto simp: compare_offset_def split: if_splits)
  then show ?thesis
    using regions_from_inside [OF assms(1), of "rs ! i"] assms(2) by (simp add: word_le_nat_alt)
qed (simp add: find_region_def)

subsection \<open>Appending\<close>

lemma append_one_region_ok:
  assumes "regions_ok rs" and "r_start rg = virtual_size rs" and "0 < unat (r_len rg)" and "r_end rg = r_start rg + r_len rg - 1"
    and "regions_size rs + unat (r_len rg) < 2 ^ 63"
  shows "append_one_region rs rg = Some (rs @ [rg]) \<and> regions_ok (rs @ [rg])"
proof -
  have s: "unat (r_start rg) = regions_size rs" using virtual_size_ok [OF assms(1)] assms(2) by simp
  have "unat (r_start rg + r_len rg) = unat (r_start rg) + unat (r_len rg)" using assms(5) s by (simp add: unat_word_ariths)
  then have e: "unat (r_end rg) = unat (r_start rg) + unat (r_len rg) - 1"
    using assms(3,4) by (metis add_gr_0 unat_gt_0 unat_minus_one word_unat_eq_iff unat_0 less_numeral_extra(3))
  then have "r_start rg \<le> r_end rg" using assms(3) by (simp add: word_le_nat_alt)
  then have "append_one_region rs rg = Some (rs @ [rg])"
    using assms(2-4) by (simp add: append_one_region_def vector_append_def vector_insert_def word_le_nat_alt word_gt_0 unat_gt_0)
  then show ?thesis using assms(1,3,5) s e by (simp add: regions_ok_def)
qed

text \<open>The padding up to the next multiple of the alignment, if any.\<close>

lemma append_padding_ok:
  assumes "regions_ok rs" and "is_power_of_2 alignment" and "regions_size rs + unat alignment < 2 ^ 63"
    and "\<not> unat alignment dvd regions_size rs"
  obtains rg where "append_padding rs alignment = Some (rs @ [rg])" "regions_ok (rs @ [rg])" "r_type rg = region_zero"
    "unat alignment dvd regions_size (rs @ [rg])" "unat (r_len rg) < unat alignment"
proof -
  let ?s = "virtual_size rs" let ?S = "regions_size rs" let ?a = "unat alignment"
  let ?e = "(?s AND NOT (alignment - 1)) + alignment - 1"
  let ?rg = "\<lparr>r_start = ?s, r_len = ?e - ?s + 1, r_end = ?e, r_type = region_zero, r_description = ''padding''\<rparr>"
  obtain k where k: "alignment = 2 ^ k" "?a = 2 ^ k" "k < 64" using assms(2) by (auto elim: is_power_of_2E)
  have s: "unat ?s = ?S" by (rule virtual_size_ok [OF assms(1)])
  have m: "0 < ?S mod ?a" "?S mod ?a < ?a" using assms(4) k(2) by (simp_all add: mod_greater_zero_iff_not_dvd)
  have le: "?S mod ?a \<le> ?S" by simp
  have d: "unat (?s AND NOT (alignment - 1)) = ?S - ?S mod ?a"
    using unat_and_minus_exp [of ?s k] k s by (simp add: minus_eq_not_minus_1)
  then have "unat ((?s AND NOT (alignment - 1)) + alignment) = ?S - ?S mod ?a + ?a"
    using assms(3) m by (simp add: unat_word_ariths)
  then have e: "unat ?e = ?S - ?S mod ?a + ?a - 1"
    using m by (metis add_gr_0 gr0I less_nat_zero_code unat_minus_one unat_eq_0 less_zeroE)
  define d where "d = ?e - ?s"
  have "unat d = ?a - ?S mod ?a - 1" using e s m le unfolding d_def by (subst unat_sub) (simp_all add: word_le_nat_alt)
  then have "unat (d + 1) = ?a - ?S mod ?a" using m assms(3) by (simp add: unat_word_ariths)
  then have l: "unat (?e - ?s + 1) = ?a - ?S mod ?a" by (simp only: d_def)
  have "append_one_region rs ?rg = Some (rs @ [?rg]) \<and> regions_ok (rs @ [?rg])"
    using assms(1,3) l m by (intro append_one_region_ok) simp_all
  moreover have "IS_ALIGNED ?s alignment = Some False"
    using assms(2,4) s by (simp add: IS_ALIGNED_unat dvd_eq_mod_eq_0)
  moreover have "?a dvd ?S + (?a - ?S mod ?a)"
    using m le by (metis add_diff_assoc2 diff_add_assoc2 dvd_add_triv_right_iff dvd_minus_mod less_imp_le_nat add.commute)
  ultimately show thesis
    using assms(2) l m by (intro that [of ?rg]) (simp_all add: append_padding_def Let_def)
qed

lemma append_alignment_ok:
  assumes "regions_ok rs" and "alignment = 0 \<or> is_power_of_2 alignment" and "regions_size rs + unat alignment < 2 ^ 63"
  obtains pad where "append_alignment rs alignment = Some (rs @ pad)" "regions_ok (rs @ pad)"
    "\<forall>rg \<in> set pad. r_type rg = region_zero" "alignment \<noteq> 0 \<longrightarrow> unat alignment dvd regions_size (rs @ pad)"
    "regions_size pad \<le> unat alignment"
proof (cases "alignment = 0 \<or> unat alignment dvd regions_size rs")
  case True
  then show ?thesis using assms(1,2) virtual_size_ok [OF assms(1)]
    by (intro that [of "[]"]) (auto simp: append_alignment_def append_padding_def IS_ALIGNED_unat)
next
  case False
  with assms obtain rg where rg: "append_padding rs alignment = Some (rs @ [rg])" "regions_ok (rs @ [rg])" "r_type rg = region_zero"
    "unat alignment dvd regions_size (rs @ [rg])" "unat (r_len rg) < unat alignment"
    by (auto elim: append_padding_ok)
  show ?thesis
    using rg False assms(2) virtual_size_ok [OF rg(2)]
    by (intro that [of "[rg]"]) (auto simp: append_alignment_def IS_ALIGNED_unat)
qed

lemma append_region_len_ok:
  assumes "regions_ok rs" and "pre = 0 \<or> is_power_of_2 pre" and "post = 0 \<or> is_power_of_2 post" and "0 < unat len"
    and "regions_size rs + unat pre + unat len + unat post < 2 ^ 63"
  obtains pad1 rg pad2 where "append_region_len rs description len pre post ty = Some (rs @ pad1 @ rg # pad2)"
    "regions_ok (rs @ pad1 @ rg # pad2)" "\<forall>p \<in> set (pad1 @ pad2). r_type p = region_zero"
    "r_type rg = ty" "r_len rg = len" "unat (r_start rg) = regions_size (rs @ pad1)"
    "pre \<noteq> 0 \<longrightarrow> unat pre dvd unat (r_start rg)" "post \<noteq> 0 \<longrightarrow> unat post dvd regions_size (rs @ pad1 @ rg # pad2)"
    "regions_size pad1 \<le> unat pre" "regions_size pad2 \<le> unat post"
proof -
  obtain pad1 where p1: "append_alignment rs pre = Some (rs @ pad1)" "regions_ok (rs @ pad1)"
    "\<forall>rg \<in> set pad1. r_type rg = region_zero" "pre \<noteq> 0 \<longrightarrow> unat pre dvd regions_size (rs @ pad1)" "regions_size pad1 \<le> unat pre"
    using append_alignment_ok [OF assms(1,2)] assms(5) by auto
  let ?s = "virtual_size (rs @ pad1)"
  define rg where "rg = \<lparr>r_start = ?s, r_len = len, r_end = ?s + len - 1, r_type = ty, r_description = description\<rparr>"
  have m: "append_one_region (rs @ pad1) rg = Some ((rs @ pad1) @ [rg]) \<and> regions_ok ((rs @ pad1) @ [rg])"
    using p1(2,5) assms(4,5) by (intro append_one_region_ok) (simp_all add: rg_def)
  obtain pad2 where p2: "append_alignment ((rs @ pad1) @ [rg]) post = Some (((rs @ pad1) @ [rg]) @ pad2)"
    "regions_ok (((rs @ pad1) @ [rg]) @ pad2)" "\<forall>rg \<in> set pad2. r_type rg = region_zero"
    "post \<noteq> 0 \<longrightarrow> unat post dvd regions_size (((rs @ pad1) @ [rg]) @ pad2)" "regions_size pad2 \<le> unat post"
    using append_alignment_ok [OF conjunct2 [OF m] assms(3)] assms(5) p1(5) by (auto simp: rg_def)
  show thesis
  proof (rule that [of pad1 rg pad2])
    show "append_region_len rs description len pre post ty = Some (rs @ pad1 @ rg # pad2)"
      using p1(1) m p2(1) by (simp add: append_region_len_def append_region_va_def rg_def [symmetric] Let_def)
  qed (use p1 p2 virtual_size_ok [OF p1(2)] in \<open>auto simp: rg_def\<close>)
qed

subsection \<open>Properties\<close>

text \<open>C24: In a virtual disk of contiguous regions the binary search finds, for every offset, the one region that
  contains it, and nothing for an offset behind the end.\<close>

theorem find_region_exact:
  assumes "regions_ok rs"
  shows "find_region rs off = Some rg \<longleftrightarrow> rg \<in> set rs \<and> r_start rg \<le> off \<and> off \<le> r_end rg"
    (is "_ \<longleftrightarrow> ?in rg")
proof -
  have rs: "regions_from 0 rs" using assms by (simp add: regions_ok_def)
  have one: "rg = rg'" if in_both: "?in rg" "?in rg'" for rg rg'
  proof -
    obtain i j where ij: "i < length rs" "rs ! i = rg" "j < length rs" "rs ! j = rg'" using in_both by (metis in_set_conv_nth)
    have "\<not> i < j" "\<not> j < i" using regions_from_order(1) [OF rs, of i j] regions_from_order(1) [OF rs, of j i] ij in_both by auto
    with ij show ?thesis by simp
  qed
  show ?thesis
  proof (cases "unat off < regions_size rs")
    case True
    then show ?thesis using one by (rule_tac find_region_Some [OF rs]) auto
  next
    case False
    then show ?thesis using find_region_None [OF rs, of off] regions_from_inside [OF rs, of rg] by (auto simp: word_le_nat_alt)
  qed
qed

text \<open>C25: Appending a region keeps the regions contiguous and adds nothing but it and zero padding: the region has the
  length asked for, starts at the alignment asked for, and the disk ends at the other one.\<close>

theorem append_region_aligned:
  assumes "regions_ok rs" and "is_power_of_2 pre" and "is_power_of_2 post" and "0 < unat len"
    and "regions_size rs + unat pre + unat len + unat post < 2 ^ 63"
  shows "\<exists>pad1 rg pad2. append_region_len rs description len pre post ty = Some (rs @ pad1 @ rg # pad2)
    \<and> regions_ok (rs @ pad1 @ rg # pad2) \<and> (\<forall>p \<in> set (pad1 @ pad2). r_type p = region_zero)
    \<and> r_type rg = ty \<and> r_len rg = len \<and> unat pre dvd unat (r_start rg) \<and> unat post dvd regions_size (rs @ pad1 @ rg # pad2)"
proof -
  have nz: "pre \<noteq> 0" "post \<noteq> 0" using assms(2,3) by (auto simp: is_power_of_2_def)
  show ?thesis
    by (rule append_region_len_ok [OF assms(1) disjI2 [OF assms(2)] disjI2 [OF assms(3)] assms(4,5), of description ty])
      (use nz in blast)
qed

definition sample_regions :: "unit regions" where
  "sample_regions =
     [\<lparr>r_start = 0, r_len = 512, r_end = 511, r_type = region_data (), r_description = ''table''\<rparr>,
      \<lparr>r_start = 512, r_len = 3, r_end = 514, r_type = region_file 0, r_description = ''file''\<rparr>]"

lemma sample_regions_ok: "regions_ok sample_regions"
  by (simp add: regions_ok_def sample_regions_def)

theorem find_region_exact_witness: "find_region sample_regions 513 = Some (sample_regions ! 1)"
  using find_region_exact [OF sample_regions_ok, of 513 "sample_regions ! 1"] by (simp add: sample_regions_def)

theorem append_region_aligned_witness:
  "\<exists>rs rg. append_region_len sample_regions ''more'' 5 1024 512 (region_file 1) = Some rs \<and> rg \<in> set rs
     \<and> r_type rg = region_file 1 \<and> 1024 dvd unat (r_start rg) \<and> 512 dvd regions_size rs"
proof -
  have "is_power_of_2 (1024 :: u64)" "is_power_of_2 (512 :: u64)" by (simp_all add: is_power_of_2_def)
  moreover have "regions_size sample_regions + unat (1024 :: u64) + unat (5 :: u64) + unat (512 :: u64) < 2 ^ 63"
    by (simp add: sample_regions_def)
  ultimately obtain pad1 rg pad2 where
    "append_region_len sample_regions ''more'' 5 1024 512 (region_file 1) = Some (sample_regions @ pad1 @ rg # pad2)"
    "r_type rg = region_file 1" "1024 dvd unat (r_start rg)" "512 dvd regions_size (sample_regions @ pad1 @ rg # pad2)"
    using append_region_aligned [OF sample_regions_ok, of 1024 512 5 "''more''" "region_file 1"] by auto
  then show ?thesis by (intro exI conjI) auto
qed

end
