(* ===== verification/Partitioning.thy ===== *)
theory Partitioning
  imports Server Regions
begin

text \<open>
  The partitioning plugin, \<^verbatim>\<open>src/plugins/partitioning\<close>: files presented as the partitions of one virtual disk, with an
  MBR or GPT partition table made up in memory.

  A pointer into the tables is one of the buffers below; \<open>primary\<close>, \<open>secondary\<close> and \<open>ebr\<close> hold their bytes, \<^term>\<open>None\<close>
  for \<^verbatim>\<open>NULL\<close>.  The operating system's files are byte lists, numbered by their descriptors, and \<open>io_script\<close> lists what
  future system calls on them do: transfer at most some number of bytes, or fail; at the end of the list they
  transfer all that was asked for.
\<close>

datatype buffer = Primary | Secondary | Ebr nat

datatype io_step = Io nat | IoErr int

datatype parttype = PARTTYPE_UNSET | PARTTYPE_MBR | PARTTYPE_GPT

record part_file =
  f_filename :: cstring
  f_fd :: nat
  f_size :: u64
  f_guid :: "u8 list"
  f_alignment :: u64
  f_mbr_id :: u8
  f_type_guid :: "u8 list"

record part_state =
  the_files :: "part_file list"
  the_parttype :: parttype
  the_regions :: "buffer regions"
  primary :: "u8 list option"
  secondary :: "u8 list option"
  ebr :: "u8 list list option"
  os_files :: "u8 list list"
  io_script :: "io_step list"

abbreviation SECTOR_SIZE :: u64 where "SECTOR_SIZE \<equiv> 512"

subsection \<open>System calls\<close>

definition sys_pread :: "part_state \<Rightarrow> nat \<Rightarrow> nat \<Rightarrow> nat \<Rightarrow> (int + u8 list) \<times> part_state" where
  "sys_pread s fd len off =
     (let bs = take len (drop off (os_files s ! fd)) in
      case io_script s of
        [] \<Rightarrow> (Inr bs, s)
      | Io n # script \<Rightarrow> (Inr (take n bs), s\<lparr>io_script := script\<rparr>)
      | IoErr e # script \<Rightarrow> (Inl e, s\<lparr>io_script := script\<rparr>))"

text \<open>Writing behind the end of a file fills the gap with zeroes.\<close>

definition file_write :: "u8 list \<Rightarrow> nat \<Rightarrow> u8 list \<Rightarrow> u8 list" where
  "file_write content off bs = memcpy (content @ zeroes (off - length content)) off bs"

definition sys_pwrite :: "part_state \<Rightarrow> nat \<Rightarrow> u8 list \<Rightarrow> nat \<Rightarrow> (int + nat) \<times> part_state" where
  "sys_pwrite s fd buf off =
     (let put = (\<lambda>bs s. (Inr (length bs), s\<lparr>os_files := (os_files s)[fd := file_write (os_files s ! fd) off bs]\<rparr>)) in
      case io_script s of
        [] \<Rightarrow> put buf s
      | Io n # script \<Rightarrow> put (take n buf) (s\<lparr>io_script := script\<rparr>)
      | IoErr e # script \<Rightarrow> (Inl e, s\<lparr>io_script := script\<rparr>))"

definition sys_fdatasync :: "part_state \<Rightarrow> nat \<Rightarrow> int option \<times> part_state" where
  "sys_fdatasync s fd =
     (case io_script s of
        [] \<Rightarrow> (None, s)
      | Io n # script \<Rightarrow> (None, s\<lparr>io_script := script\<rparr>)
      | IoErr e # script \<Rightarrow> (Some e, s\<lparr>io_script := script\<rparr>))"

subsection \<open>Reading and writing\<close>

definition data_bytes :: "part_state \<Rightarrow> buffer \<Rightarrow> u8 list" where
  "data_bytes s b =
     (case b of
        Primary \<Rightarrow> (case primary s of None \<Rightarrow> [] | Some bs \<Rightarrow> bs)
      | Secondary \<Rightarrow> (case secondary s of None \<Rightarrow> [] | Some bs \<Rightarrow> bs)
      | Ebr k \<Rightarrow> (case ebr s of None \<Rightarrow> [] | Some bss \<Rightarrow> if k < length bss then bss ! k else []))"

definition partitioning_open :: "part_state world \<Rightarrow> bool \<Rightarrow> (bool \<times> part_state world) option" where
  "partitioning_open w readonly = Some (True, w)"

definition partitioning_get_size :: "part_state world \<Rightarrow> (u64 \<times> part_state world) option" where
  "partitioning_get_size w = Some (virtual_size (the_regions (priv w)), w)"

definition partitioning_can_multi_conn :: "part_state p_query" where
  "partitioning_can_multi_conn w = Some (1, w)"

definition partitioning_can_cache :: "part_state p_query" where
  "partitioning_can_cache w = Some (NBDKIT_CACHE_EMULATE, w)"

text \<open>
  The body of the loops, for the part of a request that lies in one region: the bytes read or the number of bytes
  written, \<^term>\<open>None\<close> for \<^verbatim>\<open>return -1\<close>.  Accesses outside of a buffer have no result.
\<close>

definition pread_region :: "part_state world \<Rightarrow> buffer region \<Rightarrow> u64 \<Rightarrow> u64 \<Rightarrow> (u8 list option \<times> part_state world) option" where
  "pread_region w rg len off =
     (let s = priv w; pos = unat (off - r_start rg) in
      case r_type rg of
        region_file i \<Rightarrow> do {
          c_assert (i < length (the_files s));
          Some (case sys_pread s (f_fd (the_files s ! i)) (unat len) pos of
             (Inl e, s) \<Rightarrow> (None, w\<lparr>priv := s, c_errno := e\<rparr>)
           | (Inr bs, s) \<Rightarrow> (if bs = [] then None else Some bs, w\<lparr>priv := s\<rparr>)) }
      | region_data b \<Rightarrow> do {
          c_assert (pos + unat len \<le> length (data_bytes s b));
          Some (Some (take (unat len) (drop pos (data_bytes s b))), w) }
      | region_zero \<Rightarrow> Some (Some (zeroes (unat len)), w))"

definition pwrite_region :: "part_state world \<Rightarrow> buffer region \<Rightarrow> u8 list \<Rightarrow> u64 \<Rightarrow> u64 \<Rightarrow> (nat option \<times> part_state world) option" where
  "pwrite_region w rg buf len off =
     (let s = priv w; pos = unat (off - r_start rg); bs = take (unat len) buf in
      case r_type rg of
        region_file i \<Rightarrow> do {
          c_assert (i < length (the_files s));
          Some (case sys_pwrite s (f_fd (the_files s ! i)) bs pos of
             (Inl e, s) \<Rightarrow> (None, w\<lparr>priv := s, c_errno := e\<rparr>)
           | (Inr n, s) \<Rightarrow> (Some n, w\<lparr>priv := s\<rparr>)) }
      | region_data b \<Rightarrow> do {
          c_assert (pos + unat len \<le> length (data_bytes s b));
          Some (if take (unat len) (drop pos (data_bytes s b)) \<noteq> bs then (None, w\<lparr>c_errno := EIO\<rparr>) else (Some (unat len), w)) }
      | region_zero \<Rightarrow> Some (if \<not> is_zero bs then (None, w\<lparr>c_errno := EIO\<rparr>) else (Some (unat len), w)))"

definition region_span :: "buffer region \<Rightarrow> u32 \<Rightarrow> u64 \<Rightarrow> u64" where
  "region_span rg count off = (let len = r_end rg - off + 1 in if len > ucast count then ucast count else len)"

partial_function (option) partitioning_pread ::
  "part_state world \<Rightarrow> u32 \<Rightarrow> u64 \<Rightarrow> (int \<times> u8 list \<times> part_state world) option" where
  "partitioning_pread w count off =
     (if count > 0 then do {
        rg \<leftarrow> find_region (the_regions (priv w)) off;
        (res, w) \<leftarrow> pread_region w rg (region_span rg count off) off;
        (case res of
           None \<Rightarrow> Some (- 1, [], w)
         | Some bs \<Rightarrow> do {
             (r, rest, w) \<leftarrow> partitioning_pread w (count - of_nat (length bs)) (off + of_nat (length bs));
             Some (r, bs @ rest, w) })
      } else Some (0, [], w))"

partial_function (option) partitioning_pwrite ::
  "part_state world \<Rightarrow> u8 list \<Rightarrow> u32 \<Rightarrow> u64 \<Rightarrow> (int \<times> part_state world) option" where
  "partitioning_pwrite w buf count off =
     (if count > 0 then do {
        rg \<leftarrow> find_region (the_regions (priv w)) off;
        (res, w) \<leftarrow> pwrite_region w rg buf (region_span rg count off) off;
        (case res of
           None \<Rightarrow> Some (- 1, w)
         | Some n \<Rightarrow> partitioning_pwrite w (drop n buf) (count - of_nat n) (off + of_nat n))
      } else Some (0, w))"

fun flush_files :: "part_file list \<Rightarrow> part_state world \<Rightarrow> int \<times> part_state world" where
  "flush_files [] w = (0, w)"
| "flush_files (f # fs) w =
     (case sys_fdatasync (priv w) (f_fd f) of
        (Some e, s) \<Rightarrow> (- 1, w\<lparr>priv := s, c_errno := e\<rparr>)
      | (None, s) \<Rightarrow> flush_files fs (w\<lparr>priv := s\<rparr>))"

definition partitioning_flush :: "part_state world \<Rightarrow> (int \<times> part_state world) option" where
  "partitioning_flush w = Some (flush_files (the_files (priv w)) w)"

definition partitioning_plugin :: "part_state nbdkit_plugin" where
  "partitioning_plugin =
     \<lparr>p_api_version = 1, p_errno_is_preserved = 1, p_thread_model0 = 3, p_thread_model = None,
      p_preconnect = None, p_list_exports = None,
      p_default_export = None, p_open = partitioning_open, p_close = None, p_export_description = None,
      p_get_size = partitioning_get_size, p_block_size = None,
      p_can_write = None, p_can_flush = None, p_is_rotational = None, p_can_trim = None,
      p_can_zero = None, p_can_fast_zero = None, p_can_extents = None,
      p_can_fua = None, p_can_multi_conn = Some partitioning_can_multi_conn,
      p_can_cache = Some partitioning_can_cache, p_pread = None,
      p_pwrite = None, p_flush = None, p_trim = None,
      p_zero = None, p_extents = None, p_cache = None,
      p_pread_v1 = Some partitioning_pread, p_pwrite_v1 = Some partitioning_pwrite,
      p_flush_v1 = Some partitioning_flush, p_trim_v1 = None, p_zero_v1 = None\<rparr>"

subsection \<open>The virtual disk\<close>

text \<open>
  The disk that the regions describe.  Every file region covers a whole file, no file is behind two regions, every data
  region covers a whole buffer, and system calls fail with proper error numbers.
\<close>

definition region_at :: "'p regions \<Rightarrow> nat \<Rightarrow> 'p region option" where
  "region_at rs i = List.find (\<lambda>rg. unat (r_start rg) \<le> i \<and> i \<le> unat (r_end rg)) rs"

definition region_byte :: "part_state \<Rightarrow> buffer region \<Rightarrow> nat \<Rightarrow> u8" where
  "region_byte s rg k =
     (case r_type rg of
        region_file i \<Rightarrow> os_files s ! f_fd (the_files s ! i) ! k
      | region_data b \<Rightarrow> data_bytes s b ! k
      | region_zero \<Rightarrow> 0)"

definition part_content :: "part_state \<Rightarrow> disk" where
  "part_content s i = (case region_at (the_regions s) i of None \<Rightarrow> 0 | Some rg \<Rightarrow> region_byte s rg (i - unat (r_start rg)))"

definition region_backed :: "part_state \<Rightarrow> buffer region \<Rightarrow> bool" where
  "region_backed s rg \<longleftrightarrow>
     (case r_type rg of
        region_file i \<Rightarrow> i < length (the_files s) \<and> f_fd (the_files s ! i) < length (os_files s)
          \<and> length (os_files s ! f_fd (the_files s ! i)) = unat (r_len rg)
      | region_data b \<Rightarrow> length (data_bytes s b) = unat (r_len rg)
      | region_zero \<Rightarrow> True)"

definition region_fd :: "part_state \<Rightarrow> buffer region \<Rightarrow> nat option" where
  "region_fd s rg = (case r_type rg of region_file i \<Rightarrow> Some (f_fd (the_files s ! i)) | _ \<Rightarrow> None)"

definition script_ok :: "io_step list \<Rightarrow> bool" where
  "script_ok script \<longleftrightarrow> (\<forall>e. IoErr e \<in> set script \<longrightarrow> e > 0)"

definition part_inv :: "nat \<Rightarrow> part_state \<Rightarrow> bool" where
  "part_inv sz s \<longleftrightarrow> regions_ok (the_regions s) \<and> regions_size (the_regions s) = sz
     \<and> (\<forall>rg \<in> set (the_regions s). region_backed s rg)
     \<and> (\<forall>rg \<in> set (the_regions s). \<forall>rg' \<in> set (the_regions s). region_fd s rg \<noteq> None \<longrightarrow> region_fd s rg = region_fd s rg' \<longrightarrow> rg = rg')
     \<and> script_ok (io_script s)"

lemma region_at_inside:
  "regions_from n rs \<Longrightarrow> rg \<in> set rs \<Longrightarrow> unat (r_start rg) \<le> i \<Longrightarrow> i \<le> unat (r_end rg) \<Longrightarrow> region_at rs i = Some rg"
proof (induction rs arbitrary: n)
  case (Cons r rs)
  show ?case
  proof (cases "rg = r")
    case False
    then have "n + unat (r_len r) \<le> unat (r_start rg)" using Cons.prems regions_from_inside [of "n + unat (r_len r)" rs rg] by auto
    moreover have "unat (r_end r) < n + unat (r_len r)" using Cons.prems by simp
    ultimately show ?thesis using Cons False by (auto simp: region_at_def)
  qed (use Cons.prems in \<open>simp add: region_at_def\<close>)
qed simp

lemma part_content_inside:
  "part_inv sz s \<Longrightarrow> rg \<in> set (the_regions s) \<Longrightarrow> unat (r_start rg) \<le> i \<Longrightarrow> i \<le> unat (r_end rg) \<Longrightarrow>
     part_content s i = region_byte s rg (i - unat (r_start rg))"
  using region_at_inside [of 0 "the_regions s" rg i] by (simp add: part_inv_def regions_ok_def part_content_def)

text \<open>The region at the start of a request, and how much of the request lies in it.\<close>

lemma region_of_request:
  assumes "part_inv sz s" and "0 < unat count" and "unat off + unat count \<le> sz"
  obtains rg where "find_region (the_regions s) off = Some rg" "rg \<in> set (the_regions s)" "unat (r_start rg) \<le> unat off"
    "0 < unat (region_span rg count off)" "unat (region_span rg count off) \<le> unat count"
    "unat off + unat (region_span rg count off) \<le> unat (r_end rg) + 1"
    "unat (r_end rg) + 1 = unat (r_start rg) + unat (r_len rg)" "unat (r_end rg) < sz" "sz < 2 ^ 63" "region_backed s rg"
    "unat (off - r_start rg) = unat off - unat (r_start rg)"
proof -
  have ok: "regions_from 0 (the_regions s)" "regions_size (the_regions s) = sz" "sz < 2 ^ 63"
    using assms(1) by (auto simp: part_inv_def regions_ok_def)
  obtain rg where rg: "find_region (the_regions s) off = Some rg" "rg \<in> set (the_regions s)" "r_start rg \<le> off" "off \<le> r_end rg"
  proof (rule find_region_Some [OF ok(1), of off])
    show "unat off < regions_size (the_regions s)" using ok(2) assms(2,3) by linarith
  qed
  note ins = regions_from_inside [OF ok(1) rg(2)]
  have c: "unat (ucast count :: u64) = unat count" by (simp add: unat_ucast_up)
  have e: "unat (r_end rg - off) = unat (r_end rg) - unat off" using rg(4) by (rule unat_sub)
  have "unat (r_end rg) - unat off + 1 \<le> sz" using ins ok(2) by linarith
  also have "sz < 2 ^ 64" using ok(3) by simp
  finally have "unat (r_end rg) - unat off + 1 < 2 ^ 64" .
  then have "unat (r_end rg - off + 1) = unat (r_end rg) - unat off + 1"
    using e by (subst unat_word_ariths) simp
  then have sp: "unat (region_span rg count off) = min (unat (r_end rg) - unat off + 1) (unat count)"
    using c by (simp add: region_span_def Let_def word_less_nat_alt min_def)
  have le: "unat (r_start rg) \<le> unat off" "unat off \<le> unat (r_end rg)" using rg(3,4) by (simp_all add: word_le_nat_alt)
  show thesis
  proof (rule that [of rg])
    show "region_backed s rg" using assms(1) rg(2) by (simp add: part_inv_def)
    show "unat (off - r_start rg) = unat off - unat (r_start rg)" using rg(3) by (rule unat_sub)
    show "0 < unat (region_span rg count off)" using sp assms(2) by linarith
    show "unat (region_span rg count off) \<le> unat count" using sp by linarith
    show "unat off + unat (region_span rg count off) \<le> unat (r_end rg) + 1" using sp le by linarith
    show "unat (r_end rg) < sz" using ins ok(2) by linarith
  qed (use rg ins ok le in \<open>simp_all only:\<close>)
qed

text \<open>A step of the reading loop delivers the next bytes of the disk, or fails.\<close>

definition io_left :: "part_state \<Rightarrow> io_step list" where
  "io_left s = tl (io_script s)"

lemma script_ok_tl: "script_ok script \<Longrightarrow> script_ok (tl script)"
  by (cases script) (auto simp: script_ok_def)

lemma io_left_update [simp]: "io_script s = [] \<Longrightarrow> s\<lparr>io_script := io_left s\<rparr> = s"
  by (simp add: io_left_def)

lemma sys_pread_result:
  assumes "script_ok (io_script s)"
  obtains n where "sys_pread s fd len off = (Inr (take n (take len (drop off (os_files s ! fd)))), s\<lparr>io_script := io_left s\<rparr>)"
  | e where "sys_pread s fd len off = (Inl e, s\<lparr>io_script := io_left s\<rparr>)" "e > 0"
proof (cases "io_script s")
  case Nil
  then show ?thesis using that(1) [of len] by (simp add: sys_pread_def)
next
  case (Cons st script)
  then show ?thesis using that assms by (cases st) (auto simp: sys_pread_def io_left_def script_ok_def)
qed

lemma data_bytes_upd [simp]:
  "data_bytes (s\<lparr>io_script := script\<rparr>) b = data_bytes s b" "data_bytes (s\<lparr>os_files := fs\<rparr>) b = data_bytes s b"
  by (cases b; simp add: data_bytes_def)+

lemma part_content_script [simp]: "part_content (s\<lparr>io_script := script\<rparr>) = part_content s"
  by (simp add: part_content_def region_byte_def fun_eq_iff cong: region_type.case_cong option.case_cong)

lemma region_upd [simp]:
  "region_backed (s\<lparr>io_script := script\<rparr>) rg = region_backed s rg" "region_fd (s\<lparr>io_script := script\<rparr>) rg = region_fd s rg"
  "region_fd (s\<lparr>os_files := fs\<rparr>) rg = region_fd s rg"
  by (simp_all add: region_backed_def region_fd_def cong: region_type.case_cong)

lemma part_inv_left: "part_inv sz s \<Longrightarrow> part_inv sz (s\<lparr>io_script := io_left s\<rparr>)"
  by (auto simp: part_inv_def io_left_def script_ok_tl)

definition region_bytes :: "part_state \<Rightarrow> buffer region \<Rightarrow> u8 list" where
  "region_bytes s rg =
     (case r_type rg of
        region_file i \<Rightarrow> os_files s ! f_fd (the_files s ! i)
      | region_data b \<Rightarrow> data_bytes s b
      | region_zero \<Rightarrow> zeroes (unat (r_len rg)))"

lemma region_bytes_props:
  "region_backed s rg \<Longrightarrow> length (region_bytes s rg) = unat (r_len rg)"
  "k < unat (r_len rg) \<Longrightarrow> region_byte s rg k = region_bytes s rg ! k"
  by (auto simp: region_bytes_def region_backed_def region_byte_def split: region_type.splits)

lemma read_region:
  assumes "part_inv sz s" and "rg \<in> set (the_regions s)" and "unat (r_start rg) \<le> off" and "off + n \<le> unat (r_end rg) + 1"
    and "0 < n"
  shows "disk_read (part_content s) off n = take n (drop (off - unat (r_start rg)) (region_bytes s rg))"
proof -
  have ins: "unat (r_end rg) + 1 = unat (r_start rg) + unat (r_len rg)" "region_backed s rg"
    using assms(1,2) regions_from_inside [of 0 "the_regions s" rg] by (auto simp: part_inv_def regions_ok_def)
  have l: "length (region_bytes s rg) = unat (r_len rg)" by (rule region_bytes_props(1) [OF ins(2)])
  have le: "off - unat (r_start rg) + n \<le> unat (r_len rg)" using assms(3,4) ins(1) by linarith
  show ?thesis
  proof (rule nth_equalityI)
    show "length (disk_read (part_content s) off n) = length (take n (drop (off - unat (r_start rg)) (region_bytes s rg)))"
      using l le by simp
  next
    fix k assume "k < length (disk_read (part_content s) off n)"
    then have k: "k < n" by simp
    have "part_content s (off + k) = region_bytes s rg ! (off + k - unat (r_start rg))"
      using part_content_inside [OF assms(1,2), of "off + k"] region_bytes_props(2) [of "off + k - unat (r_start rg)" rg s]
        assms(3,4) le k by simp
    then show "disk_read (part_content s) off n ! k = take n (drop (off - unat (r_start rg)) (region_bytes s rg)) ! k"
      using k l le assms(3) by (simp add: disk_read_def)
  qed
qed

lemma region_facts:
  assumes "part_inv sz s" and "0 < unat count" and "unat off + unat count \<le> sz" and "find_region (the_regions s) off = Some rg"
  defines "len \<equiv> unat (region_span rg count off)" and "pos \<equiv> unat off - unat (r_start rg)"
  shows "rg \<in> set (the_regions s)" "unat (r_start rg) \<le> unat off" "0 < len" "len \<le> unat count"
    "unat off + len \<le> unat (r_end rg) + 1" "unat (r_end rg) + 1 = unat (r_start rg) + unat (r_len rg)" "region_backed s rg"
    "unat (off - r_start rg) = pos"
    "\<And>n. 0 < n \<Longrightarrow> n \<le> len \<Longrightarrow> disk_read (part_content s) (unat off) n = take n (drop pos (region_bytes s rg))"
    "length (region_bytes s rg) = unat (r_len rg)" "pos + len \<le> unat (r_len rg)" "unat (r_start rg) + pos = unat off"
proof -
  from region_of_request [OF assms(1-3)] assms(4)
  show rg: "rg \<in> set (the_regions s)" "unat (r_start rg) \<le> unat off" "0 < len" "len \<le> unat count"
    "unat off + len \<le> unat (r_end rg) + 1" "unat (r_end rg) + 1 = unat (r_start rg) + unat (r_len rg)" "region_backed s rg"
    "unat (off - r_start rg) = pos"
    unfolding len_def pos_def by (metis option.inject)+
  show "disk_read (part_content s) (unat off) n = take n (drop pos (region_bytes s rg))" if "0 < n" "n \<le> len" for n
    using read_region [OF assms(1) rg(1,2), of n] rg(5) that by (simp add: pos_def)
  show "length (region_bytes s rg) = unat (r_len rg)" by (rule region_bytes_props(1) [OF rg(7)])
  show "pos + len \<le> unat (r_len rg)" "unat (r_start rg) + pos = unat off" using rg(2,5,6) unfolding pos_def by linarith+
qed

lemma pread_region_ok:
  assumes "world_ok (part_inv sz) w" and "0 < unat count" and "unat off + unat count \<le> sz"
    and "find_region (the_regions (priv w)) off = Some rg"
  obtains res w' where "pread_region w rg (region_span rg count off) off = Some (res, w')" "world_ok (part_inv sz) w'"
    "part_content (priv w') = part_content (priv w)" "conn_exportname w' = conn_exportname w"
    "res = None \<or> (\<exists>n. res = Some (disk_read (part_content (priv w)) (unat off) n) \<and> 0 < n \<and> n \<le> unat count)"
proof -
  let ?s = "priv w" let ?len = "unat (region_span rg count off)" let ?pos = "unat off - unat (r_start rg)"
  have i: "part_inv sz ?s" using assms(1) by (simp add: world_ok_def)
  note rg = region_facts [OF i assms(2-4)]
  note rd = rg(9) and l = rg(10) and le = rg(11)
  show thesis
  proof (cases "r_type rg")
    case (region_file k)
    let ?fd = "f_fd (the_files ?s ! k)"
    have k: "k < length (the_files ?s)" "region_bytes ?s rg = os_files ?s ! ?fd"
      using rg(7) region_file by (auto simp: region_backed_def region_bytes_def)
    have so: "script_ok (io_script ?s)" using i by (simp add: part_inv_def)
    show ?thesis
    proof (rule sys_pread_result [OF so, of ?fd ?len ?pos])
      fix n assume p: "sys_pread ?s ?fd ?len ?pos = (Inr (take n (take ?len (drop ?pos (os_files ?s ! ?fd)))), ?s\<lparr>io_script := io_left ?s\<rparr>)"
      define bs where "bs = take n (take ?len (drop ?pos (os_files ?s ! ?fd)))"
      have m: "length bs = min n ?len" using l le k(2) by (simp add: bs_def)
      have r: "pread_region w rg (region_span rg count off) off
          = Some (if bs = [] then None else Some bs, w\<lparr>priv := ?s\<lparr>io_script := io_left ?s\<rparr>\<rparr>)"
        using p [folded bs_def] region_file rg(8) k(1) by (simp add: pread_region_def Let_def)
      have d: "bs \<noteq> [] \<Longrightarrow> 0 < min n ?len \<and> bs = disk_read (part_content ?s) (unat off) (min n ?len)"
        using rd [of "min n ?len"] m k(2) by (simp add: take_take min.commute bs_def)
      show ?thesis
      proof (rule that [OF r])
        show "(if bs = [] then None else Some bs) = None \<or> (\<exists>n. (if bs = [] then None else Some bs)
            = Some (disk_read (part_content ?s) (unat off) n) \<and> 0 < n \<and> n \<le> unat count)"
          using d rg(4) by (cases "bs = []") (auto intro!: exI [of _ "min n ?len"])
      qed (use assms(1) part_inv_left [OF i] in \<open>simp_all add: world_ok_def\<close>)
    next
      fix e :: int assume p: "sys_pread ?s ?fd ?len ?pos = (Inl e, ?s\<lparr>io_script := io_left ?s\<rparr>)" "e > 0"
      then show ?thesis
        using region_file rg(8) k(1) assms(1) part_inv_left [OF i]
        by (intro that [of None "w\<lparr>priv := ?s\<lparr>io_script := io_left ?s\<rparr>, c_errno := e\<rparr>"]) (simp_all add: pread_region_def world_ok_def Let_def)
    qed
  next
    case (region_data b)
    then have "data_bytes ?s b = region_bytes ?s rg" by (simp add: region_bytes_def)
    then have "pread_region w rg (region_span rg count off) off = Some (Some (disk_read (part_content ?s) (unat off) ?len), w)"
      using region_data rg(3,8) l le rd [of ?len] by (simp add: pread_region_def Let_def)
    from that [OF this assms(1)] show ?thesis using rg(3,4) by auto
  next
    case region_zero
    then have "take ?len (drop ?pos (region_bytes ?s rg)) = zeroes ?len" using le by (simp add: region_bytes_def)
    then have "pread_region w rg (region_span rg count off) off = Some (Some (disk_read (part_content ?s) (unat off) ?len), w)"
      using region_zero rg(3) rd [of ?len] by (simp add: pread_region_def Let_def)
    from that [OF this assms(1)] show ?thesis using rg(3,4) by auto
  qed
qed

lemma unat_advance:
  fixes count :: u32 and off :: u64
  assumes "0 < n" and "n \<le> unat count" and "unat off + unat count < 2 ^ 63"
  shows "unat (count - of_nat n) = unat count - n" "unat (off + of_nat n) = unat off + n"
proof -
  have n: "n < 2 ^ 32" using assms(2) unat_u32_less [of count] by linarith
  have a: "unat (of_nat n :: u32) = n" using n by (simp add: unat_of_nat)
  have b: "unat (of_nat n :: u64) = n" using n by (simp add: unat_of_nat)
  show "unat (count - of_nat n) = unat count - n" using a assms(2) by (subst unat_sub) (simp_all add: word_le_nat_alt)
  show "unat (off + of_nat n) = unat off + n" using b assms by (simp add: unat_word_ariths)
qed

lemma partitioning_pread_ok:
  assumes "world_ok (part_inv sz) w" and "unat off + unat count \<le> sz"
  shows "\<exists>r buf w'. partitioning_pread w count off = Some (r, buf, w') \<and> world_ok (part_inv sz) w'
    \<and> part_content (priv w') = part_content (priv w) \<and> (r \<noteq> - 1 \<longrightarrow> buf = disk_read (part_content (priv w)) (unat off) (unat count))"
  using assms
proof (induction "unat count" arbitrary: w count off rule: less_induct)
  case less
  show ?case
  proof (cases "count = 0")
    case True
    with less.prems show ?thesis by (subst partitioning_pread.simps) (simp add: disk_read_def)
  next
    case False
    then have c: "0 < unat count" "count > 0" by (simp_all add: unat_gt_0 word_gt_0)
    have i: "part_inv sz (priv w)" "sz < 2 ^ 63" using less.prems(1) by (auto simp: world_ok_def part_inv_def regions_ok_def)
    obtain rg where rg: "find_region (the_regions (priv w)) off = Some rg"
      by (rule region_of_request [OF i(1) c(1) less.prems(2)])
    obtain res w1 where s1: "pread_region w rg (region_span rg count off) off = Some (res, w1)" "world_ok (part_inv sz) w1"
      "part_content (priv w1) = part_content (priv w)"
      "res = None \<or> (\<exists>n. res = Some (disk_read (part_content (priv w)) (unat off) n) \<and> 0 < n \<and> n \<le> unat count)"
      by (rule pread_region_ok [OF less.prems(1) c(1) less.prems(2) rg]) blast
    show ?thesis
    proof (cases res)
      case None
      with c rg s1 show ?thesis by (subst partitioning_pread.simps) simp
    next
      case (Some bs)
      then obtain n where n: "0 < n" "n \<le> unat count" "bs = disk_read (part_content (priv w)) (unat off) n" using s1(4) by auto
      note adv = unat_advance [OF n(1,2) order.strict_trans1 [OF less.prems(2) i(2)]]
      obtain r buf w2 where "partitioning_pread w1 (count - of_nat n) (off + of_nat n) = Some (r, buf, w2)"
        "world_ok (part_inv sz) w2" "part_content (priv w2) = part_content (priv w1)"
        "r \<noteq> - 1 \<longrightarrow> buf = disk_read (part_content (priv w1)) (unat off + n) (unat count - n)"
        using less.hyps [OF _ s1(2), of "count - of_nat n" "off + of_nat n"] adv n less.prems(2) by auto
      then show ?thesis
        using c rg s1(1,3) Some n disk_read_append [of "part_content (priv w)" "unat off" n "unat count - n"]
        by (subst partitioning_pread.simps) auto
    qed
  qed
qed

text \<open>A step of the writing loop.  It makes no progress only when the system call wrote nothing.\<close>

lemma sys_pwrite_result:
  assumes "script_ok (io_script s)"
  obtains n where "sys_pwrite s fd bs off = (Inr (length (take n bs)),
      s\<lparr>io_script := io_left s, os_files := (os_files s)[fd := file_write (os_files s ! fd) off (take n bs)]\<rparr>)"
    "n = 0 \<longrightarrow> bs = [] \<or> length (io_left s) < length (io_script s)"
  | e where "sys_pwrite s fd bs off = (Inl e, s\<lparr>io_script := io_left s\<rparr>)" "e > 0"
proof (cases "io_script s")
  case Nil
  then have "s\<lparr>io_script := []\<rparr> = s" by simp
  then show ?thesis using that(1) [of "length bs"] Nil by (simp add: sys_pwrite_def io_left_def)
next
  case (Cons st script)
  then show ?thesis using that assms by (cases st) (auto simp: sys_pwrite_def io_left_def script_ok_def)
qed

lemma file_write_inside:
  "off + length bs \<le> length content \<Longrightarrow> file_write content off bs = memcpy content off bs"
  by (simp add: file_write_def memcpy_def)

text \<open>Changing the bytes of one region changes the disk there.\<close>

lemma part_content_write:
  assumes "regions_from 0 (the_regions s)" and "rg \<in> set (the_regions s)" and "the_regions s' = the_regions s"
    and "pos + length bs \<le> unat (r_len rg)"
    and other: "\<And>r i. r \<in> set (the_regions s) \<Longrightarrow> r \<noteq> rg \<Longrightarrow> region_byte s' r i = region_byte s r i"
    and same: "\<And>i. i < unat (r_len rg) \<Longrightarrow>
      region_byte s' rg i = (if pos \<le> i \<and> i < pos + length bs then bs ! (i - pos) else region_byte s rg i)"
  shows "part_content s' = disk_write (part_content s) (unat (r_start rg) + pos) bs"
proof
  fix i
  have ri: "unat (r_end rg) + 1 = unat (r_start rg) + unat (r_len rg)" using regions_from_inside [OF assms(1,2)] by simp
  have outside: "\<not> (unat (r_start rg) + pos \<le> i \<and> i < unat (r_start rg) + pos + length bs)"
    if "region_at (the_regions s) i \<noteq> Some rg"
    using that region_at_inside [OF assms(1,2), of i] ri assms(4) by linarith
  show "part_content s' i = disk_write (part_content s) (unat (r_start rg) + pos) bs i"
  proof (cases "region_at (the_regions s) i")
    case None
    with outside show ?thesis by (auto simp: part_content_def disk_write_def assms(3))
  next
    case (Some r)
    then have r: "r \<in> set (the_regions s)" "unat (r_start r) \<le> i" "i \<le> unat (r_end r)"
      by (auto simp: region_at_def find_Some_iff)
    show ?thesis
    proof (cases "r = rg")
      case True
      define j where "j = i - unat (r_start rg)"
      have j: "i = unat (r_start rg) + j" "j < unat (r_len rg)" using True r ri by (simp_all add: j_def)
      then show ?thesis using Some True same [OF j(2)] by (simp add: part_content_def disk_write_def assms(3))
    next
      case False
      with Some outside other [OF r(1) False] show ?thesis by (auto simp: part_content_def disk_write_def assms(3))
    qed
  qed
qed

lemma write_file_region:
  fixes s :: part_state
  assumes "part_inv sz s" and "rg \<in> set (the_regions s)" and "r_type rg = region_file k" and "pos + length bs \<le> unat (r_len rg)"
  defines "fd \<equiv> f_fd (the_files s ! k)"
  defines "s' \<equiv> s\<lparr>io_script := io_left s, os_files := (os_files s)[fd := file_write (os_files s ! fd) pos bs]\<rparr>"
  shows "part_inv sz s'" and "part_content s' = disk_write (part_content s) (unat (r_start rg) + pos) bs"
proof -
  have bk: "fd < length (os_files s)" "length (os_files s ! fd) = unat (r_len rg)"
    using assms(1-3) by (auto simp: part_inv_def region_backed_def fd_def)
  have fw: "file_write (os_files s ! fd) pos bs = memcpy (os_files s ! fd) pos bs"
    using assms(4) bk(2) by (simp add: file_write_inside)
  have "region_backed s' r = region_backed s r" for r
    using bk assms(4) fw by (auto simp: region_backed_def s'_def nth_list_update split: region_type.splits)
  then show "part_inv sz s'"
    using assms(1) part_inv_left [OF assms(1)] by (auto simp: part_inv_def s'_def)
  show "part_content s' = disk_write (part_content s) (unat (r_start rg) + pos) bs"
  proof (rule part_content_write [OF _ assms(2) _ assms(4)])
    show "regions_from 0 (the_regions s)" using assms(1) by (simp add: part_inv_def regions_ok_def)
    show "the_regions s' = the_regions s" by (simp add: s'_def)
  next
    fix r i assume r: "r \<in> set (the_regions s)" "r \<noteq> rg"
    have "region_fd s rg = Some fd" using assms(3) by (simp add: region_fd_def fd_def)
    then have "region_fd s r \<noteq> Some fd" using assms(1,2) r unfolding part_inv_def by (metis option.distinct(1))
    then show "region_byte s' r i = region_byte s r i"
      by (auto simp: region_byte_def s'_def region_fd_def nth_list_update split: region_type.splits)
  next
    fix i assume "i < unat (r_len rg)"
    then show "region_byte s' rg i = (if pos \<le> i \<and> i < pos + length bs then bs ! (i - pos) else region_byte s rg i)"
      using bk assms(3,4) fw by (simp add: region_byte_def s'_def fd_def [symmetric] nth_memcpy)
  qed
qed

lemma disk_write_read: "disk_write d off (disk_read d off n) = d"
  by (auto simp: disk_write_def disk_read_def fun_eq_iff)

lemma is_zero_zeroes: "is_zero bs \<longleftrightarrow> bs = zeroes (length bs)"
  by (metis in_set_replicate is_zero_iff replicate_length_same)

lemma pwrite_file_ok:
  assumes "world_ok (part_inv sz) w" and "0 < unat count" and "unat off + unat count \<le> sz" and "length buf = unat count"
    and "find_region (the_regions (priv w)) off = Some rg"
    and region_file: "r_type rg = region_file k"
  obtains w' where "pwrite_region w rg buf (region_span rg count off) off = Some (None, w')" "world_ok (part_inv sz) w'"
    "part_content (priv w') = part_content (priv w)" "tl_errno w' = tl_errno w" "c_errno w' > 0"
  | n w' where "pwrite_region w rg buf (region_span rg count off) off = Some (Some n, w')" "world_ok (part_inv sz) w'"
    "part_content (priv w') = disk_write (part_content (priv w)) (unat off) (take n buf)" "n \<le> unat count"
    "length (io_script (priv w')) \<le> length (io_script (priv w))" "0 < n \<or> length (io_script (priv w')) < length (io_script (priv w))"
proof -
  let ?s = "priv w" let ?len = "unat (region_span rg count off)" let ?pos = "unat off - unat (r_start rg)"
  have i: "part_inv sz ?s" and so: "script_ok (io_script ?s)" using assms(1) by (auto simp: world_ok_def part_inv_def)
  note rg = region_facts [OF i assms(2,3,5)]
  note rd = rg(9) [OF rg(3) order.refl] and l = rg(10) and le = rg(11,12)
  let ?fd = "f_fd (the_files ?s ! k)"
  have k: "k < length (the_files ?s)" using rg(7) region_file by (simp add: region_backed_def)
  show thesis
  proof (rule sys_pwrite_result [OF so, of ?fd "take ?len buf" ?pos])
    fix n let ?bs = "take n (take ?len buf)"
    let ?s' = "?s\<lparr>io_script := io_left ?s, os_files := (os_files ?s)[?fd := file_write (os_files ?s ! ?fd) ?pos ?bs]\<rparr>"
    assume p: "sys_pwrite ?s ?fd (take ?len buf) ?pos = (Inr (length ?bs), ?s')"
      and z: "n = 0 \<longrightarrow> take ?len buf = [] \<or> length (io_left ?s) < length (io_script ?s)"
    have m: "length ?bs = min n ?len" "?bs = take (min n ?len) buf" using rg(4) assms(4) by simp_all
    have w': "part_inv sz ?s'" "part_content ?s' = disk_write (part_content ?s) (unat off) (take (min n ?len) buf)"
      using write_file_region [OF i rg(1) region_file, of ?pos ?bs] le m by simp_all
    have "pwrite_region w rg buf (region_span rg count off) off = Some (Some (min n ?len), w\<lparr>priv := ?s'\<rparr>)"
      using p region_file rg(8) k m by (simp add: pwrite_region_def Let_def)
    then show ?thesis
    proof (rule that(2))
      show "0 < min n ?len \<or> length (io_script (priv (w\<lparr>priv := ?s'\<rparr>))) < length (io_script ?s)"
        using z rg(3,4) assms(2,4) by (cases "n = 0") auto
    qed (use w' assms(1) rg(4) in \<open>simp_all add: world_ok_def io_left_def\<close>)
  next
    fix e :: int assume "sys_pwrite ?s ?fd (take ?len buf) ?pos = (Inl e, ?s\<lparr>io_script := io_left ?s\<rparr>)" "e > 0"
    then show ?thesis
      using region_file rg(8) k assms(1) part_inv_left [OF i]
      by (intro that(1) [of "w\<lparr>priv := ?s\<lparr>io_script := io_left ?s\<rparr>, c_errno := e\<rparr>"]) (simp_all add: pwrite_region_def world_ok_def Let_def)
  qed
qed

lemma pwrite_region_ok:
  assumes "world_ok (part_inv sz) w" and "0 < unat count" and "unat off + unat count \<le> sz" and "length buf = unat count"
    and "find_region (the_regions (priv w)) off = Some rg"
  obtains w' where "pwrite_region w rg buf (region_span rg count off) off = Some (None, w')" "world_ok (part_inv sz) w'"
    "part_content (priv w') = part_content (priv w)" "tl_errno w' = tl_errno w" "c_errno w' > 0"
  | n w' where "pwrite_region w rg buf (region_span rg count off) off = Some (Some n, w')" "world_ok (part_inv sz) w'"
    "part_content (priv w') = disk_write (part_content (priv w)) (unat off) (take n buf)" "n \<le> unat count"
    "length (io_script (priv w')) \<le> length (io_script (priv w))" "0 < n \<or> length (io_script (priv w')) < length (io_script (priv w))"
proof -
  let ?s = "priv w" let ?len = "unat (region_span rg count off)" let ?pos = "unat off - unat (r_start rg)"
  have i: "part_inv sz ?s" and so: "script_ok (io_script ?s)" using assms(1) by (auto simp: world_ok_def part_inv_def)
  note rg = region_facts [OF i assms(2,3,5)]
  note rd = rg(9) [OF rg(3) order.refl] and l = rg(10) and le = rg(11,12)
  show thesis
  proof (cases "r_type rg")
    case (region_file k)
    show ?thesis by (rule pwrite_file_ok [OF assms region_file]) (rule that; assumption)+
  next
    case (region_data b)
    then have "data_bytes ?s b = region_bytes ?s rg" by (simp add: region_bytes_def)
    then have "pwrite_region w rg buf (region_span rg count off) off
        = Some (if disk_read (part_content ?s) (unat off) ?len \<noteq> take ?len buf then (None, w\<lparr>c_errno := EIO\<rparr>) else (Some ?len, w))"
      using region_data rg(8) l le rd by (simp add: pwrite_region_def Let_def)
    then show ?thesis using assms(1) rg(3,4) that disk_write_read [of "part_content ?s" "unat off" ?len]
      by (auto simp: world_ok_def split: if_splits)
  next
    case region_zero
    then have "disk_read (part_content ?s) (unat off) ?len = zeroes ?len" using le rd by (simp add: region_bytes_def)
    moreover have "is_zero (take ?len buf) \<longleftrightarrow> take ?len buf = zeroes ?len"
      using is_zero_zeroes [of "take ?len buf"] rg(4) assms(4) by (simp add: min_absorb2)
    ultimately have "pwrite_region w rg buf (region_span rg count off) off
        = Some (if disk_read (part_content ?s) (unat off) ?len \<noteq> take ?len buf then (None, w\<lparr>c_errno := EIO\<rparr>) else (Some ?len, w))"
      using region_zero by (auto simp: pwrite_region_def Let_def)
    then show ?thesis using assms(1) rg(3,4) that disk_write_read [of "part_content ?s" "unat off" ?len]
      by (auto simp: world_ok_def split: if_splits)
  qed
qed

lemma write_step:
  assumes "n \<le> length buf" and "C1 = disk_write C off (take n buf)"
    and "same_outside (off + n) (length buf - n) C1 C2"
  shows "same_outside off (length buf) C C2" and "disk_write C1 (off + n) (drop n buf) = disk_write C off buf"
proof -
  have "same_outside off (length buf) C C1"
    using same_outside_write [of "take n buf" n off C] assms(1,2) by (auto intro: same_outside_mono)
  then show "same_outside off (length buf) C C2" using assms(1,3) by (auto intro: same_outside_trans)
  show "disk_write C1 (off + n) (drop n buf) = disk_write C off buf"
    using disk_write_append [of C off "take n buf" "drop n buf"] assms(1,2) by simp
qed

lemma partitioning_pwrite_ok:
  assumes "world_ok (part_inv sz) w" and "unat off + unat count \<le> sz" and "length buf = unat count"
  shows "cb_result (part_inv sz) part_content w (unat off) (unat count)
    (\<lambda>d. d = disk_write (part_content (priv w)) (unat off) buf) (\<lambda>_. True)
    (partitioning_pwrite w buf count off)"
  using assms
proof (induction "unat count + length (io_script (priv w))" arbitrary: w count off buf rule: less_induct)
  case less
  show ?case
  proof (cases "count = 0")
    case True
    with less.prems show ?thesis by (subst partitioning_pwrite.simps) (simp add: cb_result_def)
  next
    case False
    then have c: "0 < unat count" "count > 0" by (simp_all add: unat_gt_0 word_gt_0)
    have i: "part_inv sz (priv w)" "sz < 2 ^ 63" using less.prems(1) by (auto simp: world_ok_def part_inv_def regions_ok_def)
    obtain rg where rg: "find_region (the_regions (priv w)) off = Some rg"
      by (rule region_of_request [OF i(1) c(1) less.prems(2)])
    show ?thesis
    proof (rule pwrite_region_ok [OF less.prems(1) c(1) less.prems(2,3) rg])
      fix w1 assume s1: "pwrite_region w rg buf (region_span rg count off) off = Some (None, w1)" "world_ok (part_inv sz) w1"
        "part_content (priv w1) = part_content (priv w)" "c_errno w1 > 0"
      with c rg show ?thesis by (subst partitioning_pwrite.simps) (simp add: cb_result_def)
    next
      fix n w1 assume s1: "pwrite_region w rg buf (region_span rg count off) off = Some (Some n, w1)" "world_ok (part_inv sz) w1"
        "part_content (priv w1) = disk_write (part_content (priv w)) (unat off) (take n buf)" "n \<le> unat count"
        "length (io_script (priv w1)) \<le> length (io_script (priv w))" "0 < n \<or> length (io_script (priv w1)) < length (io_script (priv w))"
      have adv: "unat (count - of_nat n) = unat count - n" "unat (off + of_nat n) = unat off + n"
        using unat_advance [of n count off] s1(4) i(2) less.prems(2) by (cases "n = 0"; simp)+
      have "cb_result (part_inv sz) part_content w1 (unat off + n) (unat count - n)
          (\<lambda>d. d = disk_write (part_content (priv w1)) (unat off + n) (drop n buf)) (\<lambda>_. True)
          (partitioning_pwrite w1 (drop n buf) (count - of_nat n) (off + of_nat n))"
        using less.hyps [OF _ s1(2), of "count - of_nat n" "off + of_nat n" "drop n buf"] adv s1(4-6) less.prems(2,3) by auto
      then obtain r w2 where r: "partitioning_pwrite w1 (drop n buf) (count - of_nat n) (off + of_nat n) = Some (r, w2)"
        "world_ok (part_inv sz) w2" "same_outside (unat off + n) (unat count - n) (part_content (priv w1)) (part_content (priv w2))"
        "if r = - 1 then True
         else part_content (priv w2) = disk_write (part_content (priv w1)) (unat off + n) (drop n buf)"
        by (rule cb_resultE)
      have "partitioning_pwrite w buf count off = Some (r, w2)" using c rg s1(1) r(1) by (subst partitioning_pwrite.simps) simp
      then show ?thesis
        using r(2-4) write_step [of n buf "part_content (priv w1)" "part_content (priv w)" "unat off" "part_content (priv w2)"]
          s1(3,4) less.prems(3) by (simp add: cb_result_def split: if_splits)
    qed
  qed
qed

lemma flush_files_ok:
  "world_ok (part_inv sz) w \<Longrightarrow> flush_files fs w = (r, w') \<Longrightarrow> world_ok (part_inv sz) w' \<and> part_content (priv w') = part_content (priv w)
     \<and> (r = - 1 \<longrightarrow> c_errno w' > 0)"
proof (induction fs arbitrary: w)
  case (Cons f fs)
  have i: "part_inv sz (priv w)" "script_ok (io_script (priv w))" using Cons.prems(1) by (auto simp: world_ok_def part_inv_def)
  have left: "world_ok (part_inv sz) (w\<lparr>priv := (priv w)\<lparr>io_script := io_left (priv w)\<rparr>\<rparr>)"
    using Cons.prems(1) part_inv_left [OF i(1)] by (simp add: world_ok_def)
  show ?case
  proof (cases "\<exists>e script. io_script (priv w) = IoErr e # script")
    case True
    then obtain e script where e: "io_script (priv w) = IoErr e # script" by blast
    then have "e > 0" using i(2) by (auto simp: script_ok_def)
    with e Cons.prems left show ?thesis by (auto simp: sys_fdatasync_def io_left_def world_ok_def)
  next
    case False
    then have "sys_fdatasync (priv w) (f_fd f) = (None, (priv w)\<lparr>io_script := io_left (priv w)\<rparr>)"
      by (auto simp: sys_fdatasync_def io_left_def split: list.splits io_step.splits)
    with Cons.prems Cons.IH [OF left] show ?thesis by simp
  qed
qed simp

lemma partitioning_plugin_sel [simp]:
  "p_pread partitioning_plugin = None" "p_pwrite partitioning_plugin = None" "p_flush partitioning_plugin = None"
  "p_trim partitioning_plugin = None" "p_zero partitioning_plugin = None" "p_extents partitioning_plugin = None"
  "p_cache partitioning_plugin = None" "p_pread_v1 partitioning_plugin = Some partitioning_pread"
  "p_pwrite_v1 partitioning_plugin = Some partitioning_pwrite" "p_flush_v1 partitioning_plugin = Some partitioning_flush"
  "p_trim_v1 partitioning_plugin = None" "p_zero_v1 partitioning_plugin = None" "p_errno_is_preserved partitioning_plugin = 1"
  by (simp_all add: partitioning_plugin_def)

interpretation part_disk: disk_plugin partitioning_plugin "part_inv sz" part_content sz True for sz
proof (unfold_locales, goal_cases)
  case 3 then show ?case using partitioning_pread_ok by auto
next
  case 5 then show ?case using partitioning_pwrite_ok by (simp add: err_ok_def)
next
  case (7 gf w)
  obtain r w' where f: "flush_files (the_files (priv w)) w = (r, w')" by force
  from flush_files_ok [OF 7(2) f] 7 f show ?case
    by (auto simp: partitioning_flush_def cb_result_def err_ok_def)
qed simp_all

end
