(* ===== verification/Crc.thy ===== *)
theory Crc
  imports Prelude
begin

text \<open>
  The CRC-32 of \<^verbatim>\<open>src/common/gpt/efi-crc32.c\<close>, which protects GPT headers and partition arrays, and the bit-by-bit
  definition of the checksum that its table encodes.
\<close>

definition crc32_tab :: "u32 list" where
  "crc32_tab = [
      0x00000000, 0x77073096, 0xee0e612c, 0x990951ba, 0x076dc419, 0x706af48f, 0xe963a535, 0x9e6495a3,
      0x0edb8832, 0x79dcb8a4, 0xe0d5e91e, 0x97d2d988, 0x09b64c2b, 0x7eb17cbd, 0xe7b82d07, 0x90bf1d91,
      0x1db71064, 0x6ab020f2, 0xf3b97148, 0x84be41de, 0x1adad47d, 0x6ddde4eb, 0xf4d4b551, 0x83d385c7,
      0x136c9856, 0x646ba8c0, 0xfd62f97a, 0x8a65c9ec, 0x14015c4f, 0x63066cd9, 0xfa0f3d63, 0x8d080df5,
      0x3b6e20c8, 0x4c69105e, 0xd56041e4, 0xa2677172, 0x3c03e4d1, 0x4b04d447, 0xd20d85fd, 0xa50ab56b,
      0x35b5a8fa, 0x42b2986c, 0xdbbbc9d6, 0xacbcf940, 0x32d86ce3, 0x45df5c75, 0xdcd60dcf, 0xabd13d59,
      0x26d930ac, 0x51de003a, 0xc8d75180, 0xbfd06116, 0x21b4f4b5, 0x56b3c423, 0xcfba9599, 0xb8bda50f,
      0x2802b89e, 0x5f058808, 0xc60cd9b2, 0xb10be924, 0x2f6f7c87, 0x58684c11, 0xc1611dab, 0xb6662d3d,
      0x76dc4190, 0x01db7106, 0x98d220bc, 0xefd5102a, 0x71b18589, 0x06b6b51f, 0x9fbfe4a5, 0xe8b8d433,
      0x7807c9a2, 0x0f00f934, 0x9609a88e, 0xe10e9818, 0x7f6a0dbb, 0x086d3d2d, 0x91646c97, 0xe6635c01,
      0x6b6b51f4, 0x1c6c6162, 0x856530d8, 0xf262004e, 0x6c0695ed, 0x1b01a57b, 0x8208f4c1, 0xf50fc457,
      0x65b0d9c6, 0x12b7e950, 0x8bbeb8ea, 0xfcb9887c, 0x62dd1ddf, 0x15da2d49, 0x8cd37cf3, 0xfbd44c65,
      0x4db26158, 0x3ab551ce, 0xa3bc0074, 0xd4bb30e2, 0x4adfa541, 0x3dd895d7, 0xa4d1c46d, 0xd3d6f4fb,
      0x4369e96a, 0x346ed9fc, 0xad678846, 0xda60b8d0, 0x44042d73, 0x33031de5, 0xaa0a4c5f, 0xdd0d7cc9,
      0x5005713c, 0x270241aa, 0xbe0b1010, 0xc90c2086, 0x5768b525, 0x206f85b3, 0xb966d409, 0xce61e49f,
      0x5edef90e, 0x29d9c998, 0xb0d09822, 0xc7d7a8b4, 0x59b33d17, 0x2eb40d81, 0xb7bd5c3b, 0xc0ba6cad,
      0xedb88320, 0x9abfb3b6, 0x03b6e20c, 0x74b1d29a, 0xead54739, 0x9dd277af, 0x04db2615, 0x73dc1683,
      0xe3630b12, 0x94643b84, 0x0d6d6a3e, 0x7a6a5aa8, 0xe40ecf0b, 0x9309ff9d, 0x0a00ae27, 0x7d079eb1,
      0xf00f9344, 0x8708a3d2, 0x1e01f268, 0x6906c2fe, 0xf762575d, 0x806567cb, 0x196c3671, 0x6e6b06e7,
      0xfed41b76, 0x89d32be0, 0x10da7a5a, 0x67dd4acc, 0xf9b9df6f, 0x8ebeeff9, 0x17b7be43, 0x60b08ed5,
      0xd6d6a3e8, 0xa1d1937e, 0x38d8c2c4, 0x4fdff252, 0xd1bb67f1, 0xa6bc5767, 0x3fb506dd, 0x48b2364b,
      0xd80d2bda, 0xaf0a1b4c, 0x36034af6, 0x41047a60, 0xdf60efc3, 0xa867df55, 0x316e8eef, 0x4669be79,
      0xcb61b38c, 0xbc66831a, 0x256fd2a0, 0x5268e236, 0xcc0c7795, 0xbb0b4703, 0x220216b9, 0x5505262f,
      0xc5ba3bbe, 0xb2bd0b28, 0x2bb45a92, 0x5cb36a04, 0xc2d7ffa7, 0xb5d0cf31, 0x2cd99e8b, 0x5bdeae1d,
      0x9b64c2b0, 0xec63f226, 0x756aa39c, 0x026d930a, 0x9c0906a9, 0xeb0e363f, 0x72076785, 0x05005713,
      0x95bf4a82, 0xe2b87a14, 0x7bb12bae, 0x0cb61b38, 0x92d28e9b, 0xe5d5be0d, 0x7cdcefb7, 0x0bdbdf21,
      0x86d3d2d4, 0xf1d4e242, 0x68ddb3f8, 0x1fda836e, 0x81be16cd, 0xf6b9265b, 0x6fb077e1, 0x18b74777,
      0x88085ae6, 0xff0f6a70, 0x66063bca, 0x11010b5c, 0x8f659eff, 0xf862ae69, 0x616bffd3, 0x166ccf45,
      0xa00ae278, 0xd70dd2ee, 0x4e048354, 0x3903b3c2, 0xa7672661, 0xd06016f7, 0x4969474d, 0x3e6e77db,
      0xaed16a4a, 0xd9d65adc, 0x40df0b66, 0x37d83bf0, 0xa9bcae53, 0xdebb9ec5, 0x47b2cf7f, 0x30b5ffe9,
      0xbdbdf21c, 0xcabac28a, 0x53b39330, 0x24b4a3a6, 0xbad03605, 0xcdd70693, 0x54de5729, 0x23d967bf,
      0xb3667a2e, 0xc4614ab8, 0x5d681b02, 0x2a6f2b94, 0xb40bbe37, 0xc30c8ea1, 0x5a05df1b, 0x2d02ef8d]"

text \<open>The loop of \<^verbatim>\<open>_efi_crc32\<close>, over the bytes of the buffer.\<close>

definition efi_crc32_from :: "u8 list \<Rightarrow> u32 \<Rightarrow> u32" where
  "efi_crc32_from buf seed =
     foldl (\<lambda>crc32val b. crc32_tab ! unat ((crc32val XOR ucast b) AND 0xff) XOR drop_bit 8 crc32val) seed buf"

definition efi_crc32 :: "u8 list \<Rightarrow> u32" where
  "efi_crc32 buf = efi_crc32_from buf (- 1) XOR - 1"

subsection \<open>The checksum bit by bit\<close>

text \<open>Division by the polynomial \<^verbatim>\<open>edb88320\<close>, least significant bit first.\<close>

definition crc_bit :: "u32 \<Rightarrow> u32" where
  "crc_bit c = (if bit c 0 then drop_bit 1 c XOR 0xedb88320 else drop_bit 1 c)"

definition crc_byte :: "u32 \<Rightarrow> u8 \<Rightarrow> u32" where
  "crc_byte c b = (crc_bit ^^ 8) (c XOR ucast b)"

definition crc_spec :: "u8 list \<Rightarrow> u32" where
  "crc_spec buf = NOT (foldl crc_byte (NOT 0) buf)"

lemma crc_bit_xor: "crc_bit (x XOR y) = crc_bit x XOR crc_bit y"
  by (auto simp: crc_bit_def bit_xor_iff bit_eq_iff bit_simps)

lemma crc_bits_xor: "(crc_bit ^^ n) (x XOR y) = (crc_bit ^^ n) x XOR (crc_bit ^^ n) y"
  by (induction n) (simp_all add: crc_bit_xor)

lemma crc_bits_shift: "(\<forall>k < n. \<not> bit x k) \<Longrightarrow> (crc_bit ^^ n) x = drop_bit n x"
proof (induction n arbitrary: x)
  case (Suc n)
  have "crc_bit x = drop_bit 1 x" using Suc.prems by (simp add: crc_bit_def)
  moreover have "\<forall>k < n. \<not> bit (drop_bit 1 x) k" using Suc.prems by (simp add: bit_simps)
  ultimately show ?case using Suc.IH [of "drop_bit 1 x"] by (simp add: funpow_swap1)
qed simp

text \<open>By linearity the table is determined by its entries at the powers of two.\<close>

fun xor_table :: "u32 list \<Rightarrow> u32 list" where
  "xor_table [] = [0]"
| "xor_table (x # xs) = (let t = xor_table xs in t @ map (\<lambda>y. x XOR y) t)"

lemma xor_table_crc: "xor_table (map (\<lambda>k. (crc_bit ^^ 8) (2 ^ k)) (rev [0..<n])) = map (\<lambda>i. (crc_bit ^^ 8) (of_nat i)) [0..<2 ^ n]"
proof (induction n)
  case 0
  show ?case by (simp add: crc_bits_shift)
next
  case (Suc n)
  have "of_nat i + 2 ^ n = (2 ^ n :: u32) XOR of_nat i" if "i < 2 ^ n" for i
  proof -
    have "\<not> bit i n" using that by (simp add: bit_iff_odd)
    then have "(2 ^ n :: u32) AND of_nat i = 0" by (intro bit_word_eqI) (auto simp: bit_simps)
    from disjunctive_add_eq_xor [OF this] show ?thesis by (simp add: add.commute)
  qed
  then show ?case
    using Suc by (simp add: Let_def upt_add_eq_append mult_2 crc_bits_xor map_add_upt [symmetric] o_def)
qed

lemma crc32_tab_powers:
  "map (\<lambda>k. (crc_bit ^^ 8) (2 ^ k)) (rev [0..<8])
     = [0xedb88320, 0x76dc4190, 0x3b6e20c8, 0x1db71064, 0x0edb8832, 0x076dc419, 0xee0e612c, 0x77073096]"
  by code_simp

lemma xor_table_tab:
  "xor_table [0xedb88320, 0x76dc4190, 0x3b6e20c8, 0x1db71064, 0x0edb8832, 0x076dc419, 0xee0e612c, 0x77073096] = crc32_tab"
  by (simp add: Let_def crc32_tab_def)

lemma crc32_tab_entries: "map (\<lambda>i. (crc_bit ^^ 8) (of_nat i)) [0..<256] = crc32_tab"
  using xor_table_crc [of 8] crc32_tab_powers xor_table_tab by simp

lemma crc32_tab_nth: "i < 256 \<Longrightarrow> crc32_tab ! i = (crc_bit ^^ 8) (of_nat i)"
  by (simp flip: crc32_tab_entries)

text \<open>One table lookup does eight steps.\<close>

lemma crc_lookup: "crc32_tab ! unat (x AND 0xff) XOR drop_bit 8 x = (crc_bit ^^ 8) x"
proof -
  have "unat (x AND 0xff) < 256" using unat_and_exp_minus_1 [of x 8] by simp
  then have "crc32_tab ! unat (x AND 0xff) = (crc_bit ^^ 8) (x AND 0xff)" by (simp add: crc32_tab_nth)
  moreover have "(crc_bit ^^ 8) (x AND NOT 0xff) = drop_bit 8 x"
  proof -
    have e: "(0xff :: u32) = mask 8" by (simp add: mask_eq_exp_minus_1)
    have "(crc_bit ^^ 8) (x AND NOT 0xff) = drop_bit 8 (x AND NOT 0xff)"
      unfolding e by (intro crc_bits_shift) (simp add: bit_simps)
    also have "\<dots> = drop_bit 8 x" unfolding e by (rule bit_word_eqI) (auto simp: bit_simps dest: bit_imp_le_length)
    finally show ?thesis .
  qed
  moreover have "(x AND 0xff) XOR (x AND NOT 0xff) = x" by (rule bit_word_eqI) (auto simp: bit_simps)
  ultimately show ?thesis using crc_bits_xor [of 8 "x AND 0xff" "x AND NOT 0xff"] by simp
qed

lemma crc_step:
  "crc32_tab ! unat ((c XOR ucast b) AND 0xff) XOR drop_bit 8 c = crc_byte c b"
proof -
  have "drop_bit 8 (c XOR ucast b) = drop_bit 8 c" by (rule bit_word_eqI) (auto simp: bit_simps dest: bit_imp_le_length)
  then show ?thesis using crc_lookup [of "c XOR ucast b"] by (simp add: crc_byte_def)
qed

text \<open>C23: The table-driven checksum is the CRC-32 computed bit by bit with the reflected polynomial
  \<^verbatim>\<open>edb88320\<close>, inverted before and after.\<close>

theorem efi_crc32_bitwise: "efi_crc32 buf = crc_spec buf"
proof -
  have "foldl (\<lambda>c b. crc32_tab ! unat ((c XOR ucast b) AND 0xff) XOR drop_bit 8 c) s buf = foldl crc_byte s buf" for s
    by (simp add: crc_step)
  then show ?thesis by (simp add: efi_crc32_def efi_crc32_from_def crc_spec_def)
qed

text \<open>The customary check value.\<close>

lemma efi_crc32_check: "efi_crc32 [0x31, 0x32, 0x33, 0x34, 0x35, 0x36, 0x37, 0x38, 0x39] = 0xcbf43926"
  by code_simp

end
