(* ===== verification/Gpt.thy ===== *)
theory Gpt
  imports Prelude
begin

text \<open>
  Little-endian numbers and the structures of \<^verbatim>\<open>src/common/gpt/gpt.h\<close> as they lie in memory, with the padding at the
  end of \<^verbatim>\<open>struct gpt_header\<close> that aligns it to eight bytes.
\<close>

definition le_enc :: "nat \<Rightarrow> 'a::len word \<Rightarrow> u8 list" where
  "le_enc n w = rev (be_enc n w)"

definition le_dec :: "u8 list \<Rightarrow> 'a::len word" where
  "le_dec bs = be_dec (rev bs)"

abbreviation le32 :: "u32 \<Rightarrow> u8 list" where "le32 \<equiv> le_enc 4"
abbreviation le64 :: "u64 \<Rightarrow> u8 list" where "le64 \<equiv> le_enc 8"

lemma length_le_enc [simp]: "length (le_enc n w) = n"
  by (simp add: le_enc_def)

lemma le_dec_enc [simp]: "le_dec (le32 w) = w" "le_dec (le64 v) = v"
  by (simp_all add: le_dec_def le_enc_def)

record gpt_header =
  gh_signature :: "u8 list"
  gh_revision :: "u8 list"
  gh_header_size :: u32
  gh_crc :: u32
  gh_reserved :: u32
  gh_current_lba :: u64
  gh_backup_lba :: u64
  gh_first_usable_lba :: u64
  gh_last_usable_lba :: u64
  gh_guid :: "u8 list"
  gh_partition_entries_lba :: u64
  gh_nr_partition_entries :: u32
  gh_size_partition_entry :: u32
  gh_crc_partitions :: u32

definition GPT_SIGNATURE :: "u8 list" where
  "GPT_SIGNATURE = [0x45, 0x46, 0x49, 0x20, 0x50, 0x41, 0x52, 0x54]"

definition GPT_REVISION :: "u8 list" where
  "GPT_REVISION = [0, 0, 1, 0]"

definition gpt_header_bytes :: "gpt_header \<Rightarrow> u8 list" where
  "gpt_header_bytes h =
     gh_signature h @ gh_revision h @ le32 (gh_header_size h) @ le32 (gh_crc h) @ le32 (gh_reserved h)
     @ le64 (gh_current_lba h) @ le64 (gh_backup_lba h) @ le64 (gh_first_usable_lba h) @ le64 (gh_last_usable_lba h)
     @ gh_guid h @ le64 (gh_partition_entries_lba h) @ le32 (gh_nr_partition_entries h)
     @ le32 (gh_size_partition_entry h) @ le32 (gh_crc_partitions h) @ zeroes 4"

record gpt_entry =
  ge_partition_type_guid :: "u8 list"
  ge_unique_guid :: "u8 list"
  ge_first_lba :: u64
  ge_last_lba :: u64
  ge_attributes :: u64
  ge_name :: "u8 list"

definition gpt_entry_bytes :: "gpt_entry \<Rightarrow> u8 list" where
  "gpt_entry_bytes e =
     ge_partition_type_guid e @ ge_unique_guid e @ le64 (ge_first_lba e) @ le64 (ge_last_lba e)
     @ le64 (ge_attributes e) @ ge_name e"

abbreviation GPT_MIN_PARTITIONS :: u64 where "GPT_MIN_PARTITIONS \<equiv> 128"
abbreviation GPT_PT_ENTRY_SIZE :: u64 where "GPT_PT_ENTRY_SIZE \<equiv> 128"

text \<open>Well-formed structures have the sizes that \<^verbatim>\<open>sizeof\<close> gives.\<close>

definition gpt_header_ok :: "gpt_header \<Rightarrow> bool" where
  "gpt_header_ok h \<longleftrightarrow> length (gh_signature h) = 8 \<and> length (gh_revision h) = 4 \<and> length (gh_guid h) = 16"

definition gpt_entry_ok :: "gpt_entry \<Rightarrow> bool" where
  "gpt_entry_ok e \<longleftrightarrow> length (ge_partition_type_guid e) = 16 \<and> length (ge_unique_guid e) = 16 \<and> length (ge_name e) = 72"

lemma length_gpt_bytes:
  "gpt_header_ok h \<Longrightarrow> length (gpt_header_bytes h) = 96" "gpt_entry_ok e \<Longrightarrow> length (gpt_entry_bytes e) = 128"
  by (simp_all add: gpt_header_ok_def gpt_header_bytes_def gpt_entry_ok_def gpt_entry_bytes_def)

end
