(* ===== verification/PartitionTables.thy ===== *)
theory PartitionTables
  imports Partitioning Crc Gpt
begin

text \<open>
  The layout of the partitioning plugin's virtual disk (\<^verbatim>\<open>virtual-disk.c\<close>) and the partition tables it makes up
  (\<^verbatim>\<open>partition-mbr.c\<close>, \<^verbatim>\<open>partition-gpt.c\<close>), under \<^verbatim>\<open>src/plugins/partitioning\<close>.  Memory allocation succeeds;
  \<^term>\<open>None\<close> is a failed assertion or a call of \<^verbatim>\<open>abort\<close>.
\<close>

abbreviation UINT32_MAX :: u64 where "UINT32_MAX \<equiv> 0xffffffff"
abbreviation MAX_ALIGNMENT :: u64 where "MAX_ALIGNMENT \<equiv> 2048 * SECTOR_SIZE"
abbreviation MAX_MBR_DISK_SIZE :: u64 where "MAX_MBR_DISK_SIZE \<equiv> UINT32_MAX * SECTOR_SIZE - 5 * MAX_ALIGNMENT"

definition partitioning_config_complete :: "part_state \<Rightarrow> int \<times> part_state" where
  "partitioning_config_complete s =
     (if the_files s = [] then (- 1, s)
      else
        let total_size = (\<Sum>f\<leftarrow>the_files s. f_size f);
            needs_gpt = (total_size > MAX_MBR_DISK_SIZE) in
        if the_parttype s = PARTTYPE_UNSET then
          (0, s\<lparr>the_parttype := if needs_gpt \<or> length (the_files s) > 4 then PARTTYPE_GPT else PARTTYPE_MBR\<rparr>)
        else if the_parttype s = PARTTYPE_MBR \<and> needs_gpt then (- 1, s)
        else (0, s))"

subsection \<open>MBR\<close>

definition chs_too_large :: "u8 list" where
  "chs_too_large = [254, ucast (drop_bit 2 (1023 AND 0x300 :: u32) OR 63), ucast (1023 AND 0xff :: u32)]"

definition create_mbr_partition_table_entry :: "u64 \<Rightarrow> u64 \<Rightarrow> bool \<Rightarrow> u8 \<Rightarrow> u8 list option" where
  "create_mbr_partition_table_entry start len bootable partition_id = do {
     aligned \<leftarrow> IS_ALIGNED start SECTOR_SIZE;
     c_assert aligned;
     let start_sector = start div SECTOR_SIZE;
     let nr_sectors = DIV_ROUND_UP len SECTOR_SIZE;
     c_assert (start_sector \<le> UINT32_MAX);
     c_assert (nr_sectors \<le> UINT32_MAX);
     Some ([if bootable then 0x80 else 0] @ chs_too_large @ [partition_id] @ chs_too_large
       @ le32 (ucast start_sector) @ le32 (ucast nr_sectors))
   }"

text \<open>The linear scans from a scratch index, which is moved to the region found.\<close>

function scan_regions :: "('p region \<Rightarrow> bool) \<Rightarrow> 'p regions \<Rightarrow> nat \<Rightarrow> ('p region \<times> nat) option" where
  "scan_regions P rs j =
     (if j < nr_regions rs then if P (rs ! j) then Some (rs ! j, j) else scan_regions P rs (j + 1) else None)"
  by pat_completeness auto
termination
  by (relation "measure (\<lambda>(P, rs, j). length rs - j)") (auto simp: nr_regions_def)

declare scan_regions.simps [simp del]

definition find_file_region :: "buffer regions \<Rightarrow> nat \<Rightarrow> nat \<Rightarrow> (buffer region \<times> nat) option" where
  "find_file_region rs i j = scan_regions (\<lambda>rg. r_type rg = region_file i) rs j"

definition find_ebr_region :: "buffer regions \<Rightarrow> nat \<Rightarrow> nat \<Rightarrow> (buffer region \<times> nat) option" where
  "find_ebr_region rs i j = do {
     c_assert (i \<ge> 3);
     scan_regions (\<lambda>rg. r_type rg = region_data (Ebr (i - 3))) rs j
   }"

definition boot_signature :: "u8 list \<Rightarrow> u8 list" where
  "boot_signature sector = sector[0x1fe := 0x55, 0x1ff := 0xaa]"

text \<open>The entries for the files \<open>is\<close> in the primary table.\<close>

fun mbr_primary :: "part_state \<Rightarrow> nat list \<Rightarrow> nat \<Rightarrow> u8 list \<Rightarrow> (u8 list \<times> nat) option" where
  "mbr_primary s [] j table = Some (table, j)"
| "mbr_primary s (i # is) j table = do {
     (rg, j) \<leftarrow> find_file_region (the_regions s) i j;
     e \<leftarrow> create_mbr_partition_table_entry (r_start rg) (r_len rg) (i = 0) (f_mbr_id (the_files s ! i));
     mbr_primary s is j (memcpy table (0x1be + 16 * i) e)
   }"

text \<open>One extended boot record, and all of them.\<close>

definition mbr_ebr :: "part_state \<Rightarrow> buffer region \<Rightarrow> buffer region \<Rightarrow> buffer region \<Rightarrow> nat \<Rightarrow> nat \<Rightarrow> u8 list \<Rightarrow> u8 list option" where
  "mbr_ebr s eptr0 eptr rptr i j sector = do {
     e \<leftarrow> create_mbr_partition_table_entry (r_start rptr - r_start eptr) (r_len rptr) False (f_mbr_id (the_files s ! i));
     let sector = memcpy (boot_signature sector) 0x1be e;
     (if i < length (the_files s) - 1 then do {
        (enext, j2) \<leftarrow> find_ebr_region (the_regions s) (i + 1) j;
        (rnext, j2) \<leftarrow> find_file_region (the_regions s) (i + 1) j2;
        e \<leftarrow> create_mbr_partition_table_entry (r_start enext - r_start eptr0) (r_end rnext - r_start enext + 1) False 0xf;
        Some (memcpy sector 0x1ce e) }
      else Some sector)
   }"

fun mbr_logical :: "part_state \<Rightarrow> buffer region \<Rightarrow> nat list \<Rightarrow> nat \<Rightarrow> u8 list list \<Rightarrow> u8 list list option" where
  "mbr_logical s eptr0 [] j ebrs = Some ebrs"
| "mbr_logical s eptr0 (i # is) j ebrs = do {
     (eptr, j) \<leftarrow> (if i = 3 then Some (eptr0, j) else find_ebr_region (the_regions s) i j);
     (rptr, j) \<leftarrow> find_file_region (the_regions s) i j;
     sector \<leftarrow> mbr_ebr s eptr0 eptr rptr i j (ebrs ! (i - 3));
     mbr_logical s eptr0 is j (ebrs[i - 3 := sector])
   }"

definition create_mbr_layout :: "part_state \<Rightarrow> part_state option" where
  "create_mbr_layout s = do {
     table \<leftarrow> primary s;
     let table = boot_signature table;
     let n = length (the_files s);
     (if n \<le> 4 then do {
        (table, j) \<leftarrow> mbr_primary s [0..<n] 0 table;
        Some (s\<lparr>primary := Some table\<rparr>) }
      else do {
        (table, j) \<leftarrow> mbr_primary s [0..<3] 0 table;
        (eptr0, j) \<leftarrow> find_ebr_region (the_regions s) 3 j;
        let end = virtual_size (the_regions s) - 1;
        e \<leftarrow> create_mbr_partition_table_entry (r_start eptr0) (end - r_start eptr0 + 1) False 0xf;
        ebrs \<leftarrow> ebr s;
        ebrs \<leftarrow> mbr_logical s eptr0 [3..<n] j ebrs;
        Some (s\<lparr>primary := Some (memcpy table 0x1ee e), ebr := Some ebrs\<rparr>) })
   }"

subsection \<open>GPT\<close>

definition GPT_PTA_SIZE :: "part_state \<Rightarrow> u64 option" where
  "GPT_PTA_SIZE s = ROUND_UP (of_nat (length (the_files s))) GPT_MIN_PARTITIONS"

definition GPT_PTA_LBAs :: "part_state \<Rightarrow> u64 option" where
  "GPT_PTA_LBAs s = do { pta \<leftarrow> GPT_PTA_SIZE s; Some (pta * GPT_PT_ENTRY_SIZE div SECTOR_SIZE) }"

definition create_gpt_partition_header :: "part_state \<Rightarrow> u8 list \<Rightarrow> bool \<Rightarrow> u8 list option" where
  "create_gpt_partition_header s pt is_primary = do {
     pta \<leftarrow> GPT_PTA_SIZE s;
     lbas \<leftarrow> GPT_PTA_LBAs s;
     let nr_lbas = virtual_size (the_regions s) div SECTOR_SIZE;
     let header =
       \<lparr>gh_signature = GPT_SIGNATURE, gh_revision = GPT_REVISION, gh_header_size = 96, gh_crc = 0, gh_reserved = 0,
        gh_current_lba = (if is_primary then 1 else nr_lbas - 1), gh_backup_lba = (if is_primary then nr_lbas - 1 else 1),
        gh_first_usable_lba = 2 + lbas, gh_last_usable_lba = nr_lbas - lbas - 2, gh_guid = zeroes 16,
        gh_partition_entries_lba = (if is_primary then 2 else nr_lbas - lbas - 1),
        gh_nr_partition_entries = ucast pta, gh_size_partition_entry = ucast GPT_PT_ENTRY_SIZE,
        gh_crc_partitions = efi_crc32 (take (unat (GPT_PT_ENTRY_SIZE * pta)) pt)\<rparr>;
     Some (gpt_header_bytes (header\<lparr>gh_crc := efi_crc32 (gpt_header_bytes header)\<rparr>))
   }"

text \<open>The name of a file in UTF-16, if it is short and plain ASCII.\<close>

definition gpt_entry_name :: "cstring \<Rightarrow> u8 list" where
  "gpt_entry_name filename =
     (if length filename < 36 \<and> list_all (\<lambda>ch. \<not> ch > 127) filename
      then concat (map (\<lambda>ch. [ch, 0]) filename) @ zeroes (72 - 2 * length filename)
      else zeroes 72)"

definition create_gpt_partition_table_entry :: "part_state \<Rightarrow> buffer region \<Rightarrow> nat \<Rightarrow> bool \<Rightarrow> u8 list" where
  "create_gpt_partition_table_entry s rg i bootable =
     gpt_entry_bytes
       \<lparr>ge_partition_type_guid = f_type_guid (the_files s ! i), ge_unique_guid = f_guid (the_files s ! i),
        ge_first_lba = r_start rg div SECTOR_SIZE, ge_last_lba = r_end rg div SECTOR_SIZE,
        ge_attributes = (if bootable then 4 else 0), ge_name = gpt_entry_name (f_filename (the_files s ! i))\<rparr>"

fun gpt_table_loop :: "part_state \<Rightarrow> u64 \<Rightarrow> buffer regions \<Rightarrow> u8 list \<Rightarrow> nat \<Rightarrow> u8 list option" where
  "gpt_table_loop s pta [] table out = Some table"
| "gpt_table_loop s pta (rg # rs) table out =
     (case r_type rg of
        region_file i \<Rightarrow> do {
          c_assert (i < unat pta);
          gpt_table_loop s pta rs (memcpy table out (create_gpt_partition_table_entry s rg i (i = 0)))
            (out + unat GPT_PT_ENTRY_SIZE) }
      | _ \<Rightarrow> gpt_table_loop s pta rs table out)"

text \<open>The partition table written at the offset \<open>out\<close> of a buffer.\<close>

definition create_gpt_partition_table :: "part_state \<Rightarrow> u8 list \<Rightarrow> nat \<Rightarrow> u8 list option" where
  "create_gpt_partition_table s table out = do {
     pta \<leftarrow> GPT_PTA_SIZE s;
     gpt_table_loop s pta (the_regions s) table out
   }"

definition create_gpt_protective_mbr :: "part_state \<Rightarrow> u8 list \<Rightarrow> u8 list option" where
  "create_gpt_protective_mbr s out = do {
     let end = virtual_size (the_regions s) - 1;
     let end = (if end > UINT32_MAX * SECTOR_SIZE then UINT32_MAX * SECTOR_SIZE else end);
     e \<leftarrow> create_mbr_partition_table_entry 512 (end - 512 + 1) False 0xee;
     Some (boot_signature (memcpy out 0x1be e))
   }"

definition create_gpt_layout :: "part_state \<Rightarrow> part_state option" where
  "create_gpt_layout s = do {
     lbas \<leftarrow> GPT_PTA_LBAs s;
     p \<leftarrow> primary s;
     p \<leftarrow> create_gpt_protective_mbr s p;
     p \<leftarrow> create_gpt_partition_table s p (2 * 512);
     header \<leftarrow> create_gpt_partition_header s (drop (2 * 512) p) True;
     let p = memcpy p 512 header;
     sec \<leftarrow> secondary s;
     sec \<leftarrow> create_gpt_partition_table s sec 0;
     header \<leftarrow> create_gpt_partition_header s sec False;
     Some (s\<lparr>primary := Some p, secondary := Some (memcpy sec (unat (lbas * SECTOR_SIZE)) header)\<rparr>)
   }"

subsection \<open>The virtual disk\<close>

definition allocate_tables :: "part_state \<Rightarrow> part_state option" where
  "allocate_tables s =
     (if the_parttype s = PARTTYPE_MBR then
        Some (s\<lparr>primary := Some (zeroes 512),
          ebr := if length (the_files s) > 4 then Some (replicate (length (the_files s) - 3) (zeroes 512)) else ebr s\<rparr>)
      else do {
        lbas \<leftarrow> GPT_PTA_LBAs s;
        Some (s\<lparr>primary := Some (zeroes (unat ((2 + lbas) * SECTOR_SIZE))),
          secondary := Some (zeroes (unat ((lbas + 1) * SECTOR_SIZE)))\<rparr>) })"

definition append_table :: "part_state \<Rightarrow> buffer regions \<Rightarrow> buffer regions option" where
  "append_table s rs =
     (if the_parttype s = PARTTYPE_MBR then append_region_len rs ''MBR'' SECTOR_SIZE 0 0 (region_data Primary)
      else do {
        lbas \<leftarrow> GPT_PTA_LBAs s;
        append_region_len rs ''GPT primary'' ((2 + lbas) * SECTOR_SIZE) 0 0 (region_data Primary) })"

text \<open>A file's region is described by the name of the file.\<close>

definition file_description :: "part_file \<Rightarrow> string" where
  "file_description f = map (\<lambda>b. char_of (unat b)) (f_filename f)"

fun append_files :: "part_state \<Rightarrow> nat list \<Rightarrow> buffer regions \<Rightarrow> buffer regions option" where
  "append_files s [] rs = Some rs"
| "append_files s (i # is) rs = do {
     aligned \<leftarrow> IS_ALIGNED (virtual_size rs) SECTOR_SIZE;
     c_assert aligned;
     rs \<leftarrow> (if the_parttype s = PARTTYPE_MBR \<and> length (the_files s) > 4 \<and> i \<ge> 3
           then append_region_len rs ''EBR'' SECTOR_SIZE 0 0 (region_data (Ebr (i - 3))) else Some rs);
     let f = the_files s ! i;
     rs \<leftarrow> append_region_len rs (file_description f) (f_size f) (f_alignment f) SECTOR_SIZE (region_file i);
     append_files s is rs
   }"

fun check_alignment :: "part_state \<Rightarrow> buffer regions \<Rightarrow> unit option" where
  "check_alignment s [] = Some ()"
| "check_alignment s (rg # rs) = do {
     (case r_type rg of
        region_file i \<Rightarrow> do { aligned \<leftarrow> IS_ALIGNED (r_start rg) (f_alignment (the_files s ! i)); c_assert aligned }
      | _ \<Rightarrow> Some ());
     check_alignment s rs
   }"

definition create_partition_table :: "part_state \<Rightarrow> part_state option" where
  "create_partition_table s = do {
     c_assert (nr_regions (the_regions s) > 0);
     c_assert (primary s \<noteq> None);
     c_assert (the_parttype s = PARTTYPE_GPT \<longrightarrow> secondary s \<noteq> None);
     (if the_parttype s = PARTTYPE_MBR then create_mbr_layout s else create_gpt_layout s)
   }"

definition create_virtual_disk_layout :: "part_state \<Rightarrow> part_state option" where
  "create_virtual_disk_layout s = do {
     c_assert (nr_regions (the_regions s) = 0);
     c_assert (length (the_files s) > 0);
     c_assert (primary s = None);
     c_assert (secondary s = None);
     s \<leftarrow> allocate_tables s;
     rs \<leftarrow> append_table s (the_regions s);
     rs \<leftarrow> append_files s [0..<length (the_files s)] rs;
     rs \<leftarrow> (if the_parttype s = PARTTYPE_GPT then do {
              lbas \<leftarrow> GPT_PTA_LBAs s;
              append_region_len rs ''GPT secondary'' ((lbas + 1) * SECTOR_SIZE) 0 0 (region_data Secondary) }
            else Some rs);
     c_assert (nr_regions rs > 0);
     let s = s\<lparr>the_regions := rs\<rparr>;
     check_alignment s rs;
     create_partition_table s
   }"

subsection \<open>The regions of the layout\<close>

definition good_file :: "part_file \<Rightarrow> bool" where
  "good_file f \<longleftrightarrow> 0 < unat (f_size f) \<and> is_power_of_2 (f_alignment f) \<and> 512 \<le> unat (f_alignment f)"

definition file_room :: "part_file \<Rightarrow> nat" where
  "file_room f = 1024 + unat (f_size f) + unat (f_alignment f)"

definition has_ebr :: "part_state \<Rightarrow> nat \<Rightarrow> bool" where
  "has_ebr s i \<longleftrightarrow> the_parttype s = PARTTYPE_MBR \<and> length (the_files s) > 4 \<and> i \<ge> 3"

text \<open>The regions without the padding, in order.\<close>

definition types :: "'p regions \<Rightarrow> 'p region_type list" where
  "types rs = filter (\<lambda>t. t \<noteq> region_zero) (map r_type rs)"

definition file_types :: "part_state \<Rightarrow> nat list \<Rightarrow> buffer region_type list" where
  "file_types s is = concat (map (\<lambda>i. (if has_ebr s i then [region_data (Ebr (i - 3))] else []) @ [region_file i]) is)"

definition placed :: "part_state \<Rightarrow> buffer region \<Rightarrow> bool" where
  "placed s rg \<longleftrightarrow>
     (case r_type rg of
        region_file i \<Rightarrow> r_len rg = f_size (the_files s ! i) \<and> unat (f_alignment (the_files s ! i)) dvd unat (r_start rg)
          \<and> 512 dvd unat (r_start rg)
      | region_data (Ebr k) \<Rightarrow> unat (r_len rg) = 512 \<and> 512 dvd unat (r_start rg)
      | _ \<Rightarrow> True)"

lemma types_simps [simp]:
  "types [] = []" "types (rs @ rs') = types rs @ types rs'"
  "types (rg # rs) = (if r_type rg = region_zero then types rs else r_type rg # types rs)"
  by (simp_all add: types_def)

lemma types_zero [simp]: "\<forall>p \<in> set rs. r_type p = region_zero \<Longrightarrow> types rs = []"
  by (auto simp: types_def filter_empty_conv)

lemma placed_zero [simp]: "r_type rg = region_zero \<Longrightarrow> placed s rg"
  by (simp add: placed_def)

lemma good_file_dvd: "good_file f \<Longrightarrow> 512 dvd unat (f_alignment f)"
proof -
  assume g: "good_file f"
  then obtain k where k: "unat (f_alignment f) = 2 ^ k" by (auto simp: good_file_def elim: is_power_of_2E)
  with g have "(2::nat) ^ 9 \<le> 2 ^ k" by (simp add: good_file_def)
  then have "9 \<le> k" by (rule power_le_imp_le_exp [rotated]) simp
  then have "(2::nat) ^ 9 dvd 2 ^ k" by (rule le_imp_power_dvd)
  then show ?thesis by (simp add: k)
qed

lemma power_of_2_512: "is_power_of_2 (512 :: u64)"
  by (simp add: is_power_of_2_def)

text \<open>One region of a table.\<close>

lemma append_data_region:
  assumes "regions_ok rs" and "0 < unat len" and "regions_size rs + unat len < 2 ^ 63"
  obtains rg where "append_region_len rs description len 0 0 ty = Some (rs @ [rg])" "regions_ok (rs @ [rg])"
    "r_type rg = ty" "r_len rg = len" "unat (r_start rg) = regions_size rs"
proof -
  obtain pad1 rg pad2 where *: "append_region_len rs description len 0 0 ty = Some (rs @ pad1 @ rg # pad2)"
    "regions_ok (rs @ pad1 @ rg # pad2)" "r_type rg = ty" "r_len rg = len" "unat (r_start rg) = regions_size (rs @ pad1)"
    "regions_size pad1 \<le> 0" "regions_size pad2 \<le> 0"
    using append_region_len_ok [OF assms(1) _ _ assms(2), of 0 0 description ty thesis] assms(3) by auto
  have "pad = []" if "regions_size pad \<le> 0" "regions_from n pad" for pad :: "'a regions" and n
    using that by (cases pad) auto
  then have "pad1 = []" "pad2 = []" using *(2,6,7) by (auto simp: regions_ok_def)
  with * that show thesis by auto
qed

lemma append_files_step:
  assumes "regions_ok rs" and "512 dvd regions_size rs" and "good_file (the_files s ! i)"
    and "regions_size rs + file_room (the_files s ! i) < 2 ^ 63"
  obtains rs' where "append_files s (i # is) rs = append_files s is (rs @ rs')" "regions_ok (rs @ rs')"
    "512 dvd regions_size (rs @ rs')" "types rs' = file_types s [i]" "\<forall>rg \<in> set rs'. placed s rg"
    "regions_size rs' \<le> file_room (the_files s ! i)"
proof -
  let ?f = "the_files s ! i"
  have al: "IS_ALIGNED (virtual_size rs) SECTOR_SIZE = Some True"
    using assms(2) virtual_size_ok [OF assms(1)] by (simp add: IS_ALIGNED_unat power_of_2_512)
  obtain rs1 where e: "(if has_ebr s i then append_region_len rs ''EBR'' SECTOR_SIZE 0 0 (region_data (Ebr (i - 3))) else Some rs)
      = Some (rs @ rs1)" "regions_ok (rs @ rs1)" "types rs1 = (if has_ebr s i then [region_data (Ebr (i - 3))] else [])"
    "\<forall>rg \<in> set rs1. placed s rg" "regions_size rs1 \<le> 512"
  proof (cases "has_ebr s i")
    case True
    have z: "regions_size rs + unat SECTOR_SIZE < 2 ^ 63" using assms(4) by (simp add: file_room_def)
    obtain rg where "append_region_len rs ''EBR'' SECTOR_SIZE 0 0 (region_data (Ebr (i - 3))) = Some (rs @ [rg])" "regions_ok (rs @ [rg])"
      "r_type rg = region_data (Ebr (i - 3))" "r_len rg = SECTOR_SIZE" "unat (r_start rg) = regions_size rs"
      by (rule append_data_region [OF assms(1) _ z]) simp_all
    with True assms(2) show ?thesis by (intro that [of "[rg]"]) (simp_all add: placed_def)
  qed (use assms(1) that [of "[]"] in simp)
  have g: "0 < unat (f_size ?f)" "is_power_of_2 (f_alignment ?f)" using assms(3) by (simp_all add: good_file_def)
  obtain pad1 rg pad2 where r: "append_region_len (rs @ rs1) (file_description ?f) (f_size ?f) (f_alignment ?f) SECTOR_SIZE (region_file i)
      = Some ((rs @ rs1) @ pad1 @ rg # pad2)" "regions_ok ((rs @ rs1) @ pad1 @ rg # pad2)"
    "\<forall>p \<in> set (pad1 @ pad2). r_type p = region_zero" "r_type rg = region_file i" "r_len rg = f_size ?f"
    "f_alignment ?f \<noteq> 0 \<longrightarrow> unat (f_alignment ?f) dvd unat (r_start rg)"
    "SECTOR_SIZE \<noteq> 0 \<longrightarrow> unat SECTOR_SIZE dvd regions_size ((rs @ rs1) @ pad1 @ rg # pad2)"
    "regions_size pad1 \<le> unat (f_alignment ?f)" "regions_size pad2 \<le> unat SECTOR_SIZE"
  proof (rule append_region_len_ok [OF e(2), of "f_alignment ?f" SECTOR_SIZE "f_size ?f"])
    show "regions_size (rs @ rs1) + unat (f_alignment ?f) + unat (f_size ?f) + unat SECTOR_SIZE < 2 ^ 63"
      using assms(4) e(5) by (simp add: file_room_def)
  qed (use g power_of_2_512 in blast)+
  have p: "placed s rg"
    using r(4-6) g(2) good_file_dvd [OF assms(3)] by (auto simp: placed_def is_power_of_2_def intro: dvd_trans)
  have step: "append_files s (i # is) rs = append_files s is (rs @ rs1 @ pad1 @ rg # pad2)"
    using al e(1) r(1) by (simp add: has_ebr_def [symmetric] del: append_assoc) simp
  show thesis
  proof (rule that [OF step])
    show "types (rs1 @ pad1 @ rg # pad2) = file_types s [i]" using e(3) r(3,4) by (simp add: file_types_def)
    show "\<forall>r \<in> set (rs1 @ pad1 @ rg # pad2). placed s r" using e(4) r(3) p by auto
    show "regions_size (rs1 @ pad1 @ rg # pad2) \<le> file_room ?f" using e(5) r(5,8,9) by (simp add: file_room_def)
  qed (use r(2,7) in simp_all)
qed

lemma append_files_ok:
  assumes "regions_ok rs" and "512 dvd regions_size rs" and "\<forall>i \<in> set is. good_file (the_files s ! i)"
    and "regions_size rs + (\<Sum>i\<leftarrow>is. file_room (the_files s ! i)) < 2 ^ 63"
  obtains rs' where "append_files s is rs = Some (rs @ rs')" "regions_ok (rs @ rs')" "512 dvd regions_size (rs @ rs')"
    "types rs' = file_types s is" "\<forall>rg \<in> set rs'. placed s rg" "regions_size rs' \<le> (\<Sum>i\<leftarrow>is. file_room (the_files s ! i))"
  using assms
proof (induction "is" arbitrary: rs thesis)
  case Nil
  show ?case by (rule Nil(1) [of "[]"]) (use Nil in \<open>simp_all add: file_types_def\<close>)
next
  case (Cons i "is")
  have room: "regions_size rs + file_room (the_files s ! i) < 2 ^ 63" using Cons.prems(5) by simp
  obtain rs1 where r1: "append_files s (i # is) rs = append_files s is (rs @ rs1)" "regions_ok (rs @ rs1)"
    "512 dvd regions_size (rs @ rs1)" "types rs1 = file_types s [i]" "\<forall>rg \<in> set rs1. placed s rg"
    "regions_size rs1 \<le> file_room (the_files s ! i)"
    by (rule append_files_step [OF Cons.prems(2,3) _ room, of "is"]) (use Cons.prems(4) in auto)
  have room2: "regions_size (rs @ rs1) + (\<Sum>i\<leftarrow>is. file_room (the_files s ! i)) < 2 ^ 63" using Cons.prems(5) r1(6) by simp
  have good: "\<forall>i \<in> set is. good_file (the_files s ! i)" using Cons.prems(4) by simp
  obtain rs2 where r2: "append_files s is (rs @ rs1) = Some ((rs @ rs1) @ rs2)" "regions_ok ((rs @ rs1) @ rs2)"
    "512 dvd regions_size ((rs @ rs1) @ rs2)" "types rs2 = file_types s is" "\<forall>rg \<in> set rs2. placed s rg"
    "regions_size rs2 \<le> (\<Sum>i\<leftarrow>is. file_room (the_files s ! i))"
    by (rule Cons.IH [OF _ r1(2,3) good room2])
  show ?case
    by (rule Cons.prems(1) [of "rs1 @ rs2"]) (use r1 r2 in \<open>auto simp: file_types_def\<close>)
qed

lemma check_alignment_ok:
  assumes "\<forall>rg \<in> set rs. placed s rg" and "\<forall>i. region_file i \<in> set (types rs) \<longrightarrow> good_file (the_files s ! i)"
  shows "check_alignment s rs = Some ()"
  using assms
proof (induction rs)
  case (Cons rg rs)
  then have "check_alignment s rs = Some ()" by (auto split: if_splits)
  moreover have "(case r_type rg of region_file i \<Rightarrow>
      do { aligned \<leftarrow> IS_ALIGNED (r_start rg) (f_alignment (the_files s ! i)); c_assert aligned } | _ \<Rightarrow> Some ()) = Some ()"
    using Cons.prems by (auto simp: placed_def good_file_def IS_ALIGNED_unat split: region_type.splits)
  ultimately show ?case by simp
qed simp

subsection \<open>Finding regions\<close>

definition idx :: "'p regions \<Rightarrow> 'p region_type \<Rightarrow> nat" where
  "idx rs t = length (takeWhile (\<lambda>rg. r_type rg \<noteq> t) rs)"

lemma idx_simps [simp]: "idx (rg # rs) t = (if r_type rg = t then 0 else Suc (idx rs t))"
  by (simp add: idx_def)

lemma idx_found: "t \<in> set (types rs) \<Longrightarrow> idx rs t < length rs \<and> r_type (rs ! idx rs t) = t"
  by (induction rs) (auto split: if_splits)

lemma idx_first: "k < idx rs t \<Longrightarrow> k < length rs \<and> r_type (rs ! k) \<noteq> t"
  unfolding idx_def by (metis (mono_tags, lifting) length_takeWhile_le less_le_trans nth_mem set_takeWhileD takeWhile_nth)

lemma idx_less:
  "distinct (types rs) \<Longrightarrow> types rs = us @ t # ws \<Longrightarrow> t' \<in> set ws \<Longrightarrow> idx rs t < idx rs t'"
proof (induction rs arbitrary: us)
  case (Cons rg rs)
  show ?case
  proof (cases "r_type rg = region_zero")
    case True
    then have "t \<noteq> region_zero" "t' \<noteq> region_zero" using Cons.prems by (auto simp: types_def dest!: arg_cong [where f = set])
    with True Cons show ?thesis by auto
  next
    case False
    with Cons show ?thesis by (cases us) auto
  qed
qed simp

lemma scan_idx:
  assumes "t \<in> set (types rs)" and "j \<le> idx rs t"
  shows "scan_regions (\<lambda>rg. r_type rg = t) rs j = Some (rs ! idx rs t, idx rs t)"
  using assms(2)
proof (induction "idx rs t - j" arbitrary: j)
  case 0
  then show ?case using idx_found [OF assms(1)] by (subst scan_regions.simps) (simp add: nr_regions_def)
next
  case (Suc n)
  then have "j < idx rs t" by simp
  with Suc idx_first [of j rs t] show ?case by (subst scan_regions.simps) (simp add: nr_regions_def)
qed

text \<open>The order of the regions in a layout.\<close>

lemma file_types_append [simp]: "file_types s (is @ is') = file_types s is @ file_types s is'"
  by (simp add: file_types_def)

lemma file_types_set:
  "region_file i \<in> set (file_types s is) \<longleftrightarrow> i \<in> set is"
  "region_data (Ebr k) \<in> set (file_types s is) \<longleftrightarrow> k + 3 \<in> set is \<and> has_ebr s (k + 3)"
  "region_data Primary \<notin> set (file_types s is)" "region_data Secondary \<notin> set (file_types s is)" "region_zero \<notin> set (file_types s is)"
  by (induction "is") (auto simp: file_types_def has_ebr_def split: if_splits)

lemma distinct_file_types: "distinct is \<Longrightarrow> distinct (file_types s is)"
proof (induction "is")
  case (Cons i "is")
  moreover have "file_types s (i # is) = (if has_ebr s i then [region_data (Ebr (i - 3))] else []) @ [region_file i] @ file_types s is"
    by (simp add: file_types_def)
  ultimately show ?case by (auto simp: file_types_set has_ebr_def)
qed (simp add: file_types_def)

definition layout :: "part_state \<Rightarrow> buffer regions \<Rightarrow> u64 \<Rightarrow> buffer region_type list \<Rightarrow> bool" where
  "layout s rs len tail \<longleftrightarrow> regions_ok rs \<and> 512 dvd regions_size rs
     \<and> types rs = region_data Primary # file_types s [0..<length (the_files s)] @ tail
     \<and> (tail = [] \<or> tail = [region_data Secondary]) \<and> (\<forall>rg \<in> set rs. placed s rg)
     \<and> rs \<noteq> [] \<and> r_type (rs ! 0) = region_data Primary \<and> r_len (rs ! 0) = len"

lemma layout_distinct: "layout s rs len tail \<Longrightarrow> distinct (types rs)"
  using distinct_file_types [of "[0..<length (the_files s)]" s] by (auto simp: layout_def file_types_set)

lemma layout_types:
  assumes "layout s rs len tail" and "i < length (the_files s)"
  shows "region_file i \<in> set (types rs)" and "has_ebr s i \<Longrightarrow> region_data (Ebr (i - 3)) \<in> set (types rs)"
  using assms by (auto simp: layout_def file_types_set has_ebr_def)

lemma layout_order:
  assumes "layout s rs len tail" and "i < length (the_files s)"
  shows "has_ebr s i \<Longrightarrow> idx rs (region_data (Ebr (i - 3))) < idx rs (region_file i)"
    and "i' < i \<Longrightarrow> idx rs (region_file i') < idx rs (region_file i)"
    and "i' < i \<Longrightarrow> has_ebr s i \<Longrightarrow> idx rs (region_file i') < idx rs (region_data (Ebr (i - 3)))"
proof -
  let ?n = "length (the_files s)"
  have split: "types rs = (region_data Primary # file_types s [0..<k]) @ file_types s [k] @ (file_types s [Suc k..<?n] @ tail)" if "k < ?n" for k
  proof -
    have "[0..<?n] = [0..<k] @ [k] @ [Suc k..<?n]" using that by (metis append_Cons append_Nil le_add1 less_imp_le upt_add_eq_append upt_conv_Cons add_0 le_add_diff_inverse)
    then have "file_types s [0..<?n] = file_types s [0..<k] @ file_types s [k] @ file_types s [Suc k..<?n]"
      by (metis file_types_append)
    with assms(1) show ?thesis by (simp add: layout_def)
  qed
  show "has_ebr s i \<Longrightarrow> idx rs (region_data (Ebr (i - 3))) < idx rs (region_file i)"
    using split [OF assms(2)]
    by (intro idx_less [OF layout_distinct [OF assms(1)], of "region_data Primary # file_types s [0..<i]"]) (auto simp: file_types_def)
  have pre: "types rs = (region_data Primary # file_types s [0..<i'] @ butlast (file_types s [i'])) @ region_file i' #
      (file_types s [Suc i'..<?n] @ tail)" if "i' < i"
    using split [of i'] that assms(2) by (simp add: file_types_def)
  show "idx rs (region_file i') < idx rs (region_file i)" if "i' < i"
    by (rule idx_less [OF layout_distinct [OF assms(1)] pre [OF that]]) (use that assms(2) in \<open>simp add: file_types_set\<close>)
  show "idx rs (region_file i') < idx rs (region_data (Ebr (i - 3)))" if "i' < i" "has_ebr s i"
    by (rule idx_less [OF layout_distinct [OF assms(1)] pre [OF that(1)]])
      (use that assms(2) in \<open>auto simp: file_types_set has_ebr_def\<close>)
qed

lemma layout_region:
  assumes "layout s rs len tail" and "t \<in> set (types rs)"
  shows "rs ! idx rs t \<in> set rs" and "r_type (rs ! idx rs t) = t" and "placed s (rs ! idx rs t)"
  using idx_found [OF assms(2)] assms(1) by (auto simp: layout_def)

subsection \<open>Entries of an MBR\<close>

text \<open>What an entry says: the type byte, the first sector and the number of sectors.\<close>

definition mbr_entry :: "u8 list \<Rightarrow> u8 \<Rightarrow> nat \<Rightarrow> nat \<Rightarrow> bool" where
  "mbr_entry e ty start n \<longleftrightarrow> length e = 16 \<and> e ! 4 = ty \<and> le_dec (take 4 (drop 8 e)) = (of_nat start :: u32)
     \<and> le_dec (take 4 (drop 12 e)) = (of_nat n :: u32)"

lemma create_mbr_entry_ok:
  assumes "512 dvd unat start" and "unat start < 2 ^ 41" and "unat len \<le> 2 ^ 41 - 512"
  obtains e where "create_mbr_partition_table_entry start len bootable ty = Some e"
    "mbr_entry e ty (unat start div 512) ((unat len + 511) div 512)"
proof -
  have a: "IS_ALIGNED start SECTOR_SIZE = Some True" using assms(1) by (simp add: IS_ALIGNED_unat power_of_2_512)
  have s: "unat (start div SECTOR_SIZE) = unat start div 512" by (simp add: unat_div)
  have "unat (len + 512 - 1) = unat len + 511"
    using assms(3) by (simp add: add_diff_eq [symmetric] unat_word_ariths)
  then have n: "unat (DIV_ROUND_UP len SECTOR_SIZE) = (unat len + 511) div 512" by (simp add: DIV_ROUND_UP_def unat_div)
  have lt: "unat start div 512 < 2 ^ 32" "(unat len + 511) div 512 < 2 ^ 32"
    using assms(2,3) by (simp_all add: div_less_iff_less_mult)
  have c: "start div SECTOR_SIZE \<le> UINT32_MAX" "DIV_ROUND_UP len SECTOR_SIZE \<le> UINT32_MAX"
    using lt by (simp_all add: word_le_nat_alt s n)
  have u: "ucast (start div SECTOR_SIZE) = (of_nat (unat start div 512) :: u32)"
    "ucast (DIV_ROUND_UP len SECTOR_SIZE) = (of_nat ((unat len + 511) div 512) :: u32)"
    by (simp_all flip: s n)
  define hd where "hd = [if bootable then 0x80 else 0] @ chs_too_large @ [ty] @ chs_too_large"
  have h: "length hd = 8" "hd ! 4 = ty" by (simp_all add: hd_def chs_too_large_def)
  show thesis
  proof (rule that)
    show "create_mbr_partition_table_entry start len bootable ty
        = Some (hd @ le32 (of_nat (unat start div 512)) @ le32 (of_nat ((unat len + 511) div 512)))"
      using a c u by (simp add: create_mbr_partition_table_entry_def hd_def Let_def)
  qed (use h in \<open>simp add: mbr_entry_def nth_append\<close>)
qed

definition entry_at :: "u8 list \<Rightarrow> nat \<Rightarrow> u8 list" where
  "entry_at table k = take 16 (drop (0x1be + 16 * k) table)"

lemma entry_at_memcpy:
  assumes "length table = 512" and "length e = 16" and "i < 4" and "k < 4"
  shows "entry_at (memcpy table (0x1be + 16 * i) e) k = (if k = i then e else entry_at table k)"
  using assms by (intro nth_equalityI) (auto simp: entry_at_def nth_memcpy)

text \<open>A layout small enough for an MBR.\<close>

definition mbr_layout :: "part_state \<Rightarrow> bool" where
  "mbr_layout s \<longleftrightarrow> the_parttype s = PARTTYPE_MBR \<and> layout s (the_regions s) 512 [] \<and> regions_size (the_regions s) \<le> 2 ^ 41 - 512"

abbreviation file_region :: "part_state \<Rightarrow> nat \<Rightarrow> buffer region" where
  "file_region s i \<equiv> the_regions s ! idx (the_regions s) (region_file i)"

abbreviation ebr_region :: "part_state \<Rightarrow> nat \<Rightarrow> buffer region" where
  "ebr_region s i \<equiv> the_regions s ! idx (the_regions s) (region_data (Ebr (i - 3)))"

lemma mbr_layout_ok:
  assumes "mbr_layout s"
  shows "regions_from 0 (the_regions s)" "regions_size (the_regions s) \<le> 2 ^ 41 - 512" "layout s (the_regions s) 512 []"
    "the_parttype s = PARTTYPE_MBR" "512 dvd regions_size (the_regions s)"
    "unat (virtual_size (the_regions s)) = regions_size (the_regions s)"
  using assms virtual_size_ok [of "the_regions s"] by (auto simp: mbr_layout_def layout_def regions_ok_def)

lemma file_region_ok:
  assumes "mbr_layout s" and "i < length (the_files s)"
  defines "rg \<equiv> file_region s i"
  shows "rg \<in> set (the_regions s)" "r_type rg = region_file i" "r_len rg = f_size (the_files s ! i)" "512 dvd unat (r_start rg)"
    "unat (r_end rg) + 1 = unat (r_start rg) + unat (r_len rg)" "unat (r_end rg) < regions_size (the_regions s)" "0 < unat (r_len rg)"
proof -
  note l = mbr_layout_ok [OF assms(1)]
  note r = layout_region [OF l(3) layout_types(1) [OF l(3) assms(2)], folded rg_def]
  show "rg \<in> set (the_regions s)" "r_type rg = region_file i" by (rule r)+
  show "r_len rg = f_size (the_files s ! i)" "512 dvd unat (r_start rg)" using r(2,3) by (simp_all add: placed_def)
  show "unat (r_end rg) + 1 = unat (r_start rg) + unat (r_len rg)" "unat (r_end rg) < regions_size (the_regions s)" "0 < unat (r_len rg)"
    using regions_from_inside [OF l(1) r(1)] by simp_all
qed

lemma ebr_region_ok:
  assumes "mbr_layout s" and "i < length (the_files s)" and "has_ebr s i"
  defines "rg \<equiv> ebr_region s i"
  shows "rg \<in> set (the_regions s)" "r_type rg = region_data (Ebr (i - 3))" "unat (r_len rg) = 512" "512 dvd unat (r_start rg)"
    "unat (r_end rg) + 1 = unat (r_start rg) + unat (r_len rg)" "unat (r_end rg) < regions_size (the_regions s)"
proof -
  note l = mbr_layout_ok [OF assms(1)]
  note r = layout_region [OF l(3) layout_types(2) [OF l(3) assms(2,3)], folded rg_def]
  show "rg \<in> set (the_regions s)" "r_type rg = region_data (Ebr (i - 3))" by (rule r)+
  show "unat (r_len rg) = 512" "512 dvd unat (r_start rg)" using r(2,3) by (simp_all add: placed_def)
  show "unat (r_end rg) + 1 = unat (r_start rg) + unat (r_len rg)" "unat (r_end rg) < regions_size (the_regions s)"
    using regions_from_inside [OF l(1) r(1)] by simp_all
qed

lemma ebr_file_order:
  assumes "mbr_layout s" and "i < length (the_files s)" and "has_ebr s i"
  shows "unat (r_start (ebr_region s i)) + 512 \<le> unat (r_start (file_region s i))"
    and "i' < i \<Longrightarrow> unat (r_end (file_region s i')) < unat (r_start (ebr_region s i))"
proof -
  note l = mbr_layout_ok [OF assms(1)]
  have f: "idx (the_regions s) (region_file i) < length (the_regions s)" "idx (the_regions s) (region_data (Ebr (i - 3))) < length (the_regions s)"
    using idx_found [OF layout_types(1) [OF l(3) assms(2)]] idx_found [OF layout_types(2) [OF l(3) assms(2,3)]] by simp_all
  show "unat (r_start (ebr_region s i)) + 512 \<le> unat (r_start (file_region s i))"
    using regions_from_order(1) [OF l(1) layout_order(1) [OF l(3) assms(2,3)] f(1)] ebr_region_ok(3,5) [OF assms]
    by (simp add: word_less_nat_alt)
  show "unat (r_end (file_region s i')) < unat (r_start (ebr_region s i))" if "i' < i"
    using regions_from_order(1) [OF l(1) layout_order(3) [OF l(3) assms(2) that assms(3)] f(2)] by (simp add: word_less_nat_alt)
qed

definition says_file :: "part_state \<Rightarrow> nat \<Rightarrow> u8 list \<Rightarrow> bool" where
  "says_file s i e \<longleftrightarrow> mbr_entry e (f_mbr_id (the_files s ! i)) (unat (r_start (file_region s i)) div 512)
     ((unat (r_len (file_region s i)) + 511) div 512)"

lemma mbr_primary_ok:
  assumes "mbr_layout s" and "m \<le> length (the_files s)" and "m \<le> 4" and "length table = 512"
    and "i \<le> m" and "i < m \<longrightarrow> j \<le> idx (the_regions s) (region_file i)"
  shows "\<exists>table'. mbr_primary s [i..<m] j table = Some (table', if i < m then idx (the_regions s) (region_file (m - 1)) else j)
    \<and> length table' = 512 \<and> drop 0x1fe table' = drop 0x1fe table
    \<and> (\<forall>k < 4. if i \<le> k \<and> k < m then says_file s k (entry_at table' k) else entry_at table' k = entry_at table k)"
  using assms(4-6)
proof (induction "m - i" arbitrary: i j table)
  case 0
  then show ?case by auto
next
  case (Suc d)
  then have i: "i < m" "i < length (the_files s)" "i < 4" "j \<le> idx (the_regions s) (region_file i)" using assms(2,3) by auto
  note l = mbr_layout_ok [OF assms(1)]
  note rg = file_region_ok [OF assms(1) i(2)]
  have f: "find_file_region (the_regions s) i j = Some (file_region s i, idx (the_regions s) (region_file i))"
    unfolding find_file_region_def by (rule scan_idx [OF layout_types(1) [OF l(3) i(2)] i(4)])
  obtain e where e: "create_mbr_partition_table_entry (r_start (file_region s i)) (r_len (file_region s i)) (i = 0) (f_mbr_id (the_files s ! i)) = Some e"
    "says_file s i e"
    unfolding says_file_def by (rule create_mbr_entry_ok [of "r_start (file_region s i)" "r_len (file_region s i)"]) (use rg l(2) in auto)
  have le: "length e = 16" using e(2) by (simp add: says_file_def mbr_entry_def)
  let ?t = "memcpy table (0x1be + 16 * i) e"
  have t: "length ?t = 512" "drop 0x1fe ?t = drop 0x1fe table" using Suc.prems(1) le i(3) by (simp_all add: memcpy_def)
  have "\<exists>table'. mbr_primary s [Suc i..<m] (idx (the_regions s) (region_file i)) ?t
      = Some (table', if Suc i < m then idx (the_regions s) (region_file (m - 1)) else idx (the_regions s) (region_file i))
    \<and> length table' = 512 \<and> drop 0x1fe table' = drop 0x1fe ?t
    \<and> (\<forall>k < 4. if Suc i \<le> k \<and> k < m then says_file s k (entry_at table' k) else entry_at table' k = entry_at ?t k)"
    by (rule Suc.hyps(1) [OF _ t(1)]) (use Suc i assms(2) layout_order(2) [OF l(3), of "Suc i" i] in auto)
  then obtain t' where t': "mbr_primary s [Suc i..<m] (idx (the_regions s) (region_file i)) ?t
      = Some (t', if Suc i < m then idx (the_regions s) (region_file (m - 1)) else idx (the_regions s) (region_file i))"
    "length t' = 512" "drop 0x1fe t' = drop 0x1fe ?t"
    "\<And>k. k < 4 \<Longrightarrow> if Suc i \<le> k \<and> k < m then says_file s k (entry_at t' k) else entry_at t' k = entry_at ?t k" by blast
  have "mbr_primary s [i..<m] j table = mbr_primary s [Suc i..<m] (idx (the_regions s) (region_file i)) ?t"
    using i(1) f e(1) by (simp add: upt_conv_Cons)
  moreover have "(if Suc i < m then idx (the_regions s) (region_file (m - 1)) else idx (the_regions s) (region_file i))
      = idx (the_regions s) (region_file (m - 1))" using i(1) by (cases "Suc i = m") auto
  moreover have "if i \<le> k \<and> k < m then says_file s k (entry_at t' k) else entry_at t' k = entry_at table k" if "k < 4" for k
    using t'(4) [OF that] entry_at_memcpy [OF Suc.prems(1) le i(3) that] e(2) i(1) by (auto split: if_splits)
  ultimately show ?case using t'(1-3) t(2) i(1) by (intro exI [of _ t'] conjI allI impI) simp_all
qed

text \<open>What an extended boot record says.\<close>

definition says_ebr :: "part_state \<Rightarrow> nat \<Rightarrow> u8 list \<Rightarrow> bool" where
  "says_ebr s i sector \<longleftrightarrow> length sector = 512
     \<and> mbr_entry (entry_at sector 0) (f_mbr_id (the_files s ! i))
         ((unat (r_start (file_region s i)) - unat (r_start (ebr_region s i))) div 512) ((unat (r_len (file_region s i)) + 511) div 512)
     \<and> (if i + 1 < length (the_files s)
        then \<exists>n. 0 < n \<and> n < 2 ^ 32 \<and> mbr_entry (entry_at sector 1) 0xf
          ((unat (r_start (ebr_region s (i + 1))) - unat (r_start (ebr_region s 3))) div 512) n
        else entry_at sector 1 = zeroes 16)"

lemma ebr_mono:
  assumes "mbr_layout s" and "i \<le> i'" and "i' < length (the_files s)" and "has_ebr s i"
  shows "unat (r_start (ebr_region s i)) \<le> unat (r_start (ebr_region s i'))"
proof (cases "i = i'")
  case False
  then have "has_ebr s i'" "i < i'" "i < length (the_files s)" using assms by (auto simp: has_ebr_def)
  then show ?thesis
    using ebr_file_order(1) [OF assms(1) _ assms(4)] ebr_file_order(2) [OF assms(1,3), of i] file_region_ok(5,7) [OF assms(1), of i]
    by simp
qed simp

lemma link_entry_ok:
  assumes "mbr_layout s" and "i + 1 < length (the_files s)" and "has_ebr s 3" and "3 \<le> i"
  obtains e n where "create_mbr_partition_table_entry (r_start (ebr_region s (i + 1)) - r_start (ebr_region s 3))
      (r_end (file_region s (i + 1)) - r_start (ebr_region s (i + 1)) + 1) False 0xf = Some e"
    "mbr_entry e 0xf ((unat (r_start (ebr_region s (i + 1))) - unat (r_start (ebr_region s 3))) div 512) n" "0 < n" "n < 2 ^ 32"
proof -
  let ?first = "ebr_region s 3" let ?e = "ebr_region s (i + 1)" let ?f = "file_region s (i + 1)"
  have h: "has_ebr s (i + 1)" and n: "3 < length (the_files s)" using assms by (auto simp: has_ebr_def)
  note l = mbr_layout_ok [OF assms(1)]
  note e = ebr_region_ok [OF assms(1,2) h] and e0 = ebr_region_ok [OF assms(1) n assms(3)] and f = file_region_ok [OF assms(1,2)]
  have le: "unat (r_start ?first) \<le> unat (r_start ?e)" using ebr_mono [OF assms(1) _ assms(2,3)] assms(4) by simp
  then have a: "unat (r_start ?e - r_start ?first) = unat (r_start ?e) - unat (r_start ?first)" by (simp add: unat_sub word_le_nat_alt)
  have o: "unat (r_start ?e) < unat (r_end ?f)" using ebr_file_order(1) [OF assms(1,2) h] f(5,7) by simp
  have lim: "unat (r_end ?f) < 2 ^ 41 - 512" using f(6) l(2) by linarith
  define d where "d = r_end ?f - r_start ?e"
  have d: "unat d = unat (r_end ?f) - unat (r_start ?e)" using o unfolding d_def by (intro unat_sub) (simp add: word_le_nat_alt)
  then have b: "unat (d + 1) = unat (r_end ?f) - unat (r_start ?e) + 1" using lim by (simp add: unat_word_ariths)
  obtain x where x: "create_mbr_partition_table_entry (r_start ?e - r_start ?first) (d + 1) False 0xf = Some x"
    "mbr_entry x 0xf (unat (r_start ?e - r_start ?first) div 512) ((unat (d + 1) + 511) div 512)"
  proof (rule create_mbr_entry_ok [of "r_start ?e - r_start ?first" "d + 1"])
    show "512 dvd unat (r_start ?e - r_start ?first)" using a e(4) e0(4) by simp
    show "unat (r_start ?e - r_start ?first) < 2 ^ 41" using a o lim by simp
    show "unat (d + 1) \<le> 2 ^ 41 - 512" using b lim by simp
  qed
  have n: "0 < (unat (d + 1) + 511) div 512" "(unat (d + 1) + 511) div 512 < 2 ^ 32"
    using b lim by (simp_all add: div_less_iff_less_mult div_greater_zero_iff)
  show thesis by (rule that [OF x(1) [unfolded d_def] x(2) [unfolded a] n])
qed

lemma length_boot_signature [simp]: "length (boot_signature table) = length table"
  by (simp add: boot_signature_def)

lemma entry_at_upper:
  assumes "length table = 512" and "k < 4"
  shows "entry_at (boot_signature table) k = entry_at table k"
  using assms by (auto simp: entry_at_def boot_signature_def intro!: nth_equalityI)

lemma boot_signature_end: "length table = 512 \<Longrightarrow> drop 0x1fe (boot_signature table) = [0x55, 0xaa]"
  by (rule nth_equalityI) (auto simp: boot_signature_def numeral_2_eq_2 less_Suc_eq nth_list_update)

lemma mbr_ebr_ok:
  assumes "mbr_layout s" and "i < length (the_files s)" and "has_ebr s i" and "j = idx (the_regions s) (region_file i)"
    and "sector = zeroes 512"
  obtains sector' where "mbr_ebr s (ebr_region s 3) (ebr_region s i) (file_region s i) i j sector = Some sector'" "says_ebr s i sector'"
    "drop 0x1fe sector' = [0x55, 0xaa]"
proof -
  let ?e = "ebr_region s i" let ?f = "file_region s i" let ?rs = "the_regions s"
  note l = mbr_layout_ok [OF assms(1)]
  note e = ebr_region_ok [OF assms(1-3)] and f = file_region_ok [OF assms(1,2)]
  have o: "unat (r_start ?e) \<le> unat (r_start ?f)" using ebr_file_order(1) [OF assms(1-3)] by simp
  then have a: "unat (r_start ?f - r_start ?e) = unat (r_start ?f) - unat (r_start ?e)" by (simp add: unat_sub word_le_nat_alt)
  obtain e1 where e1: "create_mbr_partition_table_entry (r_start ?f - r_start ?e) (r_len ?f) False (f_mbr_id (the_files s ! i)) = Some e1"
    "mbr_entry e1 (f_mbr_id (the_files s ! i)) (unat (r_start ?f - r_start ?e) div 512) ((unat (r_len ?f) + 511) div 512)"
  proof (rule create_mbr_entry_ok [of "r_start ?f - r_start ?e" "r_len ?f"])
    show "512 dvd unat (r_start ?f - r_start ?e)" using a e(4) f(4) by simp
    show "unat (r_start ?f - r_start ?e) < 2 ^ 41" "unat (r_len ?f) \<le> 2 ^ 41 - 512" using a f(5-7) l(2) by simp_all
  qed
  let ?s0 = "boot_signature sector"
  define s1 where "s1 = memcpy ?s0 0x1be e1"
  have l1: "length e1 = 16" using e1(2) by (simp add: mbr_entry_def)
  have s0: "length ?s0 = 512" "drop 0x1fe ?s0 = [0x55, 0xaa]" "entry_at ?s0 1 = zeroes 16"
    using entry_at_upper [of sector 1] boot_signature_end [of sector] assms(5) by (simp_all add: entry_at_def)
  have s1: "length s1 = 512" "drop 0x1fe s1 = [0x55, 0xaa]" "entry_at s1 0 = e1" "entry_at s1 1 = zeroes 16"
    using s0 l1 entry_at_memcpy [OF s0(1) l1, of 0 0] entry_at_memcpy [OF s0(1) l1, of 0 1]
    by (simp_all add: s1_def memcpy_def)
  show thesis
  proof (cases "i + 1 < length (the_files s)")
    case False
    then show ?thesis using e1 s1 that [of s1] by (simp add: mbr_ebr_def says_ebr_def s1_def Let_def a less_diff_conv)
  next
    case True
    have h: "has_ebr s (i + 1)" "has_ebr s 3" "3 \<le> i" using assms(3) by (auto simp: has_ebr_def)
    have f1: "find_ebr_region ?rs (i + 1) j = Some (ebr_region s (i + 1), idx ?rs (region_data (Ebr (i + 1 - 3))))"
      using scan_idx [OF layout_types(2) [OF l(3) True h(1)], of j] layout_order(3) [OF l(3) True, of i] h assms(4)
      by (simp add: find_ebr_region_def)
    have f2: "find_file_region ?rs (i + 1) (idx ?rs (region_data (Ebr (i + 1 - 3)))) = Some (file_region s (i + 1), idx ?rs (region_file (i + 1)))"
      using scan_idx [OF layout_types(1) [OF l(3) True]] layout_order(1) [OF l(3) True h(1)]
      by (simp add: find_file_region_def)
    obtain e2 n where e2: "create_mbr_partition_table_entry (r_start (ebr_region s (i + 1)) - r_start (ebr_region s 3))
        (r_end (file_region s (i + 1)) - r_start (ebr_region s (i + 1)) + 1) False 0xf = Some e2"
      "mbr_entry e2 0xf ((unat (r_start (ebr_region s (i + 1))) - unat (r_start (ebr_region s 3))) div 512) n" "0 < n" "n < 2 ^ 32"
      by (rule link_entry_ok [OF assms(1) True h(2,3)])
    have l2: "length e2 = 16" using e2(2) by (simp add: mbr_entry_def)
    let ?s2 = "memcpy s1 0x1ce e2"
    have s2: "length ?s2 = 512" "drop 0x1fe ?s2 = [0x55, 0xaa]" "entry_at ?s2 0 = e1" "entry_at ?s2 1 = e2"
      using s1 l2 entry_at_memcpy [OF s1(1) l2, of 1 0] entry_at_memcpy [OF s1(1) l2, of 1 1] by (simp_all add: memcpy_def)
    have "mbr_ebr s (ebr_region s 3) ?e ?f i j sector = Some ?s2"
      using True e1(1) f1 f2 e2(1) by (simp add: mbr_ebr_def s1_def Let_def less_diff_conv)
    moreover have "says_ebr s i ?s2"
      using True e1(2) s2 e2(2-4) unfolding says_ebr_def a [symmetric] by (simp del: One_nat_def) blast
    ultimately show ?thesis using s2(2) that by blast
  qed
qed

lemma mbr_logical_ok:
  assumes "mbr_layout s" and "has_ebr s 3" and "3 \<le> i" and "i \<le> length (the_files s)" and "length ebrs = length (the_files s) - 3"
    and "\<forall>k. i \<le> k \<and> k < length (the_files s) \<longrightarrow> ebrs ! (k - 3) = zeroes 512"
    and "i < length (the_files s) \<longrightarrow> j \<le> idx (the_regions s) (region_data (Ebr (i - 3)))"
  shows "\<exists>ebrs'. mbr_logical s (ebr_region s 3) [i..<length (the_files s)] j ebrs = Some ebrs' \<and> length ebrs' = length ebrs
    \<and> (\<forall>k. i \<le> k \<and> k < length (the_files s) \<longrightarrow> says_ebr s k (ebrs' ! (k - 3)))
    \<and> (\<forall>k. 3 \<le> k \<and> k < i \<longrightarrow> ebrs' ! (k - 3) = ebrs ! (k - 3))"
  using assms(3-)
proof (induction "length (the_files s) - i" arbitrary: i j ebrs)
  case 0
  then show ?case by auto
next
  case (Suc d)
  let ?n = "length (the_files s)" let ?rs = "the_regions s"
  have i: "i < ?n" "3 \<le> i" "has_ebr s i" "j \<le> idx ?rs (region_data (Ebr (i - 3)))"
    using Suc.hyps(2) Suc.prems assms(2) by (auto simp: has_ebr_def)
  note l = mbr_layout_ok [OF assms(1)]
  note o = layout_order [OF l(3) i(1)]
  have ty: "region_data (Ebr (i - 3)) \<in> set (types ?rs)" "region_file i \<in> set (types ?rs)"
    using layout_types [OF l(3) i(1)] i(3) by auto
  obtain j' where j': "(if i = 3 then Some (ebr_region s 3, j) else find_ebr_region ?rs i j) = Some (ebr_region s i, j')"
    "j' \<le> idx ?rs (region_data (Ebr (i - 3)))"
    using scan_idx [OF ty(1) i(4)] i(2,4) by (cases "i = 3") (auto simp: find_ebr_region_def)
  have f: "find_file_region ?rs i j' = Some (file_region s i, idx ?rs (region_file i))"
    using scan_idx [OF ty(2), of j'] j'(2) o(1) [OF i(3)] by (simp add: find_file_region_def)
  have z: "ebrs ! (i - 3) = zeroes 512" using Suc.prems(4) i(1) by simp
  obtain sector where sec: "mbr_ebr s (ebr_region s 3) (ebr_region s i) (file_region s i) i (idx ?rs (region_file i)) (ebrs ! (i - 3)) = Some sector"
    "says_ebr s i sector"
    by (rule mbr_ebr_ok [OF assms(1) i(1,3) refl z])
  let ?ebrs = "ebrs[i - 3 := sector]"
  have "\<exists>ebrs'. mbr_logical s (ebr_region s 3) [Suc i..<?n] (idx ?rs (region_file i)) ?ebrs = Some ebrs' \<and> length ebrs' = length ?ebrs
    \<and> (\<forall>k. Suc i \<le> k \<and> k < ?n \<longrightarrow> says_ebr s k (ebrs' ! (k - 3))) \<and> (\<forall>k. 3 \<le> k \<and> k < Suc i \<longrightarrow> ebrs' ! (k - 3) = ?ebrs ! (k - 3))"
  proof (rule Suc.hyps(1))
    show "\<forall>k. Suc i \<le> k \<and> k < ?n \<longrightarrow> ?ebrs ! (k - 3) = zeroes 512" using Suc.prems(4) i(2) by (auto simp: nth_list_update)
    show "Suc i < ?n \<longrightarrow> idx ?rs (region_file i) \<le> idx ?rs (region_data (Ebr (Suc i - 3)))"
      using layout_order(3) [OF l(3), of "Suc i" i] i(3) by (auto simp: has_ebr_def)
  qed (use Suc i in auto)
  then obtain ebrs' where e: "mbr_logical s (ebr_region s 3) [Suc i..<?n] (idx ?rs (region_file i)) ?ebrs = Some ebrs'" "length ebrs' = length ebrs"
    "\<And>k. Suc i \<le> k \<Longrightarrow> k < ?n \<Longrightarrow> says_ebr s k (ebrs' ! (k - 3))" "\<And>k. 3 \<le> k \<Longrightarrow> k < Suc i \<Longrightarrow> ebrs' ! (k - 3) = ?ebrs ! (k - 3)"
    by (metis length_list_update)
  have "mbr_logical s (ebr_region s 3) [i..<?n] j ebrs = Some ebrs'"
    by (simp only: upt_conv_Cons [OF i(1)] mbr_logical.simps j'(1) f sec(1) e(1) bind.bind_lunit prod.case)
  moreover have "says_ebr s k (ebrs' ! (k - 3))" if "i \<le> k" "k < ?n" for k
    using e(3) [of k] e(4) [of k] sec(2) that i(2) Suc.prems(3) by (cases "k = i") (auto simp: nth_list_update)
  moreover have "ebrs' ! (k - 3) = ebrs ! (k - 3)" if "3 \<le> k" "k < i" for k
    using e(4) [of k] that by (auto simp: nth_list_update)
  ultimately show ?case using e(2) by (intro exI [of _ ebrs']) blast
qed

text \<open>The partition tables of the layout of \<open>s\<close>: a primary table and, with more than four files, the extended boot records.\<close>

definition mbr_tables :: "part_state \<Rightarrow> u8 list \<Rightarrow> u8 list list \<Rightarrow> bool" where
  "mbr_tables s table ebrs \<longleftrightarrow> length table = 512 \<and> drop 0x1fe table = [0x55, 0xaa]
     \<and> (if length (the_files s) \<le> 4
        then \<forall>k < 4. if k < length (the_files s) then says_file s k (entry_at table k) else entry_at table k = zeroes 16
        else (\<forall>k < 3. says_file s k (entry_at table k))
          \<and> mbr_entry (entry_at table 3) 0xf (unat (r_start (ebr_region s 3)) div 512)
              ((regions_size (the_regions s) - unat (r_start (ebr_region s 3)) + 511) div 512)
          \<and> length ebrs = length (the_files s) - 3
          \<and> (\<forall>k. 3 \<le> k \<and> k < length (the_files s) \<longrightarrow> says_ebr s k (ebrs ! (k - 3))))"

lemma says_file_length: "says_file s k e \<Longrightarrow> length e = 16"
  by (simp add: says_file_def mbr_entry_def)

lemma create_mbr_primary:
  assumes "mbr_layout s" and "length (the_files s) \<le> 4" and "primary s = Some (zeroes 512)"
  obtains table where "create_mbr_layout s = Some (s\<lparr>primary := Some table\<rparr>)" "mbr_tables s table ebrs"
proof -
  let ?t = "boot_signature (zeroes 512)" let ?n = "length (the_files s)"
  have t: "length ?t = 512" "drop 0x1fe ?t = [0x55, 0xaa]" "\<And>k. k < 4 \<Longrightarrow> entry_at ?t k = zeroes 16"
    using entry_at_upper [of "zeroes 512"] boot_signature_end [of "zeroes 512"] by (simp_all add: entry_at_def)
  obtain table j where "mbr_primary s [0..<?n] 0 ?t = Some (table, j)" "length table = 512" "drop 0x1fe table = drop 0x1fe ?t"
    "\<forall>k < 4. if 0 \<le> k \<and> k < ?n then says_file s k (entry_at table k) else entry_at table k = entry_at ?t k"
    using mbr_primary_ok [OF assms(1) order.refl assms(2) t(1), of 0 0] by auto
  with assms(2,3) t show thesis by (intro that [of table]) (simp_all add: create_mbr_layout_def mbr_tables_def Let_def)
qed

lemma create_mbr_extended:
  assumes "mbr_layout s" and "length (the_files s) > 4" and "primary s = Some (zeroes 512)"
    and "ebr s = Some (replicate (length (the_files s) - 3) (zeroes 512))"
  obtains table ebrs where "create_mbr_layout s = Some (s\<lparr>primary := Some table, ebr := Some ebrs\<rparr>)" "mbr_tables s table ebrs"
proof -
  let ?t = "boot_signature (zeroes 512)" let ?n = "length (the_files s)" let ?rs = "the_regions s"
  note l = mbr_layout_ok [OF assms(1)]
  have t: "length ?t = 512" "drop 0x1fe ?t = [0x55, 0xaa]"
    using entry_at_upper [of "zeroes 512"] boot_signature_end [of "zeroes 512"] by simp_all
  have h: "has_ebr s 3" "3 < ?n" "3 \<le> ?n" using l(4) assms(2) by (simp_all add: has_ebr_def)
  obtain table where p: "mbr_primary s [0..<3] 0 ?t = Some (table, idx ?rs (region_file 2))" "length table = 512" "drop 0x1fe table = drop 0x1fe ?t"
    "\<forall>k < 4. if 0 \<le> k \<and> k < 3 then says_file s k (entry_at table k) else entry_at table k = entry_at ?t k"
    using mbr_primary_ok [OF assms(1) h(3) _ t(1), of 0 0] by auto
  have f: "find_ebr_region ?rs 3 (idx ?rs (region_file 2)) = Some (ebr_region s 3, idx ?rs (region_data (Ebr 0)))"
    using scan_idx [OF layout_types(2) [OF l(3) h(2,1)], of "idx ?rs (region_file 2)"] layout_order(3) [OF l(3) h(2), of 2] h(1)
    by (simp add: find_ebr_region_def)
  note e = ebr_region_ok [OF assms(1) h(2,1)]
  define len where "len = virtual_size ?rs - 1 - r_start (ebr_region s 3) + 1"
  have "len = virtual_size ?rs - r_start (ebr_region s 3)" by (simp add: len_def)
  then have len: "unat len = regions_size ?rs - unat (r_start (ebr_region s 3))"
    using e(5,6) l(6) by (simp add: unat_sub word_le_nat_alt)
  obtain x where x: "create_mbr_partition_table_entry (r_start (ebr_region s 3)) len False 0xf = Some x"
    "mbr_entry x 0xf (unat (r_start (ebr_region s 3)) div 512) ((unat len + 511) div 512)"
    by (rule create_mbr_entry_ok [of "r_start (ebr_region s 3)" len]) (use e l(2) len in auto)
  have lx: "length x = 16" using x(2) by (simp add: mbr_entry_def)
  obtain ebrs where eb: "mbr_logical s (ebr_region s 3) [3..<?n] (idx ?rs (region_data (Ebr 0))) (replicate (?n - 3) (zeroes 512)) = Some ebrs"
    "length ebrs = ?n - 3" "\<forall>k. 3 \<le> k \<and> k < ?n \<longrightarrow> says_ebr s k (ebrs ! (k - 3))"
    using mbr_logical_ok [OF assms(1) h(1) order.refl h(3), of "replicate (?n - 3) (zeroes 512)" "idx ?rs (region_data (Ebr 0))"]
    by (force simp del: replicate.simps)
  let ?t' = "memcpy table 0x1ee x"
  have t': "length ?t' = 512" "drop 0x1fe ?t' = drop 0x1fe table" using p(2) lx by (simp_all add: memcpy_def)
  have en: "k < 4 \<Longrightarrow> entry_at ?t' k = (if k = 3 then x else entry_at table k)" for k
    using entry_at_memcpy [OF p(2) lx, of 3 k] by simp
  have "create_mbr_layout s = Some (s\<lparr>primary := Some ?t', ebr := Some ebrs\<rparr>)"
    using assms(2-4) p(1) f x(1) eb(1) by (simp add: create_mbr_layout_def Let_def len_def)
  moreover have "mbr_tables s ?t' ebrs"
    unfolding mbr_tables_def using assms(2) t' t(2) p(3,4) en x(2) eb(2,3) by (simp add: len)
  ultimately show thesis by (rule that)
qed

subsection \<open>The whole layout\<close>

text \<open>The files on the command line: not empty, aligned to powers of two, and distinct, with all their bytes there.\<close>

definition files_ok :: "part_state \<Rightarrow> bool" where
  "files_ok s \<longleftrightarrow> the_files s \<noteq> [] \<and> (\<forall>f \<in> set (the_files s). good_file f \<and> f_fd f < length (os_files s)
       \<and> length (os_files s ! f_fd f) = unat (f_size f)) \<and> distinct (map f_fd (the_files s)) \<and> script_ok (io_script s)"

definition fresh :: "part_state \<Rightarrow> bool" where
  "fresh s \<longleftrightarrow> the_regions s = [] \<and> primary s = None \<and> secondary s = None \<and> ebr s = None"

lemma types_member: "rg \<in> set rs \<Longrightarrow> r_type rg \<noteq> region_zero \<Longrightarrow> r_type rg \<in> set (types rs)"
  by (auto simp: types_def)

lemma types_unique:
  "distinct (types rs) \<Longrightarrow> rg \<in> set rs \<Longrightarrow> rg' \<in> set rs \<Longrightarrow> r_type rg = r_type rg' \<Longrightarrow> r_type rg \<noteq> region_zero \<Longrightarrow> rg = rg'"
proof (induction rs)
  case (Cons r rs)
  then show ?case using types_member [of _ rs] by (auto split: if_splits) metis+
qed simp

text \<open>A layout whose buffers have the right lengths serves a disk.\<close>

lemma layout_part_inv:
  assumes "layout s (the_regions s) len tail" and "files_ok s" and "length (data_bytes s Primary) = unat len"
    and "\<And>i. i < length (the_files s) \<Longrightarrow> has_ebr s i \<Longrightarrow> length (data_bytes s (Ebr (i - 3))) = 512"
    and "\<And>rg. rg \<in> set (the_regions s) \<Longrightarrow> r_type rg = region_data Secondary \<Longrightarrow> length (data_bytes s Secondary) = unat (r_len rg)"
  shows "part_inv (regions_size (the_regions s)) s"
proof -
  let ?rs = "the_regions s"
  have d: "distinct (types ?rs)" by (rule layout_distinct [OF assms(1)])
  have mem: "i < length (the_files s)" if "rg \<in> set ?rs" "r_type rg = region_file i" for rg i
    using types_member [OF that(1)] that(2) assms(1) by (auto simp: layout_def file_types_set)
  have "region_backed s rg" if rg: "rg \<in> set ?rs" for rg
  proof (cases "r_type rg")
    case (region_file i)
    have "placed s rg" using assms(1) rg by (simp add: layout_def)
    then have "r_len rg = f_size (the_files s ! i)" using region_file by (simp add: placed_def)
    moreover have "the_files s ! i \<in> set (the_files s)" using mem [OF rg region_file] by simp
    ultimately show ?thesis using mem [OF rg region_file] assms(2) region_file by (simp add: region_backed_def files_ok_def)
  next
    case (region_data b)
    show ?thesis
    proof (cases b)
      case Primary
      have "rg = ?rs ! 0" using types_unique [OF d rg] assms(1) region_data Primary by (simp add: layout_def)
      then show ?thesis using assms(1,3) region_data Primary by (simp add: region_backed_def layout_def)
    next
      case Secondary
      then show ?thesis using assms(5) [OF rg] region_data by (simp add: region_backed_def)
    next
      case (Ebr k)
      have "region_data (Ebr k) \<in> set (types ?rs)" using types_member [OF rg] region_data Ebr by simp
      then have "k + 3 < length (the_files s)" "has_ebr s (k + 3)" using assms(1) by (auto simp: layout_def file_types_set)
      moreover have "unat (r_len rg) = 512" using assms(1) rg region_data Ebr by (auto simp: layout_def placed_def)
      ultimately show ?thesis using assms(4) [of "k + 3"] region_data Ebr by (simp add: region_backed_def)
    qed
  qed (simp add: region_backed_def)
  moreover have "rg = rg'" if t: "rg \<in> set ?rs" "rg' \<in> set ?rs" "region_fd s rg \<noteq> None" "region_fd s rg = region_fd s rg'" for rg rg'
  proof -
    obtain i i' where i: "r_type rg = region_file i" "r_type rg' = region_file i'"
      using t(3,4) by (auto simp: region_fd_def split: region_type.splits)
    moreover have "i = i'"
      using i t mem [OF t(1) i(1)] mem [OF t(2) i(2)] assms(2)
      by (auto simp: region_fd_def files_ok_def distinct_conv_nth)
    ultimately show ?thesis using types_unique [OF d t(1,2)] by simp
  qed
  ultimately show ?thesis using assms(1,2) by (auto simp: part_inv_def layout_def files_ok_def)
qed

lemma state_upd_simps [simp]:
  "placed (s\<lparr>the_regions := rs\<rparr>) rg = placed s rg" "placed (s\<lparr>primary := x\<rparr>) rg = placed s rg" "placed (s\<lparr>ebr := y\<rparr>) rg = placed s rg"
  "placed (s\<lparr>secondary := x\<rparr>) rg = placed s rg"
  "has_ebr (s\<lparr>the_regions := rs\<rparr>) i = has_ebr s i" "has_ebr (s\<lparr>primary := x\<rparr>) i = has_ebr s i" "has_ebr (s\<lparr>ebr := y\<rparr>) i = has_ebr s i"
  "has_ebr (s\<lparr>secondary := x\<rparr>) i = has_ebr s i"
  by (simp_all add: placed_def has_ebr_def cong: region_type.case_cong)

lemma files_upd_simps [simp]:
  "file_types (s\<lparr>the_regions := rs\<rparr>) is = file_types s is" "file_types (s\<lparr>primary := x\<rparr>) is = file_types s is"
  "file_types (s\<lparr>ebr := y\<rparr>) is = file_types s is" "file_types (s\<lparr>secondary := x\<rparr>) is = file_types s is"
  "files_ok (s\<lparr>the_regions := rs\<rparr>) = files_ok s" "files_ok (s\<lparr>primary := x\<rparr>) = files_ok s"
  "files_ok (s\<lparr>ebr := y\<rparr>) = files_ok s" "files_ok (s\<lparr>secondary := x\<rparr>) = files_ok s"
  by (simp_all add: file_types_def files_ok_def)

lemma mbr_upd_simps [simp]:
  "mbr_layout (s\<lparr>primary := x\<rparr>) = mbr_layout s" "mbr_layout (s\<lparr>ebr := y\<rparr>) = mbr_layout s"
  "mbr_tables (s\<lparr>primary := x\<rparr>) table ebrs = mbr_tables s table ebrs" "mbr_tables (s\<lparr>ebr := y\<rparr>) table ebrs = mbr_tables s table ebrs"
  by (simp_all add: mbr_layout_def layout_def mbr_tables_def says_file_def says_ebr_def)

definition total_room :: "part_state \<Rightarrow> nat" where
  "total_room s = (\<Sum>f\<leftarrow>the_files s. file_room f)"

lemma total_room_index: "total_room s = (\<Sum>i\<leftarrow>[0..<length (the_files s)]. file_room (the_files s ! i))"
proof -
  have "map file_room (the_files s) = map (\<lambda>i. file_room (the_files s ! i)) [0..<length (the_files s)]"
    by (rule nth_equalityI) simp_all
  then show ?thesis by (simp add: total_room_def)
qed

lemma layout_files_ok:
  assumes "files_ok s" and "0 < unat len" and "512 dvd unat len" and "unat len + total_room s < 2 ^ 62"
    and "append_table s [] = append_region_len [] d len 0 0 (region_data Primary)"
  obtains rs where "do { rs \<leftarrow> append_table s []; append_files s [0..<length (the_files s)] rs } = Some rs"
    "layout s rs len []" "regions_size rs \<le> unat len + total_room s" "check_alignment s rs = Some ()"
proof -
  let ?is = "[0..<length (the_files s)]"
  have good: "\<forall>i \<in> set ?is. good_file (the_files s ! i)" using assms(1) by (simp add: files_ok_def)
  obtain rg where rg: "append_region_len [] d len 0 0 (region_data Primary) = Some ([] @ [rg])" "regions_ok ([] @ [rg])"
    "r_type rg = region_data Primary" "r_len rg = len"
  proof (rule append_data_region [of "[] :: buffer regions" len d "region_data Primary"])
    show "regions_ok ([] :: buffer regions)" by (simp add: regions_ok_def)
    show "regions_size ([] :: buffer regions) + unat len < 2 ^ 63" using assms(4) by simp
  qed (rule assms(2))
  obtain rs where rs: "append_files s ?is [rg] = Some ([rg] @ rs)" "regions_ok ([rg] @ rs)" "512 dvd regions_size ([rg] @ rs)"
    "types rs = file_types s ?is" "\<forall>rg \<in> set rs. placed s rg" "regions_size rs \<le> total_room s"
    unfolding total_room_index
    by (rule append_files_ok [of "[rg]" ?is s])
      (use rg assms(3,4) good in \<open>simp_all add: total_room_index regions_ok_def\<close>)
  have p: "placed s rg" using rg(3) by (simp add: placed_def)
  have "layout s (rg # rs) len []" using rg rs p by (simp add: layout_def)
  moreover have "check_alignment s (rg # rs) = Some ()"
    by (rule check_alignment_ok) (use rs(4,5) rg(3) p good in \<open>auto simp: file_types_set\<close>)
  ultimately show thesis using rg(1,4) rs(1,6) assms(5) by (intro that [of "rg # rs"]) simp_all
qed

lemma check_alignment_upd [simp]: "check_alignment (s\<lparr>the_regions := rs\<rparr>) rs' = check_alignment s rs'"
  by (induction rs') (simp_all cong: region_type.case_cong)

lemma create_layout_mbr:
  assumes "fresh s" and "the_parttype s = PARTTYPE_MBR" and "files_ok s" and "total_room s \<le> 2 ^ 41 - 1024"
  obtains s' where "create_virtual_disk_layout s = create_mbr_layout s'" "mbr_layout s'" "primary s' = Some (zeroes 512)"
    "4 < length (the_files s) \<longrightarrow> ebr s' = Some (replicate (length (the_files s) - 3) (zeroes 512))"
    "the_files s' = the_files s" "os_files s' = os_files s" "io_script s' = io_script s" "files_ok s'"
proof -
  let ?n = "length (the_files s)"
  define s1 where "s1 = s\<lparr>primary := Some (zeroes 512), ebr := if ?n > 4 then Some (replicate (?n - 3) (zeroes 512)) else ebr s\<rparr>"
  have s1: "files_ok s1" "the_files s1 = the_files s" "the_parttype s1 = PARTTYPE_MBR" "the_regions s1 = []" "total_room s1 = total_room s"
    using assms(1-3) by (simp_all add: s1_def fresh_def total_room_def)
  have t: "append_table s1 [] = append_region_len [] ''MBR'' SECTOR_SIZE 0 0 (region_data Primary)"
    using s1(3) by (simp add: append_table_def)
  obtain rs where rs: "do { rs \<leftarrow> append_table s1 []; append_files s1 [0..<length (the_files s1)] rs } = Some rs"
    "layout s1 rs SECTOR_SIZE []" "regions_size rs \<le> unat SECTOR_SIZE + total_room s1" "check_alignment s1 rs = Some ()"
    by (rule layout_files_ok [OF s1(1) _ _ _ t]) (use s1(5) assms(4) in simp_all)
  let ?s2 = "s1\<lparr>the_regions := rs\<rparr>"
  have "mbr_layout ?s2" using rs(2,3) s1(3,5) assms(4) by (simp add: mbr_layout_def layout_def)
  moreover have "create_virtual_disk_layout s = create_mbr_layout ?s2"
  proof -
    have "allocate_tables s = Some s1" using assms(2) by (simp add: allocate_tables_def s1_def)
    moreover obtain rs0 where "append_table s1 [] = Some rs0" "append_files s1 [0..<?n] rs0 = Some rs"
      using rs(1) s1(2) by (auto simp: bind_eq_Some_conv)
    moreover have "rs \<noteq> []" "the_files s \<noteq> []" using rs(2) assms(3) by (simp_all add: layout_def files_ok_def)
    ultimately show ?thesis
      using assms(1,2) s1(2-4) rs(4)
      by (simp add: create_virtual_disk_layout_def fresh_def nr_regions_def create_partition_table_def Let_def s1_def)
  qed
  ultimately show thesis using s1(1) by (intro that [of ?s2]) (simp_all add: s1_def)
qed

lemma create_mbr_disk:
  assumes "fresh s" and "the_parttype s = PARTTYPE_MBR" and "files_ok s" and "total_room s \<le> 2 ^ 41 - 1024"
  obtains s' table ebrs where "create_virtual_disk_layout s = Some s'" "mbr_layout s'" "mbr_tables s' table ebrs"
    "part_inv (regions_size (the_regions s')) s'" "primary s' = Some table" "4 < length (the_files s) \<longrightarrow> ebr s' = Some ebrs"
    "the_files s' = the_files s" "os_files s' = os_files s" "io_script s' = io_script s"
proof -
  obtain s1 where s1: "create_virtual_disk_layout s = create_mbr_layout s1" "mbr_layout s1" "primary s1 = Some (zeroes 512)"
    "4 < length (the_files s) \<longrightarrow> ebr s1 = Some (replicate (length (the_files s) - 3) (zeroes 512))"
    "the_files s1 = the_files s" "os_files s1 = os_files s" "io_script s1 = io_script s" "files_ok s1"
    by (rule create_layout_mbr [OF assms])
  have l: "layout s1 (the_regions s1) 512 []" by (rule mbr_layout_ok(3) [OF s1(2)])
  have sec: "rg \<in> set (the_regions s1) \<Longrightarrow> r_type rg \<noteq> region_data Secondary" for rg
    using types_member [of rg "the_regions s1"] l by (auto simp: layout_def file_types_set)
  show thesis
  proof (cases "length (the_files s) \<le> 4")
    case True
    with s1(5) have n: "length (the_files s1) \<le> 4" by simp
    obtain table where t: "create_mbr_layout s1 = Some (s1\<lparr>primary := Some table\<rparr>)" "mbr_tables s1 table []"
      by (rule create_mbr_primary [OF s1(2) n s1(3), of "[]"])
    let ?s = "s1\<lparr>primary := Some table\<rparr>"
    have "part_inv (regions_size (the_regions ?s)) ?s"
      by (rule layout_part_inv [where len = 512 and tail = "[]"])
        (use l s1(8) t(2) n sec in \<open>auto simp: layout_def data_bytes_def mbr_tables_def has_ebr_def\<close>)
    then show ?thesis using s1 t True by (intro that [of ?s table "[]"]) simp_all
  next
    case False
    then have n: "4 < length (the_files s1)" and e: "ebr s1 = Some (replicate (length (the_files s1) - 3) (zeroes 512))" using s1(4,5) by simp_all
    obtain table ebrs where t: "create_mbr_layout s1 = Some (s1\<lparr>primary := Some table, ebr := Some ebrs\<rparr>)" "mbr_tables s1 table ebrs"
      by (rule create_mbr_extended [OF s1(2) n s1(3) e])
    let ?s = "s1\<lparr>primary := Some table, ebr := Some ebrs\<rparr>"
    have eb: "length (data_bytes ?s (Ebr (i - 3))) = 512" if "i < length (the_files s1)" "has_ebr s1 i" for i
      using t(2) n that by (auto simp: mbr_tables_def data_bytes_def has_ebr_def says_ebr_def)
    have "part_inv (regions_size (the_regions ?s)) ?s"
      by (rule layout_part_inv [where len = 512 and tail = "[]"])
        (use l s1(8) t(2) eb sec in \<open>auto simp: layout_def data_bytes_def mbr_tables_def\<close>)
    then show ?thesis using s1 t by (intro that [of ?s table ebrs]) simp_all
  qed
qed

end
