(* ===== verification/PartitionFilter.thy ===== *)
theory PartitionFilter
  imports Server Gpt
begin

text \<open>
  The partition filter, \<^verbatim>\<open>src/filters/partition\<close>: it finds one partition of the disk below it in an MBR or GPT
  partition table and serves only that part.

  A filter calls the layer below through \<^verbatim>\<open>struct nbdkit_next_ops\<close>, which holds the functions of
  \<^verbatim>\<open>server/backend.c\<close>: the callbacks here take the backend \<open>b\<close> below and its context \<open>c\<close>.  The number of the
  partition and the sector size are parameters; offsets and sizes of type \<^verbatim>\<open>int64_t\<close> are words read with
  \<^const>\<open>sint\<close> where their sign matters.
\<close>

subsection \<open>MBR\<close>

record mbr_partition =
  part_type_byte :: u8
  start_sector :: u32
  nr_sectors :: u32

definition is_extended :: "u8 \<Rightarrow> bool" where
  "is_extended byte \<longleftrightarrow> byte = 0x5 \<or> byte = 0xf \<or> byte = 0x85"

definition get_mbr_partition :: "u8 list \<Rightarrow> nat \<Rightarrow> mbr_partition" where
  "get_mbr_partition sector i =
     (let off = 0x1BE + i * 0x10 in
      \<lparr>part_type_byte = sector ! (off + 4), start_sector = le_dec (take 4 (drop (off + 8) sector)),
       nr_sectors = le_dec (take 4 (drop (off + 0xC) sector))\<rparr>)"

text \<open>
  The loop over the primary partitions: \<^term>\<open>None\<close> when it ends without a return, \<^term>\<open>Some None\<close> for
  \<^verbatim>\<open>return -1\<close>, otherwise the offset and the range.
\<close>

fun mbr_primary_loop :: "u32 \<Rightarrow> u32 \<Rightarrow> u8 list \<Rightarrow> nat list \<Rightarrow> (u64 \<times> u64) option option" where
  "mbr_primary_loop partnum sector_size mbr [] = None"
| "mbr_primary_loop partnum sector_size mbr (i # is) =
     (let p = get_mbr_partition mbr i in
      if nr_sectors p > 0 \<and> part_type_byte p \<noteq> 0 \<and> \<not> is_extended (part_type_byte p) \<and> partnum = of_nat (i + 1) then
        if part_type_byte p = 0xEE then Some None
        else Some (Some (ucast (start_sector p) * ucast sector_size, ucast (nr_sectors p) * ucast sector_size))
      else mbr_primary_loop partnum sector_size mbr is)"

fun mbr_find_extended :: "u8 list \<Rightarrow> nat list \<Rightarrow> mbr_partition option" where
  "mbr_find_extended mbr [] = None"
| "mbr_find_extended mbr (i # is) =
     (let p = get_mbr_partition mbr i in
      if nr_sectors p > 0 \<and> is_extended (part_type_byte p) then Some p else mbr_find_extended mbr is)"

text \<open>\<^verbatim>\<open>next->pread\<close> with \<^verbatim>\<open>&errno\<close> for the error number.\<close>

definition next_pread_errno :: "('s, 'x) backend_scheme \<Rightarrow> 's ctx \<Rightarrow> u32 \<Rightarrow> u64 \<Rightarrow> (int \<times> u8 list \<times> 's ctx) option" where
  "next_pread_errno b c count off = do {
     (r, buf, err, c) \<leftarrow> backend_pread b c count off 0 (c_errno (inner c));
     Some (r, buf, c\<lparr>inner := (inner c)\<lparr>c_errno := err\<rparr>\<rparr>)
   }"

text \<open>The logical partition described by the first entry of an extended boot record.\<close>

definition ebr_partition :: "u32 \<Rightarrow> mbr_partition \<Rightarrow> u8 list \<Rightarrow> u64 \<Rightarrow> (u64 \<times> u64) option" where
  "ebr_partition sector_size ep sector ebr =
     (let p = get_mbr_partition sector 0;
          off = ebr + ucast (start_sector p) * ucast sector_size;
          rng = ucast (nr_sectors p) * ucast sector_size in
      if off \<le> ebr \<or> off + rng > (ucast (start_sector ep) + ucast (nr_sectors ep)) * ucast sector_size then None
      else Some (off, rng))"

text \<open>The walk along the chain of extended boot records ends because their addresses increase.\<close>

function ebr_loop :: "('s, 'x) backend_scheme \<Rightarrow> u32 \<Rightarrow> u32 \<Rightarrow> u64 \<Rightarrow> mbr_partition \<Rightarrow> 's ctx \<Rightarrow> u32 \<Rightarrow> u64 \<Rightarrow>
    ((u64 \<times> u64) option \<times> 's ctx) option" where
  "ebr_loop b partnum sector_size disk_size ep c i ebr = do {
     aligned \<leftarrow> IS_ALIGNED ebr (ucast sector_size);
     (if \<not> aligned \<or> ebr < ucast sector_size \<or> ebr \<ge> disk_size - ucast sector_size then Some (None, c)
      else do {
        (r, sector, c) \<leftarrow> next_pread_errno b c sector_size ebr;
        (if r = - 1 then Some (None, c)
         else if partnum = i then Some (ebr_partition sector_size ep sector ebr, c)
         else let p = get_mbr_partition sector 1 in
           if start_sector p = 0 \<and> nr_sectors p = 0 then Some (None, c)
           else let next_ebr = (ucast (start_sector ep) + ucast (start_sector p)) * ucast sector_size in
             if next_ebr \<le> ebr then Some (None, c)
             else ebr_loop b partnum sector_size disk_size ep c (i + 1) next_ebr)
      })
   }"
  by pat_completeness auto
termination
proof (relation "measure (\<lambda>(b, partnum, sector_size, disk_size, ep, c, i, ebr). 2 ^ 64 - unat ebr)", simp, clarsimp)
  fix ebr n :: u64 assume "\<not> n \<le> ebr"
  then show "18446744073709551616 - unat n < 18446744073709551616 - unat ebr"
    using unat_u64_less [of n] by (simp add: word_le_nat_alt)
qed

declare ebr_loop.simps [simp del]

definition find_mbr_partition :: "('s, 'x) backend_scheme \<Rightarrow> u32 \<Rightarrow> u32 \<Rightarrow> 's ctx \<Rightarrow> u64 \<Rightarrow> u8 list \<Rightarrow>
    ((u64 \<times> u64) option \<times> 's ctx) option" where
  "find_mbr_partition b partnum sector_size c disk_size mbr =
     (if partnum \<le> 4 then
        (case mbr_primary_loop partnum sector_size mbr [0..<4] of
           Some res \<Rightarrow> Some (res, c)
         | None \<Rightarrow> Some (None, c))
      else
        (case mbr_find_extended mbr [0..<4] of
           None \<Rightarrow> Some (None, c)
         | Some ep \<Rightarrow> ebr_loop b partnum sector_size disk_size ep c 5 (ucast (start_sector ep) * ucast sector_size)))"

subsection \<open>GPT\<close>

text \<open>The number and the size of the entries, unless the table is not where it is expected.\<close>

definition get_gpt_header :: "u8 list \<Rightarrow> (u32 \<times> u32) option" where
  "get_gpt_header sector =
     (let nr_partition_entries = le_dec (take 4 (drop 80 sector));
          size_partition_entry = le_dec (take 4 (drop 84 sector)) in
      if (le_dec (take 8 (drop 72 sector)) :: u64) \<noteq> 2 then None
      else Some (nr_partition_entries, size_partition_entry))"

definition get_gpt_partition :: "u8 list \<Rightarrow> u8 list \<times> u64 \<times> u64" where
  "get_gpt_partition bytes = (take 16 bytes, le_dec (take 8 (drop 32 bytes)), le_dec (take 8 (drop 40 bytes)))"

text \<open>
  The loop over the entries from the \<open>i\<close>th on; \<open>sector\<close> is the sector of entries read last.  The C index is an
  \<^verbatim>\<open>int\<close>, which the loop leaves before \<^verbatim>\<open>INT_MAX\<close> on every disk of less than \<open>2 ^ 38\<close> bytes.
\<close>

function gpt_loop :: "('s, 'x) backend_scheme \<Rightarrow> u32 \<Rightarrow> u32 \<Rightarrow> u32 \<Rightarrow> u32 \<Rightarrow> 's ctx \<Rightarrow> u8 list \<Rightarrow> nat \<Rightarrow>
    ((u64 \<times> u64) option \<times> 's ctx) option" where
  "gpt_loop b partnum sector_size nr_entries entry_size c sector i =
     (if i < unat nr_entries then do {
        let entries_per_sector = sector_size div entry_size;
        (r, sector, c) \<leftarrow>
          (if (of_nat i :: u32) mod entries_per_sector = 0 then do {
             (r, buf, _, c) \<leftarrow> backend_pread b c sector_size
                 (ucast (sector_size * (2 + (of_nat i :: u32) div entries_per_sector))) 0 0;
             Some (r, buf, c) }
           else Some (0, sector, c));
        (if r = - 1 then Some (None, c)
         else case get_gpt_partition (drop (unat ((of_nat i :: u32) mod entries_per_sector * entry_size)) sector) of
           (type_guid, first_lba, last_lba) \<Rightarrow>
             if type_guid \<noteq> zeroes 16 \<and> partnum = of_nat (i + 1) then
               Some (Some (first_lba * ucast sector_size, (1 + last_lba - first_lba) * ucast sector_size), c)
             else gpt_loop b partnum sector_size nr_entries entry_size c sector (i + 1))
      } else Some (None, c))"
  by pat_completeness auto
termination
  by (relation "measure (\<lambda>(b, partnum, sector_size, nr, esize, c, sector, i). unat nr - i)") auto

declare gpt_loop.simps [simp del]

definition find_gpt_partition :: "('s, 'x) backend_scheme \<Rightarrow> u32 \<Rightarrow> u32 \<Rightarrow> 's ctx \<Rightarrow> u64 \<Rightarrow> u8 list \<Rightarrow>
    ((u64 \<times> u64) option \<times> 's ctx) option" where
  "find_gpt_partition b partnum sector_size c disk_size header_bytes =
     (case get_gpt_header header_bytes of
        None \<Rightarrow> Some (None, c)
      | Some (nr_entries, entry_size) \<Rightarrow>
          if partnum > nr_entries then Some (None, c)
          else if entry_size < 128 \<or> entry_size > sector_size \<or> sector_size mod entry_size \<noteq> 0 then Some (None, c)
          else if sint disk_size < 3 * int (unat sector_size) + 2 * int (unat nr_entries) * int (unat entry_size) then Some (None, c)
          else gpt_loop b partnum sector_size nr_entries entry_size c [] 0)"

subsection \<open>The callbacks\<close>

datatype table_type = GPT | MBR

record partition_handle =
  h_offset :: u64
  h_range :: u64
  h_type :: "table_type option"

definition partition_config_complete :: "u32 \<Rightarrow> int option" where
  "partition_config_complete partnum = (if partnum = 0 then Some (- 1) else None)"

definition partition_open :: partition_handle where
  "partition_open = \<lparr>h_offset = - 1, h_range = - 1, h_type = None\<rparr>"

definition choose_sector_size :: "('s, 'x) backend_scheme \<Rightarrow> u32 \<Rightarrow> 's ctx \<Rightarrow> (u32 option \<times> 's ctx) option" where
  "choose_sector_size b sector_size c =
     (if sector_size = 0 then do {
        (r, (minimum, _, _), c) \<leftarrow> backend_block_size b c;
        Some (if r \<noteq> 0 then None else if minimum = 512 \<or> minimum = 4096 then Some minimum else Some 512, c) }
      else Some (Some sector_size, c))"

definition find_partition :: "('s, 'x) backend_scheme \<Rightarrow> u32 \<Rightarrow> u32 \<Rightarrow> 's ctx \<Rightarrow> u64 \<Rightarrow> u8 list \<Rightarrow>
    (((u64 \<times> u64) option \<times> table_type option) \<times> 's ctx) option" where
  "find_partition b partnum sector_size c disk_size lba01 =
     (let header = drop (unat sector_size) lba01 in
      if sint disk_size \<ge> int (unat (3 * sector_size + 2 * 128 * 128)) \<and> take 8 header = GPT_SIGNATURE then do {
        (res, c) \<leftarrow> find_gpt_partition b partnum sector_size c disk_size header;
        Some ((res, Some GPT), c) }
      else if lba01 ! 0x1fe = 0x55 \<and> lba01 ! 0x1ff = 0xAA then do {
        (res, c) \<leftarrow> find_mbr_partition b partnum sector_size c disk_size lba01;
        Some ((res, Some MBR), c) }
      else Some ((None, None), c))"

text \<open>The result is the return code, the handle, the global \<^verbatim>\<open>sector_size\<close> and the context.\<close>

definition partition_prepare :: "('s, 'x) backend_scheme \<Rightarrow> u32 \<Rightarrow> u32 \<Rightarrow> partition_handle \<Rightarrow> 's ctx \<Rightarrow>
    (int \<times> partition_handle \<times> u32 \<times> 's ctx) option" where
  "partition_prepare b partnum sector_size h c = do {
     (chosen, c) \<leftarrow> choose_sector_size b sector_size c;
     (case chosen of
        None \<Rightarrow> Some (- 1, h, sector_size, c)
      | Some sector_size \<Rightarrow> do {
          (disk_size, c) \<leftarrow> backend_get_size b c;
          (if disk_size = - 1 \<or> sint disk_size < int (unat (2 * sector_size)) then Some (- 1, h, sector_size, c)
           else do {
             (r, lba01, _, c) \<leftarrow> backend_pread b c (2 * sector_size) 0 0 0;
             (if r = - 1 then Some (- 1, h, sector_size, c)
              else do {
                ((res, ty), c) \<leftarrow> find_partition b partnum sector_size c disk_size lba01;
                let h = h\<lparr>h_type := (case ty of None \<Rightarrow> h_type h | Some t \<Rightarrow> Some t)\<rparr>;
                (case res of
                   None \<Rightarrow> Some (- 1, h, sector_size, c)
                 | Some (off, rng) \<Rightarrow>
                     let h = h\<lparr>h_offset := off, h_range := rng\<rparr> in
                     if sint off < 0 \<or> sint rng < 0 \<or> sint (off + rng) > sint disk_size
                     then Some (- 1, h, sector_size, c)
                     else Some (0, h, sector_size, c)) }) }) })
   }"

definition partition_get_size :: "partition_handle \<Rightarrow> u64" where
  "partition_get_size h = h_range h"

definition partition_pread :: "('s, 'x) backend_scheme \<Rightarrow> partition_handle \<Rightarrow> 's ctx \<Rightarrow> u32 \<Rightarrow> u64 \<Rightarrow> u32 \<Rightarrow> int \<Rightarrow>
    (int \<times> u8 list \<times> int \<times> 's ctx) option" where
  "partition_pread b h c count offs flags err = backend_pread b c count (offs + h_offset h) flags err"

definition partition_pwrite :: "('s, 'x) backend_scheme \<Rightarrow> partition_handle \<Rightarrow> 's ctx \<Rightarrow> u8 list \<Rightarrow> u32 \<Rightarrow> u64 \<Rightarrow> u32 \<Rightarrow> int \<Rightarrow>
    (int \<times> int \<times> 's ctx) option" where
  "partition_pwrite b h c buf count offs flags err = backend_pwrite b c buf count (offs + h_offset h) flags err"

definition partition_trim :: "('s, 'x) backend_scheme \<Rightarrow> partition_handle \<Rightarrow> 's ctx \<Rightarrow> u32 \<Rightarrow> u64 \<Rightarrow> u32 \<Rightarrow> int \<Rightarrow>
    (int \<times> int \<times> 's ctx) option" where
  "partition_trim b h c count offs flags err = backend_trim b c count (offs + h_offset h) flags err"

definition partition_zero :: "('s, 'x) backend_scheme \<Rightarrow> partition_handle \<Rightarrow> 's ctx \<Rightarrow> u32 \<Rightarrow> u64 \<Rightarrow> u32 \<Rightarrow> int \<Rightarrow>
    (int \<times> int \<times> 's ctx) option" where
  "partition_zero b h c count offs flags err = backend_zero b c count (offs + h_offset h) flags err"

definition partition_cache :: "('s, 'x) backend_scheme \<Rightarrow> partition_handle \<Rightarrow> 's ctx \<Rightarrow> u32 \<Rightarrow> u64 \<Rightarrow> u32 \<Rightarrow> int \<Rightarrow>
    (int \<times> int \<times> 's ctx) option" where
  "partition_cache b h c count offs flags err = backend_cache b c count (offs + h_offset h) flags err"

fun copy_extents :: "u64 \<Rightarrow> nbdkit_extent list \<Rightarrow> nbdkit_extents \<Rightarrow> int option \<times> nbdkit_extents" where
  "copy_extents shift [] exts = (None, exts)"
| "copy_extents shift (e # es) exts =
     (case nbdkit_add_extent exts (ext_offset e - shift) (ext_length e) (ext_type e) of
        (Inl err, exts) \<Rightarrow> (Some err, exts)
      | (Inr _, exts) \<Rightarrow> copy_extents shift es exts)"

definition partition_extents :: "('s, 'x) backend_scheme \<Rightarrow> partition_handle \<Rightarrow> 's ctx \<Rightarrow> u32 \<Rightarrow> u64 \<Rightarrow> u32 \<Rightarrow> nbdkit_extents \<Rightarrow> int \<Rightarrow>
    (int \<times> int \<times> nbdkit_extents \<times> 's ctx) option" where
  "partition_extents b h c count offs flags exts err =
     (case nbdkit_extents_new (offs + h_offset h) (h_offset h + h_range h) of
        Inl e \<Rightarrow> Some (- 1, e, exts, c)
      | Inr extents2 \<Rightarrow> do {
          (r, err, extents2, c) \<leftarrow> backend_extents b c count (offs + h_offset h) flags extents2 err;
          (if r = - 1 then Some (- 1, err, exts, c)
           else case copy_extents (h_offset h) (extents extents2) exts of
               (Some e, exts) \<Rightarrow> Some (- 1, e, exts, c)
             | (None, exts) \<Rightarrow> Some (0, err, exts, c)) })"

subsection \<open>Over a disk that can be read\<close>

definition small_range :: "(u64 \<times> u64) option \<Rightarrow> bool" where
  "small_range res \<longleftrightarrow> (case res of None \<Rightarrow> True | Some (off, rng) \<Rightarrow> unat off + unat rng < 2 ^ 63)"

lemma sector_product:
  assumes "unat (ss :: u32) \<le> 4096"
  shows "unat (ucast (n :: u32) * ucast ss :: u64) = unat n * unat ss" and "unat n * unat ss \<le> 2 ^ 44"
    and "unat ((ucast (n :: u32) + ucast (m :: u32)) * ucast ss :: u64) = (unat n + unat m) * unat ss"
    and "(unat n + unat m) * unat ss \<le> 2 ^ 45"
proof -
  have a: "unat k * unat ss \<le> 2 ^ 32 * 4096" for k :: u32
    using unat_u32_less [of k] assms by (intro mult_mono) simp_all
  show "unat n * unat ss \<le> 2 ^ 44" using a [of n] by simp
  then show "unat (ucast n * ucast ss :: u64) = unat n * unat ss" by (simp add: unat_word_ariths unat_ucast_up)
  have s: "unat (ucast n + ucast m :: u64) = unat n + unat m"
    using unat_u32_less [of n] unat_u32_less [of m] by (simp add: unat_word_ariths unat_ucast_up)
  show b: "(unat n + unat m) * unat ss \<le> 2 ^ 45" using a [of n] a [of m] by (simp add: distrib_right)
  then show "unat ((ucast n + ucast m) * ucast ss :: u64) = (unat n + unat m) * unat ss"
    using s by (simp add: unat_word_ariths(2) unat_ucast_up)
qed

lemma ebr_partition_small: "unat ss \<le> 4096 \<Longrightarrow> unat ebr \<le> 2 ^ 46 \<Longrightarrow> small_range (ebr_partition ss ep sector ebr)"
  using sector_product(1,2) [of ss "start_sector (get_mbr_partition sector 0)"] sector_product(1,2) [of ss "nr_sectors (get_mbr_partition sector 0)"]
  by (auto simp: small_range_def ebr_partition_def Let_def unat_word_ariths(1) split: if_splits)

lemma mbr_primary_small: "unat ss \<le> 4096 \<Longrightarrow> mbr_primary_loop partnum ss mbr is = Some res \<Longrightarrow> small_range res"
proof (induction "is")
  case (Cons i "is")
  show ?case
    using Cons sector_product(1,2) [OF Cons.prems(1), of "start_sector (get_mbr_partition mbr i)"]
      sector_product(1,2) [OF Cons.prems(1), of "nr_sectors (get_mbr_partition mbr i)"]
    by (auto simp: small_range_def Let_def split: if_splits)
qed simp

text \<open>
  What the search for a partition relies on: a context of the layer below whose size is known and whose reads
  return the bytes of a disk \<open>d\<close>.
\<close>

locale quiet_backend =
  fixes b :: "('s, 'x) backend_scheme"
    and ok :: "'s ctx \<Rightarrow> bool"
    and d :: disk
    and sz :: nat
  assumes small: "ok c \<Longrightarrow> sz < 2 ^ 63"
    and get_size: "ok c \<Longrightarrow> \<exists>c'. backend_get_size b c = Some (of_nat sz, c') \<and> ok c' \<and> exportsize c' = of_nat sz"
    and block_size: "ok c \<Longrightarrow> \<exists>r lo pref hi c'. backend_block_size b c = Some (r, (lo, pref, hi), c') \<and> ok c'"
    and read: "ok c \<Longrightarrow> exportsize c = of_nat sz \<Longrightarrow> 0 < unat count \<Longrightarrow> unat off + unat count \<le> sz \<Longrightarrow>
      backend_pread b c count off 0 err = Some (0, disk_read d (unat off) (unat count), err, c)"
begin

definition ready :: "'s ctx \<Rightarrow> bool" where
  "ready c \<longleftrightarrow> ok c \<and> exportsize c = of_nat sz"

lemma next_read:
  "ready c \<Longrightarrow> 0 < unat count \<Longrightarrow> unat off + unat count \<le> sz \<Longrightarrow>
     next_pread_errno b c count off = Some (0, disk_read d (unat off) (unat count), c)"
  by (simp add: next_pread_errno_def read ready_def)

lemma unat_sz: "ready c \<Longrightarrow> unat (of_nat sz :: u64) = sz"
  using small [of c] by (simp add: ready_def unat_of_nat)

lemma unat_sector: "unat (ucast (w :: u32) :: u64) = unat w"
  by (simp add: unat_ucast_up)

text \<open>One step along the chain of extended boot records.\<close>

lemma ebr_step:
  assumes "ready c" and "is_power_of_2 ss" and "2 * unat ss \<le> sz"
    and "unat ss \<le> unat ebr" and "unat ss dvd unat ebr" and "unat ebr + unat ss < sz"
  defines "sector \<equiv> disk_read d (unat ebr) (unat ss)"
  shows "ebr_loop b partnum ss (of_nat sz) ep c i ebr =
    (if partnum = i then Some (ebr_partition ss ep sector ebr, c)
     else let p = get_mbr_partition sector 1 in
       if start_sector p = 0 \<and> nr_sectors p = 0 then Some (None, c)
       else let next_ebr = (ucast (start_sector ep) + ucast (start_sector p)) * ucast ss in
         if next_ebr \<le> ebr then Some (None, c)
         else ebr_loop b partnum ss (of_nat sz) ep c (i + 1) next_ebr)"
proof -
  have p: "is_power_of_2 (ucast ss :: u64)" using assms(2) by (simp add: is_power_of_2_ucast)
  have a: "IS_ALIGNED ebr (ucast ss) = Some True" using assms(5) p by (simp add: IS_ALIGNED_unat unat_sector)
  have "unat (of_nat sz - ucast ss :: u64) = sz - unat ss"
    using unat_sz [OF assms(1)] assms(3) by (subst unat_sub) (simp_all add: word_le_nat_alt unat_sector)
  then have r: "\<not> ebr < ucast ss" "\<not> of_nat sz - ucast ss \<le> ebr"
    using assms(4,6) by (simp_all add: word_less_nat_alt word_le_nat_alt unat_sector)
  have "0 < unat ss" using assms(2) by (auto elim: is_power_of_2E)
  then have n: "next_pread_errno b c ss ebr = Some (0, sector, c)"
    unfolding sector_def using assms(1,6) by (intro next_read) simp_all
  show ?thesis by (subst ebr_loop.simps) (simp add: a r n)
qed

lemma ebr_stop:
  assumes "ready c" and "is_power_of_2 ss" and "2 * unat ss \<le> sz"
    and "\<not> (unat ss \<le> unat ebr \<and> unat ss dvd unat ebr \<and> unat ebr + unat ss < sz)"
  shows "ebr_loop b partnum ss (of_nat sz) ep c i ebr = Some (None, c)"
proof -
  have p: "is_power_of_2 (ucast ss :: u64)" using assms(2) by (simp add: is_power_of_2_ucast)
  have a: "IS_ALIGNED ebr (ucast ss) = Some (unat ss dvd unat ebr)" using p by (simp add: IS_ALIGNED_unat unat_sector)
  have "unat (of_nat sz - ucast ss :: u64) = sz - unat ss"
    using unat_sz [OF assms(1)] assms(3) by (subst unat_sub) (simp_all add: word_le_nat_alt unat_sector)
  then have "ebr < ucast ss \<longleftrightarrow> unat ebr < unat ss" "of_nat sz - ucast ss \<le> ebr \<longleftrightarrow> sz \<le> unat ebr + unat ss"
    using assms(3) by (auto simp add: word_less_nat_alt word_le_nat_alt unat_sector)
  with assms(4) a show ?thesis by (subst ebr_loop.simps) auto
qed

lemma ebr_loop_safe:
  assumes "ready c" and "is_power_of_2 ss" and "unat ss \<le> 4096" and "2 * unat ss \<le> sz" and "unat ebr \<le> 2 ^ 46"
  shows "\<exists>res. ebr_loop b partnum ss (of_nat sz) ep c i ebr = Some (res, c) \<and> small_range res"
  using assms(5)
proof (induction "2 ^ 64 - unat ebr" arbitrary: ebr i rule: less_induct)
  case less
  show ?case
  proof (cases "unat ss \<le> unat ebr \<and> unat ss dvd unat ebr \<and> unat ebr + unat ss < sz")
    case False
    then show ?thesis using ebr_stop [OF assms(1,2,4)] by (simp add: small_range_def)
  next
    case True
    let ?sector = "disk_read d (unat ebr) (unat ss)"
    define nx :: u64 where "nx = (ucast (start_sector ep) + ucast (start_sector (get_mbr_partition ?sector 1))) * ucast ss"
    have nx: "unat nx \<le> 2 ^ 46"
      using sector_product(3,4) [OF assms(3), of "start_sector ep" "start_sector (get_mbr_partition ?sector 1)"] by (simp add: nx_def)
    have rec: "\<exists>res. ebr_loop b partnum ss (of_nat sz) ep c (i + 1) nx = Some (res, c) \<and> small_range res" if "\<not> nx \<le> ebr"
      using that nx unat_u64_less [of nx] by (intro less.hyps) (simp_all add: word_le_nat_alt)
    have "ebr_loop b partnum ss (of_nat sz) ep c i ebr =
      (if partnum = i then Some (ebr_partition ss ep ?sector ebr, c)
       else if start_sector (get_mbr_partition ?sector 1) = 0 \<and> nr_sectors (get_mbr_partition ?sector 1) = 0 then Some (None, c)
       else if nx \<le> ebr then Some (None, c) else ebr_loop b partnum ss (of_nat sz) ep c (i + 1) nx)"
      using ebr_step [OF assms(1,2,4), of ebr partnum ep i] True by (simp only: Let_def nx_def)
    then show ?thesis using rec ebr_partition_small [OF assms(3) less.prems] by (auto simp: small_range_def)
  qed
qed

lemma find_mbr_safe:
  assumes "ready c" and "is_power_of_2 ss" and "unat ss \<le> 4096" and "2 * unat ss \<le> sz"
  shows "\<exists>res. find_mbr_partition b partnum ss c (of_nat sz) mbr = Some (res, c) \<and> small_range res"
proof -
  have "\<exists>res. ebr_loop b partnum ss (of_nat sz) ep c 5 (ucast (start_sector ep) * ucast ss) = Some (res, c) \<and> small_range res" for ep
    by (rule ebr_loop_safe [OF assms]) (use sector_product(1,2) [OF assms(3), of "start_sector ep"] in simp)
  then show ?thesis
    using mbr_primary_small [OF assms(3), of partnum mbr "[0..<4]"]
    by (auto simp: find_mbr_partition_def small_range_def split: option.splits)
qed

text \<open>The entries of a GPT that pass the checks lie inside the disk.\<close>

lemma gpt_loop_safe:
  assumes "ready c" and "0 < unat es" and "unat es dvd unat ss" and "0 < unat ss" and "3 * unat ss + 2 * unat nr * unat es \<le> sz"
  shows "\<exists>res. gpt_loop b partnum ss nr es c sector i = Some (res, c)"
proof (induction "unat nr - i" arbitrary: i sector)
  case 0
  then show ?case by (subst gpt_loop.simps) simp
next
  case (Suc k)
  have i: "i < unat nr" using Suc.hyps(2) by simp
  define eps where "eps = ss div es"
  define pos where "pos = 2 + (of_nat i :: u32) div eps"
  let ?off = "ucast (ss * pos) :: u64"
  have eps: "unat eps * unat es = unat ss" using assms(3) by (simp add: unat_div eps_def)
  have "unat (of_nat i :: u32) = i" using i unat_u32_less [of nr] by (simp add: unat_of_nat)
  then have "unat ((of_nat i :: u32) div eps) = i div unat eps" by (simp add: unat_div)
  then have "unat pos \<le> 2 + i div unat eps" unfolding pos_def by (simp add: unat_word_ariths)
  moreover have "unat ?off \<le> unat ss * unat pos" by (simp add: unat_ucast_up unat_word_ariths)
  ultimately have "unat ?off \<le> unat ss * (2 + i div unat eps)" by (meson le_trans mult_le_mono2)
  moreover have "unat ss * (i div unat eps) = unat eps * (i div unat eps) * unat es" using eps by (simp add: ac_simps)
  moreover have "unat eps * (i div unat eps) * unat es \<le> i * unat es" by (intro mult_right_mono) simp_all
  moreover have "i * unat es \<le> unat nr * unat es" using i by simp
  ultimately have "unat ?off + unat ss \<le> sz" using assms(5) by (simp only: distrib_left)
  then have "backend_pread b c ss ?off 0 0 = Some (0, disk_read d (unat ?off) (unat ss), 0, c)"
    using assms(1,4) by (intro read) (simp_all add: ready_def)
  moreover have "\<exists>res. gpt_loop b partnum ss nr es c sec (i + 1) = Some (res, c)" for sec
    by (rule Suc.hyps(1)) (use Suc.hyps(2) in simp)
  ultimately show ?case
    using i by (subst gpt_loop.simps) (auto simp: Let_def get_gpt_partition_def eps_def pos_def)
qed

lemma find_gpt_safe:
  assumes "ready c" and "0 < unat ss"
  shows "\<exists>res. find_gpt_partition b partnum ss c (of_nat sz) header = Some (res, c)"
proof (cases "get_gpt_header header")
  case (Some x)
  obtain nr es where x: "x = (nr, es)" by force
  have "sint (of_nat sz :: u64) = int sz" using unat_sz [OF assms(1)] small [of c] assms(1) sint_u64_eq [of "of_nat sz"] by (simp add: ready_def)
  moreover have "\<exists>res. gpt_loop b partnum ss nr es c [] 0 = Some (res, c)"
    if "\<not> es < 128" "ss mod es = 0" "\<not> int sz < 3 * int (unat ss) + 2 * int (unat nr) * int (unat es)"
  proof (rule gpt_loop_safe [OF assms(1) _ _ assms(2)])
    show "0 < unat es" using that(1) by (simp add: word_less_nat_alt)
    show "unat es dvd unat ss" using that(2) by (simp add: unat_eq_0 [symmetric] unat_mod mod_eq_0_iff_dvd)
    have "int (3 * unat ss + 2 * unat nr * unat es) \<le> int sz"
      using that(3) by (simp only: of_nat_add of_nat_mult of_nat_numeral not_less)
    then show "3 * unat ss + 2 * unat nr * unat es \<le> sz" by (simp only: of_nat_le_iff)
  qed
  ultimately show ?thesis using Some x by (auto simp: find_gpt_partition_def)
qed (simp add: find_gpt_partition_def)

lemma find_partition_safe:
  assumes "ready c" and "is_power_of_2 ss" and "unat ss \<le> 4096" and "2 * unat ss \<le> sz"
  shows "\<exists>res ty. find_partition b partnum ss c (of_nat sz) lba01 = Some ((res, ty), c) \<and> (ty \<noteq> Some GPT \<longrightarrow> small_range res)"
proof -
  have p: "0 < unat ss" using assms(2) by (auto elim: is_power_of_2E)
  obtain r1 r2 where "find_gpt_partition b partnum ss c (of_nat sz) (drop (unat ss) lba01) = Some (r1, c)"
    "find_mbr_partition b partnum ss c (of_nat sz) lba01 = Some (r2, c)" "small_range r2"
    using find_gpt_safe [OF assms(1) p] find_mbr_safe [OF assms] by blast
  then show ?thesis by (simp add: find_partition_def Let_def small_range_def)
qed

lemma choose_sector_ok:
  assumes "ok c" and "ss \<in> {0, 512, 4096}"
  obtains ss' c' where "choose_sector_size b ss c = Some (ss', c')" "ok c'" "ss' \<in> {None, Some 512, Some 4096}"
  using block_size [OF assms(1)] assms that by (auto simp: choose_sector_size_def split: if_splits)

lemma accepted_range:
  assumes "\<not> sint (off + rng) > int sz" and "unat off + unat rng < 2 ^ 63"
  shows "unat (off :: u64) + unat rng \<le> sz"
proof -
  have "unat (off + rng) = unat off + unat rng" using assms(2) by (simp add: unat_word_ariths)
  then show ?thesis using assms sint_u64_eq [of "off + rng"] by (simp del: of_nat_unat of_nat_add)
qed

text \<open>The search always ends without an abort, and what it accepts lies inside the disk.\<close>

lemma partition_prepare_ok:
  assumes "ok c" and "ss \<in> {0, 512, 4096}"
  shows "\<exists>r h' ss' c'. partition_prepare b partnum ss h c = Some (r, h', ss', c') \<and> ok c'
    \<and> (r = 0 \<longrightarrow> ready c' \<and> unat (h_offset h') < 2 ^ 63 \<and> unat (h_range h') < 2 ^ 63
      \<and> ((h_type h' = Some GPT \<longrightarrow> unat (h_offset h') + unat (h_range h') < 2 ^ 63) \<longrightarrow>
        unat (h_offset h') + unat (h_range h') \<le> sz))"
proof -
  obtain ch c1 where ch: "choose_sector_size b ss c = Some (ch, c1)" "ok c1" "ch \<in> {None, Some 512, Some 4096}"
    by (rule choose_sector_ok [OF assms])
  show ?thesis
  proof (cases ch)
    case None
    with ch show ?thesis by (simp add: partition_prepare_def)
  next
    case (Some s1)
    have s1: "is_power_of_2 s1" "unat s1 \<le> 4096" "unat (2 * s1) = 2 * unat s1" "0 < unat (2 * s1)" using Some ch(3) by (auto simp: is_power_of_2_def)
    obtain c2 where c2: "backend_get_size b c1 = Some (of_nat sz, c2)" "ready c2" using get_size [OF ch(2)] by (auto simp: ready_def)
    have z: "sint (of_nat sz :: u64) = int sz" using unat_sz [OF c2(2)] small [of c2] c2(2) sint_u64_eq [of "of_nat sz"] by (simp add: ready_def)
    have nm: "(of_nat sz :: u64) \<noteq> - 1"
      using unat_sz [OF c2(2)] small [of c2] c2(2) unat_u64_minus_1 by (auto simp: ready_def)
    have cmp: "sint (of_nat sz :: u64) < int (unat (2 * s1)) \<longleftrightarrow> sz < 2 * unat s1" by (simp only: z s1(3) of_nat_less_iff)
    show ?thesis
    proof (cases "sz < 2 * unat s1")
      case True
      with ch Some c2 show ?thesis by (simp add: partition_prepare_def ready_def cmp del: of_nat_unat)
    next
      case False
      then have two: "2 * unat s1 \<le> sz" by simp
      let ?lba = "disk_read d 0 (unat (2 * s1))"
      have rd: "backend_pread b c2 (2 * s1) 0 0 0 = Some (0, ?lba, 0, c2)"
        using read [of c2 "2 * s1" 0 0] c2(2) two s1(3,4) by (simp add: ready_def)
      obtain res ty where f: "find_partition b partnum s1 c2 (of_nat sz) ?lba = Some ((res, ty), c2)" "ty \<noteq> Some GPT \<longrightarrow> small_range res"
        using find_partition_safe [OF c2(2) s1(1,2) two] by blast
      have ok: "ok c2" using c2(2) by (simp add: ready_def)
      show ?thesis
      proof (cases res)
        case None
        with ch Some c2 False rd f nm ok show ?thesis by (simp add: partition_prepare_def cmp del: of_nat_unat)
      next
        case r: (Some x)
        obtain off rng where x: "x = (off, rng)" by force
        define h1 where "h1 = h\<lparr>h_type := (case ty of None \<Rightarrow> h_type h | Some t \<Rightarrow> Some t), h_offset := off, h_range := rng\<rparr>"
        have "partition_prepare b partnum ss h c =
            Some (if sint off < 0 \<or> sint rng < 0 \<or> sint (off + rng) > sint (of_nat sz :: u64) then - 1 else 0, h1, s1, c2)"
          using ch(1) Some c2(1) False rd f(1) nm r x by (simp add: partition_prepare_def h1_def Let_def cmp del: of_nat_unat)
        moreover have "h_type h1 \<noteq> Some GPT \<Longrightarrow> unat off + unat rng < 2 ^ 63"
          using f(2) r x by (auto simp: h1_def small_range_def split: option.splits)
        ultimately show ?thesis using ok c2(2) accepted_range [of off rng] sint_u64_nonneg [of off] sint_u64_nonneg [of rng]
          by (auto simp: h1_def z not_less split: if_splits)
      qed
    qed
  qed
qed

lemma partition_reads:
  assumes "ready c" and "unat (h_offset h) + unat (h_range h) \<le> sz" and "0 < unat count" and "unat offs + unat count \<le> unat (h_range h)"
  shows "partition_pread b h c count offs 0 err = Some (0, disk_read d (unat (h_offset h) + unat offs) (unat count), err, c)"
proof -
  have "unat (offs + h_offset h) = unat (h_offset h) + unat offs"
    using assms(2-4) small [of c] assms(1) by (simp add: ready_def unat_word_ariths)
  then show ?thesis using read [of c count "offs + h_offset h" err] assms by (simp add: partition_pread_def ready_def)
qed

lemma partition_prepare_found:
  assumes "ok c" and "1024 \<le> sz" and "unat off + unat rng \<le> sz"
    and "\<And>c. ready c \<Longrightarrow> find_partition b partnum 512 c (of_nat sz) (disk_read d 0 1024) = Some ((Some (off, rng), Some ty), c)"
  shows "\<exists>c'. ready c' \<and> partition_prepare b partnum 512 h c = Some (0, h\<lparr>h_type := Some ty, h_offset := off, h_range := rng\<rparr>, 512, c')"
proof -
  obtain c' where gs: "backend_get_size b c = Some (of_nat sz, c')" "ready c'" using get_size [OF assms(1)] by (auto simp: ready_def)
  have u: "unat (of_nat sz :: u64) = sz" "sz < 2 ^ 63" using unat_sz [OF gs(2)] small [OF assms(1)] by simp_all
  then have z: "sint (of_nat sz :: u64) = int sz" using sint_u64_eq [of "of_nat sz"] by simp
  have nm: "(of_nat sz :: u64) \<noteq> - 1" using u unat_u64_minus_1 by auto
  have rd: "backend_pread b c' 1024 0 0 0 = Some (0, disk_read d 0 1024, 0, c')"
    using read [of c' 1024 0 0] gs(2) assms(2) by (simp add: ready_def)
  have s: "unat (off + rng) = unat off + unat rng" using assms(3) u(2) by (simp add: unat_word_ariths)
  have "sint off = int (unat off)" "sint rng = int (unat rng)" "sint (off + rng) = int (unat off + unat rng)"
    using assms(3) u(2) s sint_u64_eq [of off] sint_u64_eq [of rng] sint_u64_eq [of "off + rng"] by linarith+
  moreover have "int (unat off + unat rng) \<le> int sz" using assms(3) by (simp only: of_nat_le_iff)
  ultimately show ?thesis
    using gs rd assms(2,4) nm z by (simp add: partition_prepare_def choose_sector_size_def Let_def)
qed

end

text \<open>The entries of a table, in the buffer that the filter reads.\<close>

lemma get_mbr_partition_entry:
  assumes "length table = 512" and "k < 4"
  defines "e \<equiv> take 16 (drop (0x1be + 16 * k) table)"
  shows "get_mbr_partition (table @ rest) k
    = \<lparr>part_type_byte = e ! 4, start_sector = le_dec (take 4 (drop 8 e)), nr_sectors = le_dec (take 4 (drop 12 e))\<rparr>"
proof -
  define a where "a = 0x1be + 16 * k"
  have a: "a + 16 \<le> length table" using assms(1,2) by (simp add: a_def)
  have t: "take 4 (drop (a + n) (table @ rest)) = take 4 (drop n (take 16 (drop a table)))" if "n \<le> 12" for n
    using a that by (simp add: drop_take min_def add.commute)
  have "(table @ rest) ! (a + 4) = take 16 (drop a table) ! 4" using a by (simp add: nth_append)
  moreover have "0x1BE + k * 0x10 = a" "e = take 16 (drop a table)" by (simp_all add: a_def e_def)
  ultimately show ?thesis using t [of 8] t [of 12] by (simp add: get_mbr_partition_def Let_def)
qed

lemma unat_of_nat_u32: "m < 2 ^ 32 \<Longrightarrow> unat (of_nat m :: u32) = m"
  by (simp add: unat_of_nat)

lemma mbr_primary_hit:
  assumes "k \<in> set is" and "\<forall>i \<in> set is. i < 4" and "get_mbr_partition mbr k = \<lparr>part_type_byte = ty, start_sector = st, nr_sectors = nr\<rparr>"
    and "nr > 0" and "ty \<noteq> 0" and "\<not> is_extended ty" and "ty \<noteq> 0xEE"
  shows "mbr_primary_loop (of_nat (k + 1)) ss mbr is = Some (Some (ucast st * ucast ss, ucast nr * ucast ss))"
  using assms(1,2)
proof (induction "is")
  case (Cons i "is")
  show ?case
  proof (cases "i = k")
    case True
    then show ?thesis using assms(3-7) by (simp add: Let_def)
  next
    case False
    moreover have "k < 4" "i < 4" using Cons.prems by auto
    then have "unat (of_nat (k + 1) :: u32) = k + 1" "unat (of_nat (i + 1) :: u32) = i + 1"
      using unat_of_nat_u32 [of "k + 1"] unat_of_nat_u32 [of "i + 1"] by simp_all
    ultimately have "(of_nat (k + 1) :: u32) \<noteq> of_nat (i + 1)" by (metis add_right_cancel)
    then show ?thesis using Cons False by (auto simp: Let_def)
  qed
qed simp

end
