(* ===== verification/PartitionStack.thy ===== *)
theory PartitionStack
  imports PartitionTables PartitionFilter Memory
begin

text \<open>
  The partition filter on top of plugins: on the memory plugin, whose disk a client can fill with any bytes, and on
  the partitioning plugin, whose partition tables the filter must understand.
\<close>

subsection \<open>Plugins whose reads do not fail\<close>

definition quiet :: "nat \<Rightarrow> ('s world \<Rightarrow> bool) \<Rightarrow> 's ctx \<Rightarrow> bool" where
  "quiet sz W c \<longleftrightarrow> connected c \<and> W (inner c) \<and> (exportsize c = - 1 \<or> exportsize c = of_nat sz)"

lemma quiet_plugin:
  assumes small: "\<And>w. W w \<Longrightarrow> sz < 2 ^ 63"
    and sizes: "\<And>w. W w \<Longrightarrow> p_get_size p w = Some (of_nat sz, w)"
    and blocks: "\<And>w f. W w \<Longrightarrow> p_block_size p = Some f \<Longrightarrow> \<exists>r x. f w = Some (r, x, w)"
    and reads: "\<And>w count off. W w \<Longrightarrow> 0 < unat count \<Longrightarrow> unat off + unat count \<le> sz \<Longrightarrow>
      (case p_pread p of Some f \<Rightarrow> f w count off 0 | None \<Rightarrow> (case p_pread_v1 p of Some f \<Rightarrow> f w count off | None \<Rightarrow> None))
        = Some (0, disk_read d (unat off) (unat count), w)"
  shows "quiet_backend (plugin_backend p) (quiet sz W) d sz"
proof
  fix c :: "'a ctx" assume c: "quiet sz W c"
  show "sz < 2 ^ 63" using c small by (auto simp: quiet_def)
  show "\<exists>c'. backend_get_size (plugin_backend p) c = Some (of_nat sz, c') \<and> quiet sz W c' \<and> exportsize c' = of_nat sz"
    using c sizes [of "inner c"] by (auto simp: quiet_def backend_get_size_def plugin_get_size_def on_inner_def connected_def)
  show "\<exists>r lo pref hi c'. backend_block_size (plugin_backend p) c = Some (r, (lo, pref, hi), c') \<and> quiet sz W c'"
    using c blocks [of "inner c"]
    by (cases "p_block_size p") (auto simp: quiet_def backend_block_size_def plugin_block_size_def connected_def Let_def split: prod.splits)
next
  fix c :: "'a ctx" and count :: u32 and off :: u64 and err :: int
  assume c: "quiet sz W c" "exportsize c = of_nat sz" "0 < unat count" "unat off + unat count \<le> sz"
  have "sz < 2 ^ 63" using c(1) small by (auto simp: quiet_def)
  then have "unat (exportsize c) = sz" "sz < 2 ^ 63" using c(2) by (simp_all add: unat_of_nat)
  then have "assert_range c off count = Some ()" using c(3,4) by (simp add: assert_range_def backend_valid_range_iff)
  moreover have "b_pread (plugin_backend p) c count off 0 err = Some (0, disk_read d (unat off) (unat count), err, c)"
    using reads [of "inner c" count off] c by (auto simp: plugin_pread_def quiet_def)
  ultimately show "backend_pread (plugin_backend p) c count off 0 err = Some (0, disk_read d (unat off) (unat count), err, c)"
    using c(1) by (simp add: backend_pread_def quiet_def assert_err_def)
qed

sublocale allocator \<subseteq> qm: quiet_backend "plugin_backend (memory_plugin F dsize)"
  "quiet (unat dsize) (\<lambda>w. world_ok ainv w \<and> acontent (priv w) = d)" d "unat dsize" for d
proof (rule quiet_plugin, goal_cases)
  case (1 w) then show ?case using a_size by (auto simp: world_ok_def)
next
  case (2 w) then show ?case by (simp add: memory_plugin_def memory_get_size_def)
next
  case (3 w f) then show ?case by (auto simp: memory_plugin_def memory_block_size_def)
next
  case (4 w count off) then show ?case using memory_pread_ok [of w off count] by simp
qed

text \<open>When no system call is cut short or fails, a read of the partitioning plugin delivers the bytes and changes nothing.\<close>

lemma pread_region_quiet:
  assumes "part_inv sz (priv w)" and "0 < unat count" and "unat off + unat count \<le> sz" and "io_script (priv w) = []"
    and "find_region (the_regions (priv w)) off = Some rg"
  defines "n \<equiv> unat (region_span rg count off)"
  shows "pread_region w rg (region_span rg count off) off = Some (Some (disk_read (part_content (priv w)) (unat off) n), w)"
proof -
  note rg = region_facts [OF assms(1-3,5), folded n_def]
  have rd: "disk_read (part_content (priv w)) (unat off) n = take n (drop (unat off - unat (r_start rg)) (region_bytes (priv w) rg))"
    by (rule rg(9) [OF rg(3) order.refl])
  show ?thesis
  proof (cases "r_type rg")
    case (region_file k)
    let ?bs = "take n (drop (unat off - unat (r_start rg)) (os_files (priv w) ! f_fd (the_files (priv w) ! k)))"
    have b: "region_bytes (priv w) rg = os_files (priv w) ! f_fd (the_files (priv w) ! k)" "k < length (the_files (priv w))"
      using region_file rg(7) by (simp_all add: region_bytes_def region_backed_def)
    have "length ?bs = n" using rg(10,11) b(1) by simp
    then have "?bs \<noteq> []" using rg(3) by auto
    then show ?thesis using region_file b assms(4) rg(8) rd
      by (simp add: pread_region_def sys_pread_def Let_def n_def [symmetric])
  next
    case (region_data b)
    then show ?thesis using rg(8,10,11) rd by (simp add: pread_region_def Let_def region_bytes_def n_def [symmetric])
  next
    case region_zero
    then show ?thesis using rg(11) rd by (simp add: pread_region_def Let_def region_bytes_def n_def [symmetric])
  qed
qed

lemma partitioning_pread_quiet:
  assumes "part_inv sz (priv w)" and "unat off + unat count \<le> sz" and "io_script (priv w) = []"
  shows "partitioning_pread w count off = Some (0, disk_read (part_content (priv w)) (unat off) (unat count), w)"
  using assms(2)
proof (induction "unat count" arbitrary: count off rule: less_induct)
  case less
  show ?case
  proof (cases "count = 0")
    case True
    then show ?thesis by (subst partitioning_pread.simps) (simp add: disk_read_def)
  next
    case False
    then have c: "0 < unat count" "count > 0" by (simp_all add: unat_gt_0 word_gt_0)
    have z: "sz < 2 ^ 63" using assms(1) by (simp add: part_inv_def regions_ok_def)
    obtain rg where rg: "find_region (the_regions (priv w)) off = Some rg"
      by (rule region_of_request [OF assms(1) c(1) less.prems])
    define n where "n = unat (region_span rg count off)"
    have n: "0 < n" "n \<le> unat count" using region_facts(3,4) [OF assms(1) c(1) less.prems rg] by (simp_all add: n_def)
    note adv = unat_advance [OF n order.strict_trans1 [OF less.prems z]]
    have "partitioning_pread w (count - of_nat n) (off + of_nat n)
        = Some (0, disk_read (part_content (priv w)) (unat off + n) (unat count - n), w)"
      using less.hyps [of "count - of_nat n" "off + of_nat n"] adv n less.prems by simp
    then show ?thesis
      using c rg pread_region_quiet [OF assms(1) c(1) less.prems assms(3) rg, folded n_def] n
        disk_read_append [of "part_content (priv w)" "unat off" n "unat count - n"]
      by (subst partitioning_pread.simps) simp
  qed
qed

lemma unat_of_nat_self: "of_nat (unat w) = (w :: u64)"
  by simp

interpretation quiet_part: quiet_backend "plugin_backend partitioning_plugin"
  "quiet sz (\<lambda>w. world_ok (part_inv sz) w \<and> io_script (priv w) = [] \<and> part_content (priv w) = d)" d sz for sz d
proof (rule quiet_plugin, goal_cases)
  case (1 w) then show ?case by (auto simp: world_ok_def part_inv_def regions_ok_def)
next
  case (2 w)
  then have ok: "regions_ok (the_regions (priv w))" "regions_size (the_regions (priv w)) = sz" by (auto simp: world_ok_def part_inv_def)
  then have "virtual_size (the_regions (priv w)) = of_nat sz"
    using virtual_size_ok [OF ok(1)] unat_of_nat_self [of "virtual_size (the_regions (priv w))"] by simp
  then show ?case by (simp add: partitioning_plugin_def partitioning_get_size_def)
next
  case (3 w f) then show ?case by (simp add: partitioning_plugin_def)
next
  case (4 w count off) then show ?case using partitioning_pread_quiet [of sz w off count] by (auto simp: world_ok_def)
qed

subsection \<open>A server of the partitioning plugin\<close>

definition partitioning_server :: "part_state server \<Rightarrow> part_state server" where
  "partitioning_server srv = plugin_server partitioning_plugin (srv\<lparr>newstyle := True\<rparr>)"

lemma part_inv_small: "part_inv sz s \<Longrightarrow> sz < 2 ^ 63"
  by (auto simp: part_inv_def regions_ok_def)

lemma part_virtual_size: "part_inv sz s \<Longrightarrow> unat (virtual_size (the_regions s)) = sz"
  using virtual_size_ok [of "the_regions s"] by (simp add: part_inv_def)

interpretation part_export: export_plugin partitioning_plugin "part_inv sz" sz "{1}" "{1}" srv for sz srv
proof (unfold_locales, goal_cases)
  case (1 a) then show ?case by (rule part_inv_small)
next
  case 10
  show ?case using part_virtual_size by (auto simp: runs_def world_ok_def partitioning_plugin_def partitioning_get_size_def)
next
  case 20
  show ?case by (auto simp: query_ok_def plugin_can_zero_def partitioning_plugin_def intro!: exI [of _ "inner c" for c])
next
  case (21 c)
  then show ?case by (auto simp: plugin_can_fast_zero_def partitioning_plugin_def intro!: exI [of _ "inner c"])
qed (auto simp: runs_def runs_opt_def partitioning_plugin_def partitioning_open_def partitioning_can_multi_conn_def partitioning_can_cache_def)

interpretation part_server: disk_server "partitioning_server srv" "world_ok (part_inv sz)" "closed_ok (part_inv sz)" sz
  "{1}" "{1}" "\<lambda>w. part_content (priv w)" False True for srv sz
proof (intro disk_server.intro disk_server_axioms.intro, goal_cases)
  case 1
  show ?case unfolding partitioning_server_def by (rule part_export.es.export_server_axioms)
next
  case 2
  show ?case using part_disk.pb.disk_backend_axioms [of sz] by (simp add: partitioning_server_def plugin_server_def)
qed (auto simp: partitioning_server_def plugin_server_def plugin_preconnect_def partitioning_plugin_def)

subsection \<open>MBR round trip\<close>

text \<open>The number by which a client names the partition of the \<open>i\<close>th file: with an extended partition the fourth number is its own.\<close>

definition partition_number :: "nat \<Rightarrow> nat \<Rightarrow> nat" where
  "partition_number n i = (if n \<le> 4 \<or> i < 3 then i + 1 else i + 2)"

definition sectors :: "u64 \<Rightarrow> nat" where
  "sectors len = (unat len + 511) div 512"

definition usual_id :: "u8 \<Rightarrow> bool" where
  "usual_id ty \<longleftrightarrow> ty \<noteq> 0 \<and> \<not> is_extended ty \<and> ty \<noteq> 0xEE"

text \<open>The state of the plugin after \<^verbatim>\<open>get_ready\<close>, as far as the partition tables go.\<close>

definition mbr_disk :: "part_state \<Rightarrow> u8 list \<Rightarrow> u8 list list \<Rightarrow> bool" where
  "mbr_disk s table ebrs \<longleftrightarrow> mbr_layout s \<and> mbr_tables s table ebrs \<and> part_inv (regions_size (the_regions s)) s
     \<and> primary s = Some table \<and> (4 < length (the_files s) \<longrightarrow> ebr s = Some ebrs)"

lemma mbr_diskD:
  assumes "mbr_disk s table ebrs"
  shows "mbr_layout s" "mbr_tables s table ebrs" "part_inv (regions_size (the_regions s)) s" "length table = 512"
    "regions_size (the_regions s) \<le> 2 ^ 41 - 512" "512 dvd regions_size (the_regions s)"
  using assms mbr_layout_ok [of s] by (auto simp: mbr_disk_def mbr_tables_def)

lemma read_table:
  assumes "mbr_disk s table ebrs"
  shows "disk_read (part_content s) 0 512 = table"
proof -
  have l: "layout s (the_regions s) 512 []" "regions_from 0 (the_regions s)" using mbr_layout_ok [of s] assms by (simp_all add: mbr_disk_def)
  let ?rg = "the_regions s ! 0"
  have rg: "?rg \<in> set (the_regions s)" "r_type ?rg = region_data Primary" "r_len ?rg = 512" using l(1) by (simp_all add: layout_def)
  have st: "unat (r_start ?rg) = 0" "unat (r_end ?rg) = 511"
    using regions_from_nth [OF l(2), of 0] rg(1,3) by (cases "the_regions s"; simp)+
  have "disk_read (part_content s) 0 512 = take 512 (drop (0 - unat (r_start ?rg)) (region_bytes s ?rg))"
    by (rule read_region [OF mbr_diskD(3) [OF assms] rg(1)]) (use st in simp_all)
  moreover have "region_bytes s ?rg = table" using assms rg(2) by (simp add: region_bytes_def data_bytes_def mbr_disk_def)
  ultimately show ?thesis using mbr_diskD(4) [OF assms] by simp
qed

lemma read_ebr:
  assumes "mbr_disk s table ebrs" and "4 < length (the_files s)" and "3 \<le> i" and "i < length (the_files s)"
  shows "disk_read (part_content s) (unat (r_start (ebr_region s i))) 512 = ebrs ! (i - 3)" and "says_ebr s i (ebrs ! (i - 3))"
proof -
  note m = mbr_diskD [OF assms(1)]
  have h: "has_ebr s i" using mbr_layout_ok(4) [OF m(1)] assms(2,3) by (simp add: has_ebr_def)
  note e = ebr_region_ok [OF m(1) assms(4) h]
  show se: "says_ebr s i (ebrs ! (i - 3))" using m(2) assms(2-4) by (auto simp: mbr_tables_def)
  have len: "length ebrs = length (the_files s) - 3" using m(2) assms(2) by (auto simp: mbr_tables_def)
  have "disk_read (part_content s) (unat (r_start (ebr_region s i))) 512
      = take 512 (drop (unat (r_start (ebr_region s i)) - unat (r_start (ebr_region s i))) (region_bytes s (ebr_region s i)))"
    by (rule read_region [OF m(3) e(1)]) (use e(3,5) in simp_all)
  moreover have "region_bytes s (ebr_region s i) = ebrs ! (i - 3)"
  proof -
    have "i - 3 < length ebrs" using len assms(2-4) by linarith
    then show ?thesis using assms(1,2) e(2) by (simp add: region_bytes_def data_bytes_def mbr_disk_def)
  qed
  ultimately show "disk_read (part_content s) (unat (r_start (ebr_region s i))) 512 = ebrs ! (i - 3)"
    using se by (simp add: says_ebr_def)
qed

text \<open>Decoding entries.\<close>

lemma entry_partition:
  assumes "length table = 512" and "k < 4" and "mbr_entry (entry_at table k) ty st n"
  shows "get_mbr_partition (table @ rest) k = \<lparr>part_type_byte = ty, start_sector = of_nat st, nr_sectors = of_nat n\<rparr>"
  using get_mbr_partition_entry [OF assms(1,2)] assms(3) by (simp add: mbr_entry_def entry_at_def)

lemma zero_partition:
  assumes "length table = 512" and "k < 4" and "entry_at table k = zeroes 16"
  shows "get_mbr_partition (table @ rest) k = \<lparr>part_type_byte = 0, start_sector = 0, nr_sectors = 0\<rparr>"
proof -
  have "le_dec (zeroes 4) = (0 :: u32)" by (simp add: le_dec_def be_dec_def numeral_eq_Suc)
  then show ?thesis using get_mbr_partition_entry [OF assms(1,2), folded entry_at_def] assms(3) by simp
qed

lemma sector_words:
  assumes "a < 2 ^ 32" and "b < 2 ^ 32"
  shows "unat (ucast (of_nat a :: u32) * ucast (512 :: u32) :: u64) = a * 512"
    and "unat ((ucast (of_nat a :: u32) + ucast (of_nat b :: u32)) * ucast (512 :: u32) :: u64) = (a + b) * 512"
  using sector_product(1) [of 512 "of_nat a"] sector_product(3) [of 512 "of_nat a" "of_nat b"] assms unat_of_nat_u32 by simp_all

lemma sectors_fit:
  assumes "512 dvd a" and "512 dvd S" and "a + unat len \<le> S"
  shows "a + sectors len * 512 \<le> S"
proof -
  obtain x y where xy: "a = 512 * x" "S = 512 * y" using assms(1,2) by (auto elim!: dvdE)
  have "unat len \<le> 512 * (y - x)" using assms(3) xy by simp
  then have "sectors len \<le> y - x" unfolding sectors_def by (simp add: div_le_mono less_Suc_eq_le [symmetric] div_less_iff_less_mult)
  then show ?thesis using xy assms(3) by (cases "x \<le> y") simp_all
qed

lemma file_extent:
  assumes "mbr_layout s" and "i < length (the_files s)"
  shows "unat (r_start (file_region s i)) + sectors (r_len (file_region s i)) * 512 \<le> regions_size (the_regions s)"
    and "unat (r_start (file_region s i)) div 512 < 2 ^ 32" and "sectors (r_len (file_region s i)) < 2 ^ 32" and "0 < sectors (r_len (file_region s i))"
proof -
  note l = mbr_layout_ok [OF assms(1)] and f = file_region_ok [OF assms]
  show a: "unat (r_start (file_region s i)) + sectors (r_len (file_region s i)) * 512 \<le> regions_size (the_regions s)"
    by (rule sectors_fit) (use f l(5) in simp_all)
  show "unat (r_start (file_region s i)) div 512 < 2 ^ 32" using a l(2) by (simp add: div_less_iff_less_mult)
  show "sectors (r_len (file_region s i)) < 2 ^ 32" using a l(2) by simp
  show "0 < sectors (r_len (file_region s i))" using f(7) by (simp add: sectors_def div_greater_zero_iff)
qed

text \<open>A primary partition.\<close>

lemma find_primary:
  assumes "mbr_disk s table ebrs" and "i < length (the_files s)" and "length (the_files s) \<le> 4 \<or> i < 3" and "usual_id (f_mbr_id (the_files s ! i))"
  obtains off rng where "find_mbr_partition b (of_nat (i + 1)) 512 c dsz (table @ rest) = Some (Some (off, rng), c)"
    "off = r_start (file_region s i)" "unat rng = sectors (r_len (file_region s i)) * 512"
proof -
  note m = mbr_diskD [OF assms(1)]
  note f = file_region_ok [OF m(1) assms(2)] and x = file_extent [OF m(1) assms(2)]
  have i: "i < 4" using assms(2,3) by auto
  have "says_file s i (entry_at table i)" using m(2) assms(2,3) i by (auto simp: mbr_tables_def split: if_splits)
  then have p: "get_mbr_partition (table @ rest) i = \<lparr>part_type_byte = f_mbr_id (the_files s ! i),
      start_sector = of_nat (unat (r_start (file_region s i)) div 512), nr_sectors = of_nat (sectors (r_len (file_region s i)))\<rparr>"
    by (intro entry_partition [OF m(4) i]) (simp add: says_file_def sectors_def)
  let ?st = "of_nat (unat (r_start (file_region s i)) div 512) :: u32" let ?nr = "of_nat (sectors (r_len (file_region s i))) :: u32"
  have nr: "?nr > 0" using unat_of_nat_u32 [OF x(3)] x(4) by (simp add: word_gt_0 unat_gt_0 [symmetric])
  have "mbr_primary_loop (of_nat (i + 1)) 512 (table @ rest) [0..<4] = Some (Some (ucast ?st * ucast (512 :: u32), ucast ?nr * ucast (512 :: u32)))"
    by (rule mbr_primary_hit [OF _ _ p nr]) (use i assms(4) in \<open>auto simp: usual_id_def\<close>)
  moreover have "(of_nat (i + 1) :: u32) \<le> 4" using unat_of_nat_u32 [of "i + 1"] i by (simp add: word_le_nat_alt)
  moreover have "ucast ?st * ucast (512 :: u32) = r_start (file_region s i)"
    using sector_words(1) [OF x(2) x(2)] f(4) by (simp add: word_unat_eq_iff)
  ultimately show thesis
    using sector_words(1) [OF x(3) x(3)] by (intro that [OF _ refl]) (simp_all add: find_mbr_partition_def)
qed

text \<open>The extended partition, and the chain of extended boot records that leads to the partitions behind them.\<close>

definition extended :: "part_state \<Rightarrow> mbr_partition" where
  "extended s = \<lparr>part_type_byte = 0xf, start_sector = of_nat (unat (r_start (ebr_region s 3)) div 512),
     nr_sectors = of_nat ((regions_size (the_regions s) - unat (r_start (ebr_region s 3))) div 512)\<rparr>"

lemma ebr_says_partition:
  assumes "mbr_disk s table ebrs" and "4 < length (the_files s)" and "3 \<le> i" and "i < length (the_files s)"
  obtains rng where "ebr_partition 512 (extended s) (ebrs ! (i - 3)) (r_start (ebr_region s i)) = Some (r_start (file_region s i), rng)"
    "unat rng = sectors (r_len (file_region s i)) * 512"
proof -
  note m = mbr_diskD [OF assms(1)]
  have h: "has_ebr s i" "has_ebr s 3" and n3: "3 < length (the_files s)"
    using mbr_layout_ok(4) [OF m(1)] assms(2,3) by (simp_all add: has_ebr_def)
  note e = ebr_region_ok [OF m(1) assms(4) h(1)] and e3 = ebr_region_ok [OF m(1) n3 h(2)]
  note f = file_region_ok [OF m(1) assms(4)] and x = file_extent [OF m(1) assms(4)] and o = ebr_file_order(1) [OF m(1) assms(4) h(1)]
  let ?d = "(unat (r_start (file_region s i)) - unat (r_start (ebr_region s i))) div 512"
  let ?a = "unat (r_start (ebr_region s 3)) div 512" let ?b = "(regions_size (the_regions s) - unat (r_start (ebr_region s 3))) div 512"
  note se = read_ebr(2) [OF assms(1-4)]
  have p: "get_mbr_partition (ebrs ! (i - 3)) 0 = \<lparr>part_type_byte = f_mbr_id (the_files s ! i), start_sector = of_nat ?d,
      nr_sectors = of_nat (sectors (r_len (file_region s i)))\<rparr>"
    using entry_partition [of "ebrs ! (i - 3)" 0 _ _ _ "[]"] se by (simp add: says_ebr_def sectors_def)
  have d: "?d < 2 ^ 32" "?d * 512 = unat (r_start (file_region s i)) - unat (r_start (ebr_region s i))"
    using x(2) e(4) f(4) by (simp_all add: div_less_iff_less_mult)
  define off :: u64 where "off = r_start (ebr_region s i) + ucast (of_nat ?d :: u32) * ucast (512 :: u32)"
  define rng :: u64 where "rng = ucast (of_nat (sectors (r_len (file_region s i))) :: u32) * ucast (512 :: u32)"
  have off: "off = r_start (file_region s i)"
    using sector_words(1) [OF d(1) d(1)] d(2) o unat_u64_less [of "r_start (file_region s i)"]
    unfolding off_def word_unat_eq_iff by (simp add: unat_word_ariths(1))
  have rng: "unat rng = sectors (r_len (file_region s i)) * 512" unfolding rng_def by (rule sector_words(1) [OF x(3) x(3)])
  have ab: "?a < 2 ^ 32" "?b < 2 ^ 32" "(?a + ?b) * 512 = regions_size (the_regions s)"
    using e3(4-6) m(5,6) by (simp_all add: div_less_iff_less_mult distrib_right)
  have "unat (off + rng) = unat off + unat rng" using off rng x(1) m(5) by (simp add: unat_word_ariths(1))
  then have "\<not> off + rng > (ucast (start_sector (extended s)) + ucast (nr_sectors (extended s))) * ucast (512 :: u32)"
    using sector_words(2) [OF ab(1,2)] ab(3) off rng x(1) by (simp add: word_less_nat_alt extended_def)
  moreover have "\<not> off \<le> r_start (ebr_region s i)" using off o by (simp add: word_le_nat_alt)
  ultimately have "ebr_partition 512 (extended s) (ebrs ! (i - 3)) (r_start (ebr_region s i)) = Some (off, rng)"
    by (simp only: ebr_partition_def p Let_def mbr_partition.simps off_def [symmetric] rng_def [symmetric]) simp
  then show thesis using off rng by (intro that) simp_all
qed

lemma ebr_window:
  assumes "mbr_layout s" and "4 < length (the_files s)" and "3 \<le> i" and "i < length (the_files s)"
  shows "has_ebr s i" "512 \<le> unat (r_start (ebr_region s i))" "512 dvd unat (r_start (ebr_region s i))"
    "unat (r_start (ebr_region s i)) + 512 < regions_size (the_regions s)"
proof -
  show h: "has_ebr s i" using mbr_layout_ok(4) [OF assms(1)] assms(2,3) by (simp add: has_ebr_def)
  show d: "512 dvd unat (r_start (ebr_region s i))" by (rule ebr_region_ok(4) [OF assms(1,4) h])
  have "0 < unat (r_start (ebr_region s i))" using ebr_file_order(2) [OF assms(1,4) h, of 0] assms(3) by simp
  then show "512 \<le> unat (r_start (ebr_region s i))" using d by (simp add: dvd_imp_le)
  show "unat (r_start (ebr_region s i)) + 512 < regions_size (the_regions s)"
    using ebr_file_order(1) [OF assms(1,4) h] file_region_ok(5-7) [OF assms(1,4)] by simp
qed

lemma ebr_link:
  assumes "mbr_disk s table ebrs" and "4 < length (the_files s)" and "3 \<le> i" and "i + 1 < length (the_files s)"
  obtains p where "get_mbr_partition (ebrs ! (i - 3)) 1 = p" "nr_sectors p \<noteq> 0"
    "(ucast (start_sector (extended s)) + ucast (start_sector p)) * ucast (512 :: u32) = r_start (ebr_region s (i + 1))"
    "\<not> r_start (ebr_region s (i + 1)) \<le> r_start (ebr_region s i)"
proof -
  note m = mbr_diskD [OF assms(1)]
  have i: "i < length (the_files s)" "3 < length (the_files s)" "3 \<le> i + 1" using assms(2-4) by simp_all
  note w = ebr_window [OF m(1) assms(2) i(3) assms(4)] and w3 = ebr_window [OF m(1) assms(2) order.refl i(2)]
  let ?a = "unat (r_start (ebr_region s 3)) div 512"
  let ?b = "(unat (r_start (ebr_region s (i + 1))) - unat (r_start (ebr_region s 3))) div 512"
  obtain n where n: "0 < n" "n < 2 ^ 32" "mbr_entry (entry_at (ebrs ! (i - 3)) 1) 0xf ?b n" "length (ebrs ! (i - 3)) = 512"
    using read_ebr(2) [OF assms(1-3) i(1)] assms(4) by (auto simp: says_ebr_def)
  have p: "get_mbr_partition (ebrs ! (i - 3)) 1 = \<lparr>part_type_byte = 0xf, start_sector = of_nat ?b, nr_sectors = of_nat n\<rparr>"
    using entry_partition [OF n(4) _ n(3), of "[]"] by simp
  have nz: "(of_nat n :: u32) \<noteq> 0" using unat_of_nat_u32 [OF n(2)] n(1) by auto
  have ab: "?a < 2 ^ 32" "?b < 2 ^ 32" using w(4) w3(4) m(5) by (simp_all add: div_less_iff_less_mult)
  have "unat (r_start (ebr_region s 3)) \<le> unat (r_start (ebr_region s (i + 1)))"
    by (rule ebr_mono [OF m(1) i(3) assms(4) w3(1)])
  then have s: "(?a + ?b) * 512 = unat (r_start (ebr_region s (i + 1)))"
    using w(3) w3(3) by (simp add: distrib_right)
  have x: "(ucast (of_nat ?a :: u32) + ucast (of_nat ?b :: u32)) * ucast (512 :: u32) = r_start (ebr_region s (i + 1))"
    using sector_words(2) [OF ab] s by (simp only: word_unat_eq_iff)
  have "unat (r_start (ebr_region s i)) < unat (r_start (ebr_region s (i + 1)))"
    using ebr_file_order(2) [OF m(1) assms(4) w(1), of i] ebr_file_order(1) [OF m(1) i(1)] ebr_window(1) [OF m(1) assms(2,3) i(1)]
      file_region_ok(5,7) [OF m(1) i(1)] by simp
  then show thesis using nz x by (intro that [OF p]) (simp_all only: extended_def mbr_partition.simps word_le_nat_alt not_le simp_thms)
qed

lemma ebr_walk:
  assumes "mbr_disk s table ebrs" and "4 < length (the_files s)" and "3 \<le> i" and "i < length (the_files s)"
    and "quiet_part.ready sz d c" and "sz = regions_size (the_regions s)" and "d = part_content s"
  shows "ebr_loop (plugin_backend partitioning_plugin) partnum 512 (of_nat sz) ep c j (r_start (ebr_region s i)) =
    (if partnum = j then Some (ebr_partition 512 ep (ebrs ! (i - 3)) (r_start (ebr_region s i)), c)
     else let p = get_mbr_partition (ebrs ! (i - 3)) 1 in
       if start_sector p = 0 \<and> nr_sectors p = 0 then Some (None, c)
       else let next_ebr = (ucast (start_sector ep) + ucast (start_sector p)) * ucast (512 :: u32) in
         if next_ebr \<le> r_start (ebr_region s i) then Some (None, c)
         else ebr_loop (plugin_backend partitioning_plugin) partnum 512 (of_nat sz) ep c (j + 1) next_ebr)"
proof -
  note w = ebr_window [OF mbr_diskD(1) [OF assms(1)] assms(2-4)]
  have u: "unat (512 :: u32) = 512" "is_power_of_2 (512 :: u32)" by (simp_all add: is_power_of_2_def)
  have r: "disk_read d (unat (r_start (ebr_region s i))) 512 = ebrs ! (i - 3)" using read_ebr(1) [OF assms(1-4)] assms(7) by simp
  show ?thesis
    by (rule quiet_part.ebr_step [OF assms(5) u(2), of "r_start (ebr_region s i)", unfolded u(1) r]) (use w assms(6) in simp_all)
qed

lemma ebr_chain:
  assumes "mbr_disk s table ebrs" and "4 < length (the_files s)" and "t < length (the_files s)" and "t + 2 < 2 ^ 32"
    and "quiet_part.ready sz d c" and "sz = regions_size (the_regions s)" and "d = part_content s" and "3 \<le> i" and "i \<le> t"
  shows "ebr_loop (plugin_backend partitioning_plugin) (of_nat (t + 2)) 512 (of_nat sz) (extended s) c (of_nat (i + 2)) (r_start (ebr_region s i))
    = Some (ebr_partition 512 (extended s) (ebrs ! (t - 3)) (r_start (ebr_region s t)), c)"
  using assms(8,9)
proof (induction "t - i" arbitrary: i)
  case 0
  then have "i = t" by simp
  then show ?case using ebr_walk [OF assms(1,2) _ _ assms(5-7), of i] 0 assms(3) by simp
next
  case (Suc k)
  have i: "i < length (the_files s)" "i + 1 < length (the_files s)" "i + 1 \<le> t" "3 \<le> i + 1" "k = t - (i + 1)"
    using Suc.hyps(2) Suc.prems assms(3) by simp_all
  have ne: "(of_nat (t + 2) :: u32) \<noteq> of_nat (i + 2)" using unat_of_nat_u32 [of "t + 2"] unat_of_nat_u32 [of "i + 2"] i(3) assms(4) by force
  obtain p where p: "get_mbr_partition (ebrs ! (i - 3)) 1 = p" "nr_sectors p \<noteq> 0"
    "(ucast (start_sector (extended s)) + ucast (start_sector p)) * ucast (512 :: u32) = r_start (ebr_region s (i + 1))"
    "\<not> r_start (ebr_region s (i + 1)) \<le> r_start (ebr_region s i)"
    by (rule ebr_link [OF assms(1,2) Suc.prems(1) i(2)])
  have "ebr_loop (plugin_backend partitioning_plugin) (of_nat (t + 2)) 512 (of_nat sz) (extended s) c (of_nat (i + 2)) (r_start (ebr_region s i))
      = ebr_loop (plugin_backend partitioning_plugin) (of_nat (t + 2)) 512 (of_nat sz) (extended s) c (of_nat (i + 2) + 1) (r_start (ebr_region s (i + 1)))"
    using ebr_walk [OF assms(1,2) Suc.prems(1) i(1) assms(5-7)] p ne by (simp only: Let_def if_False simp_thms)
  also have "of_nat (i + 2) + 1 = (of_nat (i + 1 + 2) :: u32)" by simp
  finally show ?case using Suc.hyps(1) [OF i(5,4,3)] by simp
qed

text \<open>A logical partition.\<close>

lemma find_extended:
  assumes "mbr_disk s table ebrs" and "4 < length (the_files s)" and "\<forall>i < 3. usual_id (f_mbr_id (the_files s ! i))"
  shows "mbr_find_extended (table @ rest) [0..<4] = Some (extended s)"
    and "ucast (start_sector (extended s)) * ucast (512 :: u32) = r_start (ebr_region s 3)"
proof -
  note m = mbr_diskD [OF assms(1)]
  have n3: "3 < length (the_files s)" using assms(2) by simp
  note w = ebr_window [OF m(1) assms(2) order.refl n3]
  define N where "N = regions_size (the_regions s)"
  have N: "N \<le> 2 ^ 41 - 512" "512 dvd N" "unat (r_start (ebr_region s 3)) + 512 < N" using m(5,6) w(4) by (simp_all add: N_def)
  obtain x y where xy: "N = 512 * x" "unat (r_start (ebr_region s 3)) = 512 * y" using N(2) w(3) by (auto elim!: dvdE)
  have q: "(N - unat (r_start (ebr_region s 3)) + 511) div 512 = x - y" "(N - unat (r_start (ebr_region s 3))) div 512 = x - y"
    "0 < x - y" "x - y < 2 ^ 32" "unat (r_start (ebr_region s 3)) div 512 < 2 ^ 32"
    using xy N(1,3) by (simp_all add: diff_mult_distrib2 [symmetric])
  have "mbr_entry (entry_at table 3) 0xf (unat (r_start (ebr_region s 3)) div 512) (x - y)"
    using m(2) assms(2) q(1) by (simp add: mbr_tables_def N_def [symmetric])
  then have p3: "get_mbr_partition (table @ rest) 3 = extended s"
    using entry_partition [OF m(4)] q(2) by (simp add: extended_def N_def [symmetric])
  have "nr_sectors (extended s) = of_nat (x - y)" by (simp only: extended_def mbr_partition.simps N_def [symmetric] q(2))
  then have nz: "nr_sectors (extended s) > 0" using unat_of_nat_u32 [OF q(4)] q(3) by (simp only: word_less_nat_alt unat_0)
  have "\<not> is_extended (part_type_byte (get_mbr_partition (table @ rest) k))" if "k < 3" for k
  proof -
    have "says_file s k (entry_at table k)" using m(2) assms(2) that by (simp add: mbr_tables_def)
    then have "part_type_byte (get_mbr_partition (table @ rest) k) = f_mbr_id (the_files s ! k)"
      using entry_partition [OF m(4), of k _ _ _ rest] that by (simp add: says_file_def)
    then show ?thesis using assms(3) that by (simp add: usual_id_def)
  qed
  from this [of 0] this [of 1] this [of 2] show "mbr_find_extended (table @ rest) [0..<4] = Some (extended s)"
    using p3 nz by (simp add: upt_rec Let_def numeral_2_eq_2 [symmetric] numeral_3_eq_3 [symmetric]) (simp add: extended_def is_extended_def)
  show "ucast (start_sector (extended s)) * ucast (512 :: u32) = r_start (ebr_region s 3)"
    using sector_words(1) [OF q(5) q(5)] w(3) by (simp add: word_unat_eq_iff extended_def)
qed

lemma find_logical:
  assumes "mbr_disk s table ebrs" and "4 < length (the_files s)" and "3 \<le> i" and "i < length (the_files s)" and "i + 2 < 2 ^ 32"
    and "\<forall>i < 3. usual_id (f_mbr_id (the_files s ! i))" and "quiet_part.ready (regions_size (the_regions s)) (part_content s) c"
  obtains rng where "find_mbr_partition (plugin_backend partitioning_plugin) (of_nat (i + 2)) 512 c (of_nat (regions_size (the_regions s))) (table @ rest)
      = Some (Some (r_start (file_region s i), rng), c)" "unat rng = sectors (r_len (file_region s i)) * 512"
proof -
  obtain rng where r: "ebr_partition 512 (extended s) (ebrs ! (i - 3)) (r_start (ebr_region s i)) = Some (r_start (file_region s i), rng)"
    "unat rng = sectors (r_len (file_region s i)) * 512"
    by (rule ebr_says_partition [OF assms(1-4)])
  note e = find_extended [OF assms(1,2,6)]
  have "\<not> (of_nat (i + 2) :: u32) \<le> 4" using unat_of_nat_u32 [OF assms(5)] assms(3) by (simp add: word_le_nat_alt)
  moreover have "ebr_loop (plugin_backend partitioning_plugin) (of_nat (i + 2)) 512 (of_nat (regions_size (the_regions s))) (extended s) c
      (of_nat (3 + 2)) (r_start (ebr_region s 3)) = Some (Some (r_start (file_region s i), rng), c)"
    using ebr_chain [OF assms(1,2,4,5,7) refl refl order.refl assms(3)] r(1) by simp
  ultimately show thesis using e r(2) by (intro that) (simp_all add: find_mbr_partition_def)
qed

text \<open>The second sector is part of the padding, so the disk does not look like a GPT disk.\<close>

lemma layout_kinds:
  assumes "layout s rs len []" and "t \<in> set (types rs)"
  shows "t = region_data Primary \<or> (\<exists>k < length (the_files s). t = region_file k)
    \<or> (\<exists>k < length (the_files s). has_ebr s k \<and> t = region_data (Ebr (k - 3)))"
proof (cases t)
  case (region_data b)
  then show ?thesis
  proof (cases b)
    case (Ebr m)
    then have "m + 3 < length (the_files s)" "has_ebr s (m + 3)" using assms region_data by (auto simp: layout_def file_types_set)
    then show ?thesis using region_data Ebr by (intro disjI2) (auto intro!: exI [of _ "m + 3"])
  qed (use assms region_data in \<open>auto simp: layout_def file_types_set\<close>)
qed (use assms in \<open>auto simp: layout_def file_types_set\<close>)

lemma second_sector:
  assumes "mbr_disk s table ebrs" and "0 < length (the_files s)" and "1024 \<le> unat (f_alignment (the_files s ! 0))"
  shows "1024 \<le> unat (r_start (file_region s 0))" and "part_content s 512 = 0"
proof -
  note m = mbr_diskD [OF assms(1)] and l = mbr_layout_ok [OF m(1)]
  let ?n = "length (the_files s)"
  have z: "unat (r_start (the_regions s ! 0)) = 0" "unat (r_end (the_regions s ! 0)) = 511" "the_regions s \<noteq> []"
    using regions_from_nth [OF l(1), of 0] l(3) by (cases "the_regions s"; simp add: layout_def)+
  have "placed s (file_region s 0)" by (rule layout_region(3) [OF l(3) layout_types(1) [OF l(3) assms(2)]])
  then have al: "unat (f_alignment (the_files s ! 0)) dvd unat (r_start (file_region s 0))"
    using file_region_ok(2) [OF m(1) assms(2)] by (simp add: placed_def)
  have ne: "idx (the_regions s) (region_file 0) \<noteq> 0" using l(3) file_region_ok(2) [OF m(1) assms(2)] by (metis layout_def region_type.distinct(1))
  have "unat (r_end (the_regions s ! 0)) < unat (r_start (file_region s 0))"
    using regions_from_order(1) [OF l(1), of 0 "idx (the_regions s) (region_file 0)"] ne idx_found [OF layout_types(1) [OF l(3) assms(2)]]
    by (simp add: word_less_nat_alt)
  then show a: "1024 \<le> unat (r_start (file_region s 0))" using al assms(3) by (auto dest!: dvd_imp_le)
  have later: "1024 \<le> unat (r_start (file_region s k))" if "k < ?n" for k
  proof (cases "k = 0")
    case False
    then show ?thesis
      using a regions_from_order [OF l(1) layout_order(2) [OF l(3) that, of 0]] idx_found [OF layout_types(1) [OF l(3) that]]
      by (simp add: word_less_nat_alt word_le_nat_alt)
  qed (use a in simp)
  show "part_content s 512 = 0"
  proof (cases "region_at (the_regions s) 512")
    case (Some rg)
    then have rg: "rg \<in> set (the_regions s)" "unat (r_start rg) \<le> 512" "512 \<le> unat (r_end rg)"
      by (auto simp: region_at_def find_Some_iff in_set_conv_nth)
    have "r_type rg = region_zero"
    proof (rule ccontr)
      assume nz: "r_type rg \<noteq> region_zero"
      then have t: "r_type rg \<in> set (types (the_regions s))" by (rule types_member [OF rg(1)])
      note same = types_unique [OF layout_distinct [OF l(3)] rg(1) _ _ nz]
      consider "r_type rg = region_data Primary" | k where "k < ?n" "r_type rg = region_file k"
        | k where "k < ?n" "has_ebr s k" "r_type rg = region_data (Ebr (k - 3))"
        using layout_kinds [OF l(3) t] by blast
      then show False
      proof cases
        case 1 then show ?thesis using same [of "the_regions s ! 0"] rg(3) z l(3) by (simp add: layout_def)
      next
        case (2 k) then show ?thesis using same [of "file_region s k"] file_region_ok(1,2) [OF m(1)] later [of k] rg(2) by simp
      next
        case (3 k)
        then have "0 < k" by (simp add: has_ebr_def)
        with 3 show ?thesis
          using same [of "ebr_region s k"] ebr_region_ok(1,2) [OF m(1)] ebr_file_order(2) [OF m(1), of k 0] a file_region_ok(5,7) [OF m(1) assms(2)] rg(2)
          by simp
      qed
    qed
    with Some show ?thesis by (simp add: part_content_def region_byte_def)
  qed (simp add: part_content_def)
qed

lemma find_file_partition:
  assumes "mbr_disk s table ebrs" and "i < length (the_files s)" and "length (the_files s) + 2 < 2 ^ 32" and "1024 \<le> unat (f_alignment (the_files s ! 0))"
    and "\<forall>f \<in> set (the_files s). usual_id (f_mbr_id f)" and "quiet_part.ready (regions_size (the_regions s)) (part_content s) c"
  obtains rng where "find_partition (plugin_backend partitioning_plugin) (of_nat (partition_number (length (the_files s)) i)) 512 c
      (of_nat (regions_size (the_regions s))) (disk_read (part_content s) 0 1024) = Some ((Some (r_start (file_region s i), rng), Some MBR), c)"
    "unat rng = sectors (r_len (file_region s i)) * 512"
proof -
  note m = mbr_diskD [OF assms(1)]
  let ?n = "length (the_files s)" let ?b = "plugin_backend partitioning_plugin" let ?sz = "regions_size (the_regions s)"
  define rest where "rest = disk_read (part_content s) 512 512"
  have d: "disk_read (part_content s) 0 1024 = table @ rest"
    using disk_read_append [of "part_content s" 0 512 512] read_table [OF assms(1)] by (simp add: rest_def)
  have n0: "0 < ?n" using assms(2) by linarith
  have "rest ! 0 = 0" using second_sector(2) [OF assms(1) n0 assms(4)] by (simp add: rest_def disk_read_def)
  then have g: "take 8 rest \<noteq> GPT_SIGNATURE" by (auto simp: GPT_SIGNATURE_def dest!: arg_cong [where f = "\<lambda>xs. xs ! 0"])
  have "drop 0x1fe table = [0x55, 0xaa]" using m(2) by (simp add: mbr_tables_def)
  then have b: "(table @ rest) ! 0x1fe = 0x55" "(table @ rest) ! 0x1ff = 0xaa"
    using nth_drop [of "0x1fe" table 0] nth_drop [of "0x1fe" table 1] m(4) by (simp_all add: nth_append)
  have fp: "find_partition ?b k 512 c (of_nat ?sz) (table @ rest) = Some ((Some (off, rng), Some MBR), c)"
    if "find_mbr_partition ?b k 512 c (of_nat ?sz) (table @ rest) = Some (Some (off, rng), c)" for k off rng
    using that g b m(4) by (simp add: find_partition_def Let_def)
  show thesis
  proof (cases "?n \<le> 4 \<or> i < 3")
    case True
    have u: "usual_id (f_mbr_id (the_files s ! i))" using assms(2,5) by simp
    show thesis
      by (rule find_primary [OF assms(1,2) True u, of ?b c "of_nat ?sz" rest]) (use True fp d that in \<open>simp add: partition_number_def\<close>)
  next
    case False
    then have i: "4 < ?n" "3 \<le> i" "i + 2 < 2 ^ 32" using assms(2,3) by simp_all
    have u: "\<forall>i < 3. usual_id (f_mbr_id (the_files s ! i))" using assms(5) i(1) by simp
    show thesis
      by (rule find_logical [OF assms(1) i(1,2) assms(2) i(3) u assms(6), of rest]) (use False fp d that in \<open>simp add: partition_number_def\<close>)
  qed
qed

text \<open>A context that a client has just opened on the plugin in state \<open>s\<close>.\<close>

definition opened :: "'s \<Rightarrow> 's ctx \<Rightarrow> bool" where
  "opened s c \<longleftrightarrow> connected c \<and> exportsize c = - 1 \<and> priv (inner c) = s \<and> tl_errno (inner c) = 0 \<and> c_errno (inner c) = 0"

lemma few_files:
  assumes "total_room s \<le> 2 ^ 41 - 1024" and "files_ok s"
  shows "length (the_files s) + 2 < 2 ^ 32"
proof -
  have "length fs * 1024 \<le> (\<Sum>f\<leftarrow>fs. file_room f)" for fs by (induction fs) (simp_all add: file_room_def)
  from this [of "the_files s"] show ?thesis using assms(1) by (simp add: total_room_def)
qed

lemma created_mbr_disk:
  assumes "fresh s" and "the_parttype s = PARTTYPE_MBR" and "files_ok s" and "total_room s \<le> 2 ^ 41 - 1024"
    and "create_virtual_disk_layout s = Some s'"
  obtains table ebrs where "mbr_disk s' table ebrs" "the_files s' = the_files s" "os_files s' = os_files s" "io_script s' = io_script s"
proof -
  obtain s'' table ebrs where c: "create_virtual_disk_layout s = Some s''" "mbr_layout s''" "mbr_tables s'' table ebrs"
    "part_inv (regions_size (the_regions s'')) s''" "primary s'' = Some table" "4 < length (the_files s) \<longrightarrow> ebr s'' = Some ebrs"
    "the_files s'' = the_files s" "os_files s'' = os_files s" "io_script s'' = io_script s"
    by (rule create_mbr_disk [OF assms(1-4)])
  have "s'' = s'" using c(1) assms(5) by simp
  with c show thesis by (intro that [of table ebrs]) (simp_all add: mbr_disk_def)
qed

lemma read_file:
  assumes "mbr_disk s table ebrs" and "i < length (the_files s)" and "0 < n" and "o' + n \<le> unat (f_size (the_files s ! i))"
  shows "disk_read (part_content s) (o' + unat (r_start (file_region s i))) n = take n (drop o' (os_files s ! f_fd (the_files s ! i)))"
proof -
  note m = mbr_diskD [OF assms(1)]
  note f = file_region_ok [OF m(1) assms(2)]
  show ?thesis
    using read_region [OF m(3) f(1), of "o' + unat (r_start (file_region s i))" n] f(2,3,5) assms(3,4) by (simp add: region_bytes_def)
qed

lemma read_through:
  assumes "mbr_disk s table ebrs" and "i < length (the_files s)" and "quiet_part.ready (regions_size (the_regions s)) (part_content s) c"
    and "0 < unat count" and "unat offs + unat count \<le> unat (f_size (the_files s ! i))"
  shows "backend_pread (plugin_backend partitioning_plugin) c count (offs + r_start (file_region s i)) 0 err
    = Some (0, take (unat count) (drop (unat offs) (os_files s ! f_fd (the_files s ! i))), err, c)"
proof -
  note m = mbr_diskD [OF assms(1)]
  note f = file_region_ok [OF m(1) assms(2)]
  let ?off = "r_start (file_region s i)" let ?sz = "regions_size (the_regions s)"
  have "unat (offs + ?off) = unat offs + unat ?off" "unat offs + unat ?off + unat count \<le> ?sz"
    using assms(4,5) f(3,5,6) m(5) by (simp_all add: unat_word_ariths)
  then show ?thesis
    using quiet_part.read [of ?sz "part_content s" c count "offs + ?off" err] assms(3,4) read_file [OF assms(1,2,4,5)]
    by (simp add: quiet_part.ready_def)
qed

lemma large_disk:
  assumes "mbr_disk s table ebrs" and "0 < length (the_files s)" and "1024 \<le> unat (f_alignment (the_files s ! 0))"
  shows "1024 \<le> regions_size (the_regions s)"
  using second_sector(1) [OF assms] file_region_ok(5-7) [OF mbr_diskD(1) [OF assms(1)] assms(2)] by simp

text \<open>C11: The filter understands the tables that the plugin writes.  For files behind an MBR disk, with partition types that do not
  name a container and a first partition that does not start in the second sector, the partition filter with the number of the
  partition of the file \<open>i\<close> finds it, primary or logical, and then every read inside the file through the filter returns the
  bytes of the file.
\<close>

theorem mbr_partition_serves_file:
  assumes "fresh s" and "the_parttype s = PARTTYPE_MBR" and "files_ok s" and "total_room s \<le> 2 ^ 41 - 1024" and "io_script s = []"
    and "\<forall>f \<in> set (the_files s). usual_id (f_mbr_id f)" and "1024 \<le> unat (f_alignment (the_files s ! 0))"
    and "create_virtual_disk_layout s = Some s'" and "opened s' c" and "i < length (the_files s)"
  shows "\<exists>h c'. partition_prepare (plugin_backend partitioning_plugin) (of_nat (partition_number (length (the_files s)) i)) 512 partition_open c
      = Some (0, h, 512, c') \<and> unat (partition_get_size h) = sectors (f_size (the_files s ! i)) * 512
    \<and> (\<forall>count offs err. 0 < unat count \<and> unat offs + unat count \<le> unat (f_size (the_files s ! i)) \<longrightarrow>
      partition_pread (plugin_backend partitioning_plugin) h c' count offs 0 err
        = Some (0, take (unat count) (drop (unat offs) (os_files s ! f_fd (the_files s ! i))), err, c'))"
proof -
  obtain table ebrs where d: "mbr_disk s' table ebrs" "the_files s' = the_files s" "os_files s' = os_files s" "io_script s' = io_script s"
    by (rule created_mbr_disk [OF assms(1-4,8)])
  note m = mbr_diskD [OF d(1)]
  have i: "i < length (the_files s')" using assms(10) d(2) by simp
  note f = file_region_ok [OF m(1) i] and x = file_extent [OF m(1) i]
  let ?b = "plugin_backend partitioning_plugin" let ?sz = "regions_size (the_regions s')" let ?d = "part_content s'"
  let ?ok = "quiet ?sz (\<lambda>w. world_ok (part_inv ?sz) w \<and> io_script (priv w) = [] \<and> part_content (priv w) = ?d)"
  let ?off = "r_start (file_region s' i)"
  have c: "?ok c" using assms(5,9) m(3) d(4) by (auto simp: quiet_def opened_def world_ok_def)
  define rng :: u64 where "rng = of_nat (sectors (r_len (file_region s' i)) * 512)"
  have rng: "unat rng = sectors (r_len (file_region s' i)) * 512" 
    unfolding rng_def using x(1) m(5) by (subst unat_of_nat) simp
  have fp: "find_partition ?b (of_nat (partition_number (length (the_files s)) i)) 512 c' (of_nat ?sz) (disk_read ?d 0 1024)
      = Some ((Some (?off, rng), Some MBR), c')" if "quiet_part.ready ?sz ?d c'" for c'
  proof -
    have "length (the_files s') + 2 < 2 ^ 32" using few_files [OF assms(4,3)] d(2) by simp
    from find_file_partition [OF d(1) i this _ _ that] show ?thesis
      using assms(6,7) d(2) rng by (metis word_unat_eq_iff)
  qed
  have "1024 \<le> ?sz" using large_disk [OF d(1) order.strict_trans1 [OF le0 i]] assms(7) d(2) by simp
  then obtain c' where c': "quiet_part.ready ?sz ?d c'" "partition_prepare ?b (of_nat (partition_number (length (the_files s)) i)) 512 partition_open c
      = Some (0, partition_open\<lparr>h_type := Some MBR, h_offset := ?off, h_range := rng\<rparr>, 512, c')"
    using quiet_part.partition_prepare_found [OF c _ _ fp] x(1) rng by auto
  have "backend_pread ?b c' count (offs + ?off) 0 err = Some (0, take (unat count) (drop (unat offs) (os_files s ! f_fd (the_files s ! i))), err, c')"
    if "0 < unat count" "unat offs + unat count \<le> unat (f_size (the_files s ! i))" for count offs err
    using read_through [OF d(1) i c'(1), of count offs err] that d(2,3) by simp
  then show ?thesis using c'(2) rng f(3) d(2) by (simp add: partition_pread_def partition_get_size_def)
qed

text \<open>C15: The plugin can always set up an MBR disk: if the files exist, are not empty, have alignments that are powers of two from a
  sector up, and all fit below two terabytes, no assertion fails, the regions cover the disk without gaps or overlaps, and every
  file is a region of its own, of its length and at its alignment.\<close>

theorem mbr_disk_created:
  assumes "fresh s" and "the_parttype s = PARTTYPE_MBR" and "files_ok s" and "total_room s \<le> 2 ^ 41 - 1024"
  shows "\<exists>s'. create_virtual_disk_layout s = Some s' \<and> part_inv (regions_size (the_regions s')) s'
    \<and> (\<forall>i < length (the_files s). \<exists>rg \<in> set (the_regions s'). r_type rg = region_file i \<and> r_len rg = f_size (the_files s ! i)
      \<and> unat (f_alignment (the_files s ! i)) dvd unat (r_start rg))"
proof -
  obtain s' table ebrs where c: "create_virtual_disk_layout s = Some s'" "mbr_layout s'" "part_inv (regions_size (the_regions s')) s'"
    "the_files s' = the_files s"
    by (rule create_mbr_disk [OF assms])
  note l = mbr_layout_ok(3) [OF c(2)]
  have "\<exists>rg \<in> set (the_regions s'). r_type rg = region_file i \<and> r_len rg = f_size (the_files s ! i)
      \<and> unat (f_alignment (the_files s ! i)) dvd unat (r_start rg)" if "i < length (the_files s)" for i
    using layout_region [OF l layout_types(1) [OF l, of i]] that c(4) by (auto simp: placed_def intro!: bexI [of _ "file_region s' i"])
  then show ?thesis using c(1,3) by blast
qed

subsection \<open>A small disk with an extended partition\<close>

definition sample_file :: "nat \<Rightarrow> part_file" where
  "sample_file k = \<lparr>f_filename = [], f_fd = k, f_size = 3, f_guid = zeroes 16, f_alignment = 2048, f_mbr_id = 0x83,
     f_type_guid = zeroes 16\<rparr>"

definition sample_parts :: part_state where
  "sample_parts = \<lparr>the_files = map sample_file [0, 1, 2, 3, 4], the_parttype = PARTTYPE_MBR, the_regions = [], primary = None,
     secondary = None, ebr = None, os_files = [[1, 2, 3], [4, 5, 6], [7, 8, 9], [10, 11, 12], [13, 14, 15]], io_script = []\<rparr>"

lemma sample_parts_ok:
  "fresh sample_parts" "the_parttype sample_parts = PARTTYPE_MBR" "files_ok sample_parts" "total_room sample_parts \<le> 2 ^ 41 - 1024"
  "io_script sample_parts = []" "\<forall>f \<in> set (the_files sample_parts). usual_id (f_mbr_id f)"
  "1024 \<le> unat (f_alignment (the_files sample_parts ! 0))" "4 < length (the_files sample_parts)"
  by (simp_all add: sample_parts_def sample_file_def fresh_def files_ok_def good_file_def is_power_of_2_def script_ok_def total_room_def
      file_room_def usual_id_def is_extended_def)

theorem mbr_disk_created_witness:
  "\<exists>s'. create_virtual_disk_layout sample_parts = Some s' \<and> part_inv (regions_size (the_regions s')) s'
    \<and> (\<exists>rg \<in> set (the_regions s'). r_type rg = region_file 4 \<and> r_len rg = 3 \<and> 2048 dvd unat (r_start rg))"
proof -
  obtain s' where s': "create_virtual_disk_layout sample_parts = Some s'" "part_inv (regions_size (the_regions s')) s'"
    "\<forall>i < length (the_files sample_parts). \<exists>rg \<in> set (the_regions s'). r_type rg = region_file i \<and> r_len rg = f_size (the_files sample_parts ! i)
      \<and> unat (f_alignment (the_files sample_parts ! i)) dvd unat (r_start rg)"
    using mbr_disk_created [OF sample_parts_ok(1-4)] by blast
  have "the_files sample_parts ! 4 = sample_file 4" by (simp add: sample_parts_def)
  with s'(3) sample_parts_ok(8) have "\<exists>rg \<in> set (the_regions s'). r_type rg = region_file 4 \<and> r_len rg = 3 \<and> 2048 dvd unat (r_start rg)"
    by (auto simp: sample_file_def dest!: spec [of _ 4])
  with s'(1,2) show ?thesis by blast
qed

definition sample_opened :: "'s \<Rightarrow> 's ctx" where
  "sample_opened s = (new_context False \<lparr>conn_exportname = None, tl_errno = 0, c_errno = 0, priv = s\<rparr>)
     \<lparr>handle := True, c_state := HANDLE_OPEN OR HANDLE_CONNECTED\<rparr>"

lemma sample_opened_ok: "opened s (sample_opened s)"
  by (simp add: opened_def sample_opened_def new_context_def connected_def)

theorem mbr_partition_serves_file_witness:
  "\<exists>s' h c'. create_virtual_disk_layout sample_parts = Some s'
    \<and> partition_prepare (plugin_backend partitioning_plugin) 6 512 partition_open (sample_opened s') = Some (0, h, 512, c')
    \<and> partition_pread (plugin_backend partitioning_plugin) h c' 2 1 0 0 = Some (0, [14, 15], 0, c')"
proof -
  obtain s' where s': "create_virtual_disk_layout sample_parts = Some s'"
    using create_mbr_disk [OF sample_parts_ok(1-4)] by blast
  have n: "of_nat (partition_number (length (the_files sample_parts)) 4) = (6 :: u32)" "f_size (the_files sample_parts ! 4) = 3"
    "os_files sample_parts ! f_fd (the_files sample_parts ! 4) = [13, 14, 15]"
    by (simp_all add: sample_parts_def partition_number_def sample_file_def)
  obtain h c' where "partition_prepare (plugin_backend partitioning_plugin) 6 512 partition_open (sample_opened s') = Some (0, h, 512, c')"
    "\<forall>count offs err. 0 < unat count \<and> unat offs + unat count \<le> 3 \<longrightarrow>
      partition_pread (plugin_backend partitioning_plugin) h c' count offs 0 err
        = Some (0, take (unat count) (drop (unat offs) [13, 14, 15]), err, c')"
    using mbr_partition_serves_file [OF sample_parts_ok(1-7) s' sample_opened_ok sample_parts_ok(8), unfolded n] by auto
  with s' show ?thesis by fastforce
qed

end
