(* ===== verification/Spec2Isabelle.thy ===== *)
theory Spec2Isabelle
  imports Sparse Locks Bitmap PartitionStack
begin

text \<open>
  A model of nbdkit, a server of the Network Block Device protocol written in C, and of parts of it that a client's
  bytes pass through on their way to the disk and back.

  \<^bold>\<open>The program.\<close>  A connection arrives at \<^verbatim>\<open>server/connections.c\<close>, which runs the handshake
  (\<^verbatim>\<open>server/protocol-handshake*.c\<close>) and then a loop of requests (\<^verbatim>\<open>server/protocol.c\<close>).  Both call
  the top backend through the checked wrappers of \<^verbatim>\<open>server/backend.c\<close>.  A backend is a filter, which calls the backend
  below it through the same wrappers, or a plugin, called by \<^verbatim>\<open>server/plugins.c\<close>.  Three storage stacks are modelled
  below that interface: the memory plugin over the malloc allocator, the memory plugin over the sparse array, and the
  partitioning plugin, which makes one disk of partition tables, files and padding.  The partition filter is modelled on top
  of any of them.  All paths in this text are under \<^verbatim>\<open>src\<close>.

  \<^bold>\<open>Conventions.\<close>  A struct is a record and an enum a datatype; unsigned integers are words, so that they wrap; return
  codes and error numbers are integers.  A function that may abort (a failed assertion, \<^verbatim>\<open>abort\<close>) has an option
  type, and \<^term>\<open>None\<close> is the abort: to return \<^term>\<open>Some x\<close> is to run without one.  State is passed explicitly: the
  connection's backend context is the record \<^typ>\<open>'s ctx\<close> (\<^verbatim>\<open>struct context\<close>), around a world \<^typ>\<open>'s world\<close> of
  thread-local values (\<^verbatim>\<open>errno\<close>, the error set by \<^verbatim>\<open>nbdkit_set_error\<close>) and the plugin's private state.  The socket is
  a script of results of \<^verbatim>\<open>recv\<close> and \<^verbatim>\<open>send\<close>, with short transfers, interruptions and errors; the files behind the
  partitioning plugin have a script of results of system calls in the same way.  A theorem that holds for all scripts
  holds for every behaviour of the other side.

  \<^bold>\<open>The theories\<close>, in the order of the code from the bottom up.

  \<^item> \<open>Prelude\<close>: word types, the option monad of aborts, error numbers, flags, byte order, and the reference disk
    (\<open>disk_read\<close>, \<open>disk_write\<close>, \<open>same_outside\<close>) that the refinement theorems speak about.
  \<^item> \<open>Common\<close>: the arithmetic of \<^verbatim>\<open>common/include\<close> (powers of two, rounding, alignment, checked overflow, zero
    buffers), each against its mathematical meaning.
  \<^item> \<open>Extents\<close>, \<open>Exports\<close>: the lists of \<^verbatim>\<open>server/extents.c\<close> and \<^verbatim>\<open>server/exports.c\<close>; adding an extent refines an
    update of a function from bytes to block status.
  \<^item> \<open>Backend\<close>: \<^verbatim>\<open>server/backend.c\<close>.  The locale \<open>disk_backend\<close> is the contract of the data calls with a disk.
  \<^item> \<open>NbdProtocol\<close>, \<open>Connections\<close>: the packed structures of the wire, and \<^verbatim>\<open>server/connections.c\<close> with its loops
    over partial transfers and its status machine.
  \<^item> \<open>Plugins\<close>: \<^verbatim>\<open>server/plugins.c\<close>, with the emulation of zeroing and of forced unit access, and both versions of
    the plugin interface.  The locale \<open>disk_plugin\<close> is the contract of a plugin's data callbacks; every such plugin is a
    \<open>disk_backend\<close> (a sublocale).
  \<^item> \<open>Protocol\<close>: validation, execution and replies of requests, \<^verbatim>\<open>server/protocol.c\<close>, proved once in \<open>disk_backend\<close>.
  \<^item> \<open>Vector\<close>, \<open>Allocators\<close>, \<open>Sparse\<close>, \<open>Memory\<close>: \<^verbatim>\<open>common/utils/vector.*\<close>, \<^verbatim>\<open>common/allocators/malloc.c\<close> and
    \<^verbatim>\<open>sparse.c\<close>, and \<^verbatim>\<open>plugins/memory/memory.c\<close>.  The locale \<open>allocator\<close> is what the plugin relies on, interpreted on
    both allocators; over any allocator the plugin is a \<open>disk_plugin\<close>.
  \<^item> \<open>Handshake\<close>, \<open>Negotiation\<close>: the oldstyle and newstyle handshakes with all their options.  The locale
    \<open>export_server\<close> is the contract of opening, describing and closing an export.
  \<^item> \<open>Server\<close>: \<^verbatim>\<open>handle_single_connection\<close> as a whole, in the locale \<open>disk_server\<close>, which joins \<open>export_server\<close> and
    \<open>disk_backend\<close>.
  \<^item> \<open>Locks\<close>: \<^verbatim>\<open>server/locks.c\<close>, with any number of threads interleaved one pthread call at a time.
  \<^item> \<open>Bitmap\<close>, \<open>Regions\<close>, \<open>Gpt\<close>, \<open>Crc\<close>: \<^verbatim>\<open>common/bitmap\<close>, \<^verbatim>\<open>common/regions\<close> and \<^verbatim>\<open>common/gpt\<close>.
  \<^item> \<open>Partitioning\<close>, \<open>PartitionTables\<close>: \<^verbatim>\<open>plugins/partitioning\<close>, first the callbacks over given regions (a
    \<open>disk_plugin\<close>), then the layout of the disk and the MBR, extended boot records and GPT.
  \<^item> \<open>PartitionFilter\<close>, \<open>PartitionStack\<close>: \<^verbatim>\<open>filters/partition\<close>.  The locale \<open>quiet_backend\<close> is a layer below whose
    reads succeed, interpreted on the memory plugin over every allocator and on the partitioning plugin.

  \<^bold>\<open>What the theorems show.\<close>

  \<^item> No client can stop the server: a whole connection ends without an abort and leaves the export closed and the
    plugin's state well formed, for all three storage stacks.  For the sparse array the disk must be smaller than 4 GiB, and
    this is needed: it reports extents longer than 32 bits can say, and a block status request then reaches an assertion.  The
    other two stacks report no extent longer than the request (the parameter \<open>short\<close> of the contracts), so there the
    size does not matter.
  \<^item> Requests do what they say: execution refines an abstract disk, on the memory plugin and on the partitioning
    plugin, and a read after a write returns what was written, replies
    included.
  \<^item> With TLS required nothing reaches a backend before TLS is on, and the flags sent to the client are exactly the
    capabilities of the open export, bit by bit.
  \<^item> What one part of nbdkit writes another reads: the partition filter finds, in the partition tables that the
    partitioning plugin makes up, the partition of each file and serves the bytes of the file; on
    arbitrary disk contents the filter does not abort.
  \<^item> Data structures implement their abstract counterparts: sparse array, extents, bitmaps, regions, checksum, and
    the arithmetic headers.
  \<^item> The thread models exclude what they promise, without deadlock.  Of the errors of pthread calls only an unlock without
    the lock is described.

  \<^bold>\<open>Loops.\<close>  There is no fuel.  Loops over counts, lists and chains are functions with a measure; the chain of extended
  boot records ends because their addresses increase.  The loops over options and over requests and the transfer loops of the
  partitioning plugin are partial functions whose termination is part of the theorems, by the length of the scripts: a
  script is finite, so a socket or a file that makes no progress for ever is not described.  The loop that completes extents
  to aligned ones is a partial function too, and nothing is claimed of it.

  \<^bold>\<open>Not modelled.\<close>  Memory allocation succeeds, except in the malloc allocator and the bitmaps, where it is a parameter.
  TLS (GnuTLS) is a parameter of the handshake.  Requests of one connection are processed in order, as with one thread; the
  worker threads appear in \<open>Locks\<close> only.  Left out, because they have no effect on the values above or consist of system calls:
  the start of the server, command line, sockets, signals and logging (\<^verbatim>\<open>server/main.c\<close> and the files it calls), loading of
  modules, and parsing of parameters.  \<^verbatim>\<open>server/filters.c\<close>, which adapts the calls of one filter to the next, is left
  out: the partition filter is composed with the backend functions its \<^verbatim>\<open>next\<close> pointer holds, not yet with a whole connection.
  Of the GPT the tables are defined and the search is proved safe, but the round trip is proved for the MBR only.  The
  zstd allocator and the other plugins and filters depend on further libraries, interpreters, threads or timing.
\<close>


subsection \<open>A small disk\<close>

text \<open>A memory disk of four bytes on the malloc allocator, opened by a client, for concrete instances.\<close>

definition sample_sys :: sys where
  "sample_sys = \<lparr>alloc_ok = (\<lambda>_. True), junk = (\<lambda>_. 0xff), pagesize = 4096, mlock_ok = True\<rparr>"

definition sample_world :: "m_alloc world" where
  "sample_world = \<lparr>conn_exportname = None, tl_errno = 0, c_errno = 0,
     priv = \<lparr>ma_use_mlock = False, ba = [0, 0, 0, 0]\<rparr>\<rparr>"

definition sample_ctx :: "m_alloc ctx" where
  "sample_ctx = (new_context False sample_world)\<lparr>handle := True, c_state := HANDLE_OPEN OR HANDLE_CONNECTED,
     exportsize := 4, c_can_write := 1, c_can_flush := 1, c_is_rotational := 0, c_can_trim := 1, c_can_zero := 2,
     c_can_fast_zero := 1, c_can_fua := 2, c_can_multi_conn := 1, c_can_extents := 1, c_can_cache := 2\<rparr>"

definition sample_conn :: "Connections.read_result list \<Rightarrow> m_alloc connection" where
  "sample_conn input = (new_connection 0 input [])\<lparr>top_context := Some sample_ctx, handshake_complete := True,
     eflags := NBD_FLAG_HAS_FLAGS OR NBD_FLAG_SEND_FLUSH OR NBD_FLAG_SEND_FUA OR NBD_FLAG_SEND_TRIM
       OR NBD_FLAG_SEND_WRITE_ZEROES OR NBD_FLAG_SEND_CACHE OR NBD_FLAG_SEND_FAST_ZERO\<rparr>"

lemma sample_world_ok: "closed_ok (m_inv 4) sample_world" "world_ok (m_inv 4) sample_world"
  by (simp_all add: closed_ok_def world_ok_def m_inv_def sample_world_def)

lemma sample_negotiated: "negotiated 4 sample_ctx"
  by (simp add: negotiated_def connected_def sample_ctx_def new_context_def has_def)

lemma sample_advertised: "advertised (sample_conn input) sample_ctx"
  by (simp add: advertised_def sample_conn_def sample_ctx_def new_context_def flag_simps has_def)

lemma sample_session: "session_ok (world_ok (m_inv 4)) 4 True True (sample_conn input)"
  using sample_negotiated sample_advertised [of input] sample_world_ok(2)
  by (simp add: session_ok_def sample_conn_def) (simp add: sample_ctx_def new_context_def new_connection_def)

text \<open>Settings that require TLS, and a client that starts it and then opens the default export.\<close>

definition sample_settings :: "m_alloc server" where
  "sample_settings = \<lparr>top = plugin_backend (memory_plugin (malloc_functions sample_sys) 4), close_next = None,
     prepare_next = None, finalize_next = None, close_rest = None, forget_exportnames = (\<lambda>w. w),
     preconnect = (\<lambda>_ w. Some (0, w)), read_only = False, tls = 2, newstyle = True, no_sr = False, no_mc = False,
     mask_handshake = - 1, thread_model = 3, have_gnutls = True, last_error = (\<lambda>_. None),
     crypto_negotiate_tls = (\<lambda>t. (0, t))\<rparr>"

abbreviation (input) sample_server :: "m_alloc server" where
  "sample_server \<equiv> memory_server (malloc_functions sample_sys) 4 sample_settings"

definition sample_hello :: "m_alloc connection" where
  "sample_hello = new_connection 0 [Rd (be32 3
     @ enc_new_option \<lparr>no_version = NBD_NEW_VERSION, no_option = NBD_OPT_STARTTLS, no_optlen = 0\<rparr>
     @ enc_new_option \<lparr>no_version = NBD_NEW_VERSION, no_option = NBD_OPT_EXPORT_NAME, no_optlen = 0\<rparr>)] []"

declare negotiate_handshake_newstyle_options.simps [code]

lemma sample_handshake:
  obtains w conn where "protocol_handshake_newstyle sample_server sample_world sample_hello = Some (0, w, conn)"
proof -
  have "case protocol_handshake_newstyle sample_server sample_world sample_hello of None \<Rightarrow> False | Some (r, w, conn) \<Rightarrow> r = 0"
    by code_simp
  then show ?thesis using that by (auto split: option.splits)
qed

definition sample_write :: nbd_request where
  "sample_write = \<lparr>rq_magic = NBD_REQUEST_MAGIC, rq_flags = 0, rq_type = NBD_CMD_WRITE, rq_cookie = 1, rq_offset = 1, rq_count = 2\<rparr>"

definition sample_read :: nbd_request where
  "sample_read = sample_write\<lparr>rq_type := NBD_CMD_READ, rq_cookie := 2\<rparr>"

definition sample_input :: "Connections.read_result list" where
  "sample_input = [Rd (enc_request sample_write @ [7, 8] @ enc_request sample_read)]"

lemma sample_valid:
  "validate_request (sample_conn input) sample_ctx (rq_type sample_write) (rq_flags sample_write) (rq_offset sample_write)
     (rq_count sample_write) = Some None"
  "validate_request (sample_conn input) sample_ctx (rq_type sample_read) (rq_flags sample_read) (rq_offset sample_read)
     (rq_count sample_read) = Some None"
  by (simp_all add: sample_read_def sample_write_def validate_request_def validate_range_def validate_flags_def
      validate_allowed_def backend_valid_range_def sample_conn_def sample_ctx_def new_context_def flag_simps has_def)

subsection \<open>Properties\<close>

text \<open>C1: A newstyle server with the memory plugin over the malloc allocator, with a disk of any size, handles a whole connection,
  from the handshake to the close, for every finite sequence of bytes, packets, interruptions and errors on
  the socket: it never aborts, it always ends, and afterwards the export is closed and the plugin's invariant
  holds.\<close>

theorem connection_never_aborts:
  assumes "closed_ok (m_inv dsize) w"
  shows "\<exists>w' out. handle_single_connection (memory_server (malloc_functions sys) dsize srv) False input ws w
      = Some (w', out) \<and> closed_ok (m_inv dsize) w'"
  using malloc_alloc.ds.handle_single_connection_ok [OF assms] by simp

theorem connection_never_aborts_witness:
  "\<exists>w' out. handle_single_connection sample_server False
      [Rd [0, 0], RdIntr, Rd [0, 3, 0x49], RdErr] [Wr 3, WrIntr] sample_world = Some (w', out) \<and> closed_ok (m_inv 4) w'"
  by (rule connection_never_aborts [OF sample_world_ok(1)])

text \<open>C10: A connection to a newstyle server with the memory plugin over the sparse allocator always ends, never aborts, and
  leaves the export closed and the two-level directory well formed, for every finite input, if the disk is smaller than
  4 GiB.  On a larger one the sparse array can report an extent of 4 GiB, and a block status request of
  \<open>2 ^ 32 - 1\<close> bytes then fails the assertion in \<^verbatim>\<open>extents_to_block_descriptors\<close>.\<close>

theorem sparse_connection_never_aborts:
  assumes "closed_ok (s_inv dsize) w" and "unat dsize < 2 ^ 32"
  shows "\<exists>w' out. handle_single_connection (memory_server sparse_functions dsize srv) False input ws w
      = Some (w', out) \<and> closed_ok (s_inv dsize) w'"
  using sparse_alloc.ds.handle_single_connection_ok [OF assms(1)] assms(2) by simp

definition sample_sparse_world :: "sparse_array world" where
  "sample_sparse_world = \<lparr>conn_exportname = None, tl_errno = 0, c_errno = 0, priv = sparse_array_create\<rparr>"

definition sample_sparse_settings :: "sparse_array server" where
  "sample_sparse_settings = \<lparr>top = plugin_backend (memory_plugin sparse_functions 65536), close_next = None,
     prepare_next = None, finalize_next = None, close_rest = None, forget_exportnames = (\<lambda>w. w),
     preconnect = (\<lambda>_ w. Some (0, w)), read_only = False, tls = 0, newstyle = True, no_sr = False, no_mc = False,
     mask_handshake = - 1, thread_model = 3, have_gnutls = True, last_error = (\<lambda>_. None),
     crypto_negotiate_tls = (\<lambda>t. (0, t))\<rparr>"

theorem sparse_connection_never_aborts_witness:
  "\<exists>w' out. handle_single_connection (memory_server sparse_functions 65536 sample_sparse_settings) False
      [Rd [0, 0], RdIntr, Rd [0, 3, 0x49], RdErr] [Wr 3, WrIntr] sample_sparse_world = Some (w', out)
      \<and> closed_ok (s_inv 65536) w'"
proof (rule sparse_connection_never_aborts)
  show "closed_ok (s_inv 65536) sample_sparse_world"
    using sparse_array_create_ok(1) [of 65536] by (simp add: closed_ok_def world_ok_def sample_sparse_world_def)
qed simp

text \<open>C3: On the memory plugin over the malloc allocator, a write request followed by a read request for
  the same range, whatever follows them, are both answered, and if both report success the read returns the bytes written.
  The connection is one as the handshake leaves it (\<^const>\<open>session_ok\<close>): open, with flags that agree with the capabilities, and
  with fast zeroes offered whenever zeroes are.\<close>

theorem write_then_read:
  assumes "session_ok (world_ok (m_inv dsize)) (unat dsize) True True conn" and "ready conn" and "top_context conn = Some c"
    and "stream (sockin conn) = enc_request wr @ data @ enc_request rd @ rest"
    and "rq_type wr = NBD_CMD_WRITE" and "rq_magic wr = NBD_REQUEST_MAGIC" and "length data = unat (rq_count wr)"
    and "rq_type rd = NBD_CMD_READ" and "rq_magic rd = NBD_REQUEST_MAGIC"
    and "rq_offset rd = rq_offset wr" and "rq_count rd = rq_count wr"
    and "validate_request conn c (rq_type wr) (rq_flags wr) (rq_offset wr) (rq_count wr) = Some None"
    and "validate_request conn c (rq_type rd) (rq_flags rd) (rq_offset rd) (rq_count rd) = Some None"
  shows "\<exists>conn' e1 d1 e2 d2. two_rounds (plugin_backend (memory_plugin (malloc_functions sys) dsize)) conn = Some conn'
    \<and> stream (sockin conn') = rest
    \<and> sockout conn' = sockout conn @ reply_bytes (structured_replies conn) wr e1 d1
        @ reply_bytes (structured_replies conn) rd e2 d2
    \<and> (e1 = 0 \<and> e2 = 0 \<longrightarrow> d2 = data)"
  using malloc_alloc.mem.pb.two_rounds_ok [OF _ assms(2-)] assms(1) by simp

theorem write_then_read_witness:
  "\<exists>conn'. two_rounds (plugin_backend (memory_plugin (malloc_functions sample_sys) 4)) (sample_conn sample_input)
      = Some conn' \<and> stream (sockin conn') = []
    \<and> sockout conn' = reply_bytes False sample_write 0 [] @ reply_bytes False sample_read 0 [7, 8]"
proof -
  have out: "map_option sockout (two_rounds (plugin_backend (memory_plugin (malloc_functions sample_sys) 4)) (sample_conn sample_input))
      = Some (reply_bytes False sample_write 0 [] @ reply_bytes False sample_read 0 [7, 8])"
    by code_simp
  have c: "ready (sample_conn sample_input)" "top_context (sample_conn sample_input) = Some sample_ctx"
    "stream (sockin (sample_conn sample_input)) = enc_request sample_write @ [7, 8] @ enc_request sample_read @ []"
    by (simp_all add: ready_def sample_conn_def new_connection_def sample_input_def)
  have r: "rq_type sample_write = NBD_CMD_WRITE" "rq_magic sample_write = NBD_REQUEST_MAGIC"
    "length [7 :: u8, 8] = unat (rq_count sample_write)" "rq_type sample_read = NBD_CMD_READ"
    "rq_magic sample_read = NBD_REQUEST_MAGIC" "rq_offset sample_read = rq_offset sample_write"
    "rq_count sample_read = rq_count sample_write"
    by (simp_all add: sample_read_def sample_write_def)
  have "session_ok (world_ok (m_inv 4)) (unat (4 :: u64)) True True (sample_conn sample_input)"
    using sample_session by simp
  from write_then_read [OF this c(1-3) r sample_valid, of sample_sys] out show ?thesis by auto
qed

text \<open>C2: A request that passed validation is executed on the memory plugin over the malloc allocator as on an
  abstract disk: a read returns the bytes of the range, a write and a write of zeroes change exactly
  these, a block status reports as zero only bytes that are, and nothing else changes anything outside the range.\<close>

theorem memory_request_refines:
  assumes "negotiated (unat dsize) c" and "world_ok (m_inv dsize) (inner c)" and "advertised conn c"
    and "validate_request conn c cmd flags off count = Some None"
    and "has flags NBD_CMD_FLAG_FAST_ZERO \<longrightarrow> c_can_fast_zero c = 1"
    and "cmd = NBD_CMD_WRITE \<longrightarrow> length buf = unat count"
    and "cmd = NBD_CMD_BLOCK_STATUS \<longrightarrow> (\<exists>x. exts = Some x \<and> wf_extents x \<and> extents x = []
      \<and> x_start x = off \<and> x_next x = - 1 \<and> unat (x_end x) = unat dsize)"
  shows "handled (world_ok (m_inv dsize)) (\<lambda>w. m_content (priv w)) c cmd (unat off) (unat count) buf exts
    (handle_request (plugin_backend (memory_plugin (malloc_functions sys) dsize)) c cmd flags off count buf exts)"
  using malloc_alloc.mem.pb.handle_request_ok [OF assms(1-5) _ assms(6,7)] by simp

theorem memory_request_refines_witness:
  "handled (world_ok (m_inv 4)) (\<lambda>w. m_content (priv w)) sample_ctx NBD_CMD_WRITE 1 2 [7, 8] None
    (handle_request (plugin_backend (memory_plugin (malloc_functions sample_sys) 4)) sample_ctx NBD_CMD_WRITE 0 1 2 [7, 8] None)"
proof -
  have "validate_request (sample_conn []) sample_ctx NBD_CMD_WRITE 0 1 2 = Some None"
    using sample_valid(1) by (simp add: sample_write_def)
  moreover have "world_ok (m_inv 4) (inner sample_ctx)"
    using sample_world_ok by (simp add: sample_ctx_def new_context_def)
  ultimately show ?thesis
    using memory_request_refines [of 4 sample_ctx "sample_conn []" NBD_CMD_WRITE 0 1 2 "[7, 8]" None sample_sys]
      sample_negotiated sample_advertised by simp
qed

text \<open>C7: The request loop of a connection to the memory plugin over the malloc allocator, with a disk of any size, ends for every
  finite input, without an abort, with the connection's status at most \<^verbatim>\<open>STATUS_CLIENT_DONE\<close>.  The connection is one as
  the handshake leaves it (\<^const>\<open>session_ok\<close>): open, with flags that agree with the capabilities, and with fast zeroes
  offered whenever zeroes are.\<close>

theorem request_loop_terminates:
  assumes "session_ok (world_ok (m_inv dsize)) (unat dsize) True True conn"
  shows "\<exists>conn'. process_requests (plugin_backend (memory_plugin (malloc_functions sys) dsize)) False conn = Some conn'
    \<and> conn_status conn' \<le> STATUS_CLIENT_DONE"
  using malloc_alloc.mem.pb.process_requests_ok [where dsize = dsize and conn = conn and sys = sys] assms by auto

theorem request_loop_terminates_witness:
  "\<exists>conn'. process_requests (plugin_backend (memory_plugin (malloc_functions sample_sys) 4)) False
      (sample_conn [Rd [1, 2, 3], RdErr]) = Some conn' \<and> conn_status conn' \<le> STATUS_CLIENT_DONE"
  using request_loop_terminates [of 4 "sample_conn [Rd [1, 2, 3], RdErr]" sample_sys] sample_session by simp

text \<open>C6: After a successful newstyle handshake with the memory plugin over the malloc allocator the export is open, has
  the configured size, and the export flags sent to the client promise exactly what the opened export can
  do: each of them is set if and only if the corresponding capability was negotiated, with multi-conn only for a thread model that
  allows parallel connections and DF only with structured replies, and no other bit is set.\<close>

theorem handshake_flags_exact:
  assumes "closed_ok (m_inv dsize) w" and "top_context conn = None" and "default_exportname conn = None"
    and "protocol_handshake_newstyle (memory_server (malloc_functions sys) dsize srv) w conn = Some (0, w', conn')"
  shows "\<exists>c. top_context conn' = Some c \<and> negotiated (unat dsize) c
    \<and> flags_exact (thread_model srv) (structured_replies conn') (eflags conn') c \<and> world_ok (m_inv dsize) (inner c)"
proof -
  have "malloc_alloc.ds.es.idle dsize w conn"
    using assms(1-3) by (simp add: malloc_alloc.ds.es.idle_def)
  moreover have "thread_model (memory_server (malloc_functions sys) dsize srv) = thread_model srv"
    by (simp add: memory_server_def plugin_server_def)
  ultimately
  show ?thesis
    using malloc_alloc.ds.es.protocol_handshake_newstyle_ok [of dsize w conn sys srv] assms(4)
    by (auto simp: malloc_alloc.ds.es.handshake_ok_def malloc_alloc.ds.es.serving_def split: option.splits)
qed

theorem handshake_flags_exact_witness:
  "\<exists>w' conn' c. protocol_handshake_newstyle sample_server sample_world sample_hello = Some (0, w', conn')
     \<and> top_context conn' = Some c \<and> negotiated 4 c
     \<and> flags_exact (thread_model sample_settings) (structured_replies conn') (eflags conn') c"
proof -
  obtain w conn where h: "protocol_handshake_newstyle sample_server sample_world sample_hello = Some (0, w, conn)"
    by (rule sample_handshake)
  from handshake_flags_exact [OF sample_world_ok(1) _ _ h] h show ?thesis
    by (auto simp: sample_hello_def new_connection_def)
qed

theorem handshake_requires_tls_witness:
  "\<exists>w' conn'. protocol_handshake_newstyle sample_server sample_world sample_hello = Some (0, w', conn') \<and> using_tls conn'"
proof -
  obtain w conn where h: "protocol_handshake_newstyle sample_server sample_world sample_hello = Some (0, w, conn)"
    by (rule sample_handshake)
  have "tls sample_server = 2" by (simp add: memory_server_def plugin_server_def sample_settings_def)
  from handshake_requires_tls [OF this h] h show ?thesis by blast
qed

theorem no_backend_before_tls_witness:
  "negotiate_option (sample_settings\<lparr>top := plugin_backend (memory_plugin (malloc_functions sample_sys) 8),
      close_next := None, prepare_next := None, finalize_next := None, close_rest := None\<rparr>) False sample_world sample_hello
   = negotiate_option sample_settings False sample_world sample_hello"
  by (rule no_backend_before_tls) (simp_all add: sample_settings_def sample_hello_def new_connection_def)

theorem extents_full_plain_witness:
  "\<exists>ret c'. nbdkit_extents_full (\<lambda>c count off flags t. backend_extents (plugin_backend (memory_plugin (malloc_functions sample_sys) 4))
      c count off flags t 0) (sample_ctx\<lparr>c_can_extents := 0\<rparr>) 3 1 0 0 = Some (Inr ret, c') \<and> wf_extents ret \<and> x_start ret = 1"
proof -
  have "negotiated 4 (sample_ctx\<lparr>c_can_extents := 0\<rparr>)"
    using sample_negotiated by (simp add: negotiated_def connected_def)
  then obtain ret c' where "nbdkit_extents_full (\<lambda>c count off flags t. backend_extents
      (plugin_backend (memory_plugin (malloc_functions sample_sys) 4)) c count off flags t 0) (sample_ctx\<lparr>c_can_extents := 0\<rparr>) 3 1 0 0
      = Some (Inr ret, c')" "wf_extents ret" "x_start ret = 1"
    by (rule extents_full_plain [where count = 3 and off = 1 and flags = 0 and err = 0, elim_format]) auto
  then show ?thesis by blast
qed

theorem plugin_block_size_sane_witness:
  "\<exists>c'. plugin_block_size (memory_plugin (malloc_functions sample_sys) 4) sample_ctx = Some (0, (1, 512, 0xffffffff), c')
    \<and> (\<exists>j k. unat (1 :: u32) = 2 ^ j \<and> j \<le> 16 \<and> unat (512 :: u32) = 2 ^ k \<and> 9 \<le> k \<and> k \<le> 25)"
proof -
  have b: "plugin_block_size (memory_plugin (malloc_functions sample_sys) 4) sample_ctx = Some (0, (1, 512, 0xffffffff), sample_ctx)"
    by code_simp
  from plugin_block_size_sane [OF b] b show ?thesis by auto
qed

theorem block_status_descriptors_witness:
  "\<exists>n > 0. extents_to_block_descriptors \<lparr>extents = [\<lparr>ext_offset = 0, ext_length = 3, ext_type = 0\<rparr>], x_start = 0,
     x_end = 4, x_next = 3\<rparr> 0 4 0 = Some (map descriptor (take n [\<lparr>ext_offset = 0, ext_length = 3, ext_type = 0\<rparr>]))"
  using block_status_descriptors [of "\<lparr>extents = [\<lparr>ext_offset = 0, ext_length = 3, ext_type = 0\<rparr>], x_start = 0,
     x_end = 4, x_next = 3\<rparr>" 0 4 0] by (auto simp: wf_extents_def covered_def)

subsection \<open>Partitions\<close>

text \<open>C12: A connection to a newstyle server with the partitioning plugin, with a disk of any size, always ends, never aborts and
  leaves the export closed and the plugin's state well formed, whatever the client sends and whichever finitely many system
  calls on the files fail, with any error number, or are cut short.\<close>

theorem partitioning_connection_never_aborts:
  assumes "closed_ok (part_inv sz) w"
  shows "\<exists>w' out. handle_single_connection (partitioning_server srv) False input ws w = Some (w', out) \<and> closed_ok (part_inv sz) w'"
  using part_server.handle_single_connection_ok [OF assms] by simp

definition sample_part :: part_state where
  "sample_part = \<lparr>the_files = [sample_file 0], the_parttype = PARTTYPE_UNSET,
     the_regions = [\<lparr>r_start = 0, r_len = 3, r_end = 2, r_type = region_file 0, r_description = ''file''\<rparr>], primary = None,
     secondary = None, ebr = None, os_files = [[1, 2, 3]], io_script = [IoErr 5, Io 1]\<rparr>"

definition sample_part_world :: "part_state world" where
  "sample_part_world = \<lparr>conn_exportname = None, tl_errno = 0, c_errno = 0, priv = sample_part\<rparr>"

lemma sample_part_ok: "part_inv 3 sample_part"
  by (simp add: part_inv_def sample_part_def regions_ok_def region_backed_def script_ok_def sample_file_def)

definition sample_part_settings :: "part_state server" where
  "sample_part_settings = \<lparr>top = plugin_backend partitioning_plugin, close_next = None,
     prepare_next = None, finalize_next = None, close_rest = None, forget_exportnames = (\<lambda>w. w),
     preconnect = (\<lambda>_ w. Some (0, w)), read_only = False, tls = 0, newstyle = True, no_sr = False, no_mc = False,
     mask_handshake = - 1, thread_model = 3, have_gnutls = True, last_error = (\<lambda>_. None),
     crypto_negotiate_tls = (\<lambda>t. (0, t))\<rparr>"

theorem partitioning_connection_never_aborts_witness:
  "\<exists>w' out. handle_single_connection (partitioning_server sample_part_settings) False
      [Rd [0, 0], RdIntr, Rd [0, 3, 0x49], RdErr] [Wr 3, WrIntr] sample_part_world = Some (w', out) \<and> closed_ok (part_inv 3) w'"
  by (rule partitioning_connection_never_aborts)
    (simp_all add: closed_ok_def world_ok_def sample_part_world_def sample_part_ok)

text \<open>C13: A request that passed validation is executed on the partitioning plugin as on one disk, made of the partition tables, the
  files and the padding: a read returns the bytes of its range and a write changes exactly these, however the request is
  spread over regions and system calls.\<close>

theorem partitioning_request_refines:
  assumes "negotiated sz c" and "world_ok (part_inv sz) (inner c)" and "advertised conn c"
    and "validate_request conn c cmd flags off count = Some None"
    and "has flags NBD_CMD_FLAG_FAST_ZERO \<longrightarrow> c_can_fast_zero c = 1" and "c_can_zero c \<noteq> NBDKIT_ZERO_NATIVE"
    and "cmd = NBD_CMD_WRITE \<longrightarrow> length buf = unat count"
    and "cmd = NBD_CMD_BLOCK_STATUS \<longrightarrow> (\<exists>x. exts = Some x \<and> wf_extents x \<and> extents x = []
      \<and> x_start x = off \<and> x_next x = - 1 \<and> unat (x_end x) = sz)"
  shows "handled (world_ok (part_inv sz)) (\<lambda>w. part_content (priv w)) c cmd (unat off) (unat count) buf exts
    (handle_request (plugin_backend partitioning_plugin) c cmd flags off count buf exts)"
  using part_disk.pb.handle_request_ok [OF assms(1-5) _ assms(7,8)] assms(6) by simp

definition sample_part_ctx :: "part_state ctx" where
  "sample_part_ctx = (new_context False sample_part_world)\<lparr>handle := True, c_state := HANDLE_OPEN OR HANDLE_CONNECTED,
     exportsize := 3, c_can_write := 1, c_can_flush := 1, c_is_rotational := 0, c_can_trim := 0, c_can_zero := 1,
     c_can_fast_zero := 1, c_can_fua := 1, c_can_multi_conn := 1, c_can_extents := 0, c_can_cache := 1\<rparr>"

definition sample_part_conn :: "part_state connection" where
  "sample_part_conn = (new_connection 0 [] [])\<lparr>top_context := Some sample_part_ctx, handshake_complete := True,
     eflags := NBD_FLAG_HAS_FLAGS OR NBD_FLAG_SEND_FLUSH OR NBD_FLAG_SEND_FUA\<rparr>"

theorem partitioning_request_refines_witness:
  "handled (world_ok (part_inv 3)) (\<lambda>w. part_content (priv w)) sample_part_ctx NBD_CMD_WRITE 1 2 [7, 8] None
    (handle_request (plugin_backend partitioning_plugin) sample_part_ctx NBD_CMD_WRITE 0 1 2 [7, 8] None)"
proof -
  have "validate_request sample_part_conn sample_part_ctx NBD_CMD_WRITE 0 1 2 = Some None"
    by (simp add: validate_request_def validate_range_def validate_flags_def validate_allowed_def backend_valid_range_def
        sample_part_conn_def sample_part_ctx_def new_context_def flag_simps has_def)
  moreover have "world_ok (part_inv 3) (inner sample_part_ctx)"
    using sample_part_ok by (simp add: sample_part_ctx_def new_context_def sample_part_world_def world_ok_def)
  moreover have "negotiated 3 sample_part_ctx"
    by (simp add: negotiated_def connected_def sample_part_ctx_def new_context_def has_def)
  moreover have "advertised sample_part_conn sample_part_ctx"
    by (simp add: advertised_def sample_part_conn_def sample_part_ctx_def new_context_def flag_simps has_def)
  ultimately show ?thesis
    using partitioning_request_refines [of 3 sample_part_ctx sample_part_conn NBD_CMD_WRITE 0 1 2 "[7, 8]" None]
    by (simp add: sample_part_ctx_def)
qed

text \<open>C14: On a memory disk with any contents at all the search for a partition ends without an abort.  A partition it accepts has
  a start and a size that are not negative as signed numbers and lies
  inside the disk, so that the filter serves the bytes of the disk at that place.  The exception are GPT partitions for which
  the sum of the start and the size exceeds the range of the signed type: those need not lie inside the disk.\<close>

theorem partition_filter_safe:
  assumes "quiet (unat dsize) (\<lambda>w. world_ok (m_inv dsize) w \<and> m_content (priv w) = d) c" and "ss \<in> {0, 512, 4096}"
  shows "\<exists>r h' ss' c'. partition_prepare (plugin_backend (memory_plugin (malloc_functions sys) dsize)) partnum ss h c = Some (r, h', ss', c')
    \<and> (r = 0 \<longrightarrow> unat (h_offset h') < 2 ^ 63 \<and> unat (h_range h') < 2 ^ 63)
    \<and> (r = 0 \<and> (h_type h' = Some GPT \<longrightarrow> unat (h_offset h') + unat (h_range h') < 2 ^ 63) \<longrightarrow>
        unat (h_offset h') + unat (h_range h') \<le> unat dsize
      \<and> (\<forall>count offs err. 0 < unat count \<and> unat offs + unat count \<le> unat (h_range h') \<longrightarrow>
          partition_pread (plugin_backend (memory_plugin (malloc_functions sys) dsize)) h' c' count offs 0 err
            = Some (0, disk_read d (unat (h_offset h') + unat offs) (unat count), err, c')))"
  using malloc_alloc.qm.partition_prepare_ok [OF assms, where partnum = partnum and h = h and sys = sys]
  by (elim exE conjE, intro exI conjI) (assumption, blast, blast intro: malloc_alloc.qm.partition_reads)

text \<open>A disk of three sectors with an MBR, whose first partition is the second and the third sector.\<close>

definition sample_mbr :: "u8 list" where
  "sample_mbr = zeroes 446 @ [0, 0, 0, 0, 0x83, 0, 0, 0, 1, 0, 0, 0, 2, 0, 0, 0] @ zeroes 48 @ [0x55, 0xaa] @ zeroes 1022 @ [7, 8]"

definition sample_mbr_ctx :: "m_alloc ctx" where
  "sample_mbr_ctx = sample_ctx\<lparr>inner := sample_world\<lparr>priv := \<lparr>ma_use_mlock = False, ba = sample_mbr\<rparr>\<rparr>, exportsize := 1536\<rparr>"

lemma sample_mbr_found:
  "map_option (\<lambda>(r, h, ss, c). (r, h)) (partition_prepare (plugin_backend (memory_plugin (malloc_functions sample_sys) 1536)) 1 512 partition_open
     sample_mbr_ctx) = Some (0, \<lparr>h_offset = 512, h_range = 1024, h_type = Some MBR\<rparr>)"
  by code_simp

theorem partition_filter_safe_witness:
  "\<exists>h ss c. partition_prepare (plugin_backend (memory_plugin (malloc_functions sample_sys) 1536)) 1 512 partition_open sample_mbr_ctx
      = Some (0, h, ss, c) \<and> h_offset h = 512 \<and> h_range h = 1024
    \<and> partition_pread (plugin_backend (memory_plugin (malloc_functions sample_sys) 1536)) h c 2 1022 0 0 = Some (0, [7, 8], 0, c)"
proof -
  have "quiet (unat (1536 :: u64)) (\<lambda>w. world_ok (m_inv 1536) w \<and> m_content (priv w) = m_content (priv (inner sample_mbr_ctx))) sample_mbr_ctx"
    using sample_world_ok(2) sample_negotiated
    by (simp add: quiet_def negotiated_def sample_mbr_ctx_def sample_ctx_def new_context_def connected_def world_ok_def m_inv_def
        sample_mbr_def sample_world_def)
  note safe = partition_filter_safe [OF this, of 512 sample_sys 1 partition_open]
  have "disk_read (m_content (priv (inner sample_mbr_ctx))) 1534 2 = [7, 8]"
    by (simp add: disk_read_def m_content_def sample_mbr_ctx_def sample_mbr_def upt_rec numeral_2_eq_2 nth_append)
  with safe sample_mbr_found show ?thesis by auto
qed

end
